(* ===== verification/Prelude.thy ===== *)
theory Prelude
  imports Main "HOL-Library.Word"
begin

text \<open>
  Shared vocabulary of the development: machine integers, byte buffers, C character
  arrays with the \<^verbatim>\<open>string.h\<close> functions the sources use, memory images of integers on
  little and big endian hosts with the \<^verbatim>\<open>htonl\<close> family, the outcome of allocations,
  memory faults as values, and the generic lemmas the components share.
\<close>

unbundle bit_operations_syntax

section \<open>Machine integers, buffers and faults\<close>

type_synonym u8 = "8 word"
type_synonym u16 = "16 word"
type_synonym u32 = "32 word"
type_synonym u64 = "64 word"
type_synonym bytes = "8 word list"

text \<open>
  The undefined behaviours the sources can run into. An operation that can reach one
  returns a value of \<open>fault + 'a\<close>.
\<close>

datatype fault =
    NullDeref
  | OutOfBounds
  | UseAfterFree

text \<open>
  What the allocator answers during one operation: whether \<^verbatim>\<open>realloc\<close> and \<^verbatim>\<open>malloc\<close>
  return memory. The allocator is not part of the repository, so its answers are
  arguments of the operations that allocate.
\<close>

record alloc =
  realloc_ok :: bool
  malloc_ok :: bool

definition alloc_succeeds :: "alloc \<Rightarrow> bool" where
  "alloc_succeeds al \<longleftrightarrow> realloc_ok al \<and> malloc_ok al"

named_theorems codec_simps \<open>round-trip laws of fixed-width encodings\<close>
named_theorems cstr_simps \<open>laws of C character arrays\<close>

section \<open>C character arrays\<close>

text \<open>
  A \<^verbatim>\<open>char\<close> array is the list of its bytes. The string it holds ends before the first
  NUL byte; in an array without a NUL byte the string is the whole array (the model stops
  at the end of the array where C would read on).
\<close>

definition cstr :: "bytes \<Rightarrow> bytes" where
  "cstr b = takeWhile (\<lambda>c. c \<noteq> 0) b"

definition strlen :: "bytes \<Rightarrow> nat" where
  "strlen b = length (cstr b)"

text \<open>\<open>streq a b\<close> is \<^verbatim>\<open>strcmp(a, b) == 0\<close>.\<close>

definition streq :: "bytes \<Rightarrow> bytes \<Rightarrow> bool" where
  "streq a b \<longleftrightarrow> cstr a = cstr b"

text \<open>\<^verbatim>\<open>strncpy(dst, src, n)\<close>: at most \<open>n\<close> bytes of the string, padded with NUL bytes.\<close>

definition strncpy :: "bytes \<Rightarrow> bytes \<Rightarrow> nat \<Rightarrow> bytes" where
  "strncpy dst src n = take n (cstr src @ replicate n 0) @ drop n dst"

text \<open>\<^verbatim>\<open>memset(buf, 0, n)\<close> over a whole array of \<open>n\<close> bytes.\<close>

definition zeros :: "nat \<Rightarrow> bytes" where
  "zeros n = replicate n 0"

text \<open>A well-formed array of \<open>n\<close> bytes ends in a NUL byte.\<close>

definition wf_cbuf :: "nat \<Rightarrow> bytes \<Rightarrow> bool" where
  "wf_cbuf n b \<longleftrightarrow> length b = n \<and> b \<noteq> [] \<and> last b = 0"

lemma cstr_no_zero [cstr_simps]: "0 \<notin> set (cstr b)"
  by (auto simp: cstr_def dest: set_takeWhileD)

lemma cstr_id: "0 \<notin> set b \<Longrightarrow> cstr b = b"
  by (auto simp: cstr_def takeWhile_eq_all_conv)

lemma cstr_cstr [simp]: "cstr (cstr b) = cstr b"
  by (simp add: cstr_id cstr_no_zero)

lemma cstr_append_zero: "cstr (b @ 0 # c) = cstr b"
  by (induction b) (simp_all add: cstr_def)

lemma length_cstr_le: "length (cstr b) \<le> length b"
  by (simp add: cstr_def length_takeWhile_le)

lemma cstr_Nil [simp]: "cstr [] = []"
  by (simp add: cstr_def)

lemma cstr_zeros [simp]: "cstr (zeros n) = []"
  by (cases n) (simp_all add: cstr_def zeros_def)

lemma length_zeros [simp]: "length (zeros n) = n"
  by (simp add: zeros_def)

lemma wf_cbuf_zeros [simp]: "0 < n \<Longrightarrow> wf_cbuf n (zeros n)"
  by (simp add: wf_cbuf_def zeros_def)

lemma wf_cbuf_length: "wf_cbuf n b \<Longrightarrow> length b = n"
  by (simp add: wf_cbuf_def)

lemma length_cstr_wf:
  assumes "wf_cbuf n b"
  shows "length (cstr b) < n"
proof -
  have "b = butlast b @ 0 # []"
    using assms append_butlast_last_id [of b] by (simp add: wf_cbuf_def)
  then have "cstr b = cstr (butlast b)"
    using cstr_append_zero [of "butlast b" "[]"] by metis
  moreover have "length (butlast b) < n"
    using assms by (auto simp: wf_cbuf_def)
  ultimately show ?thesis
    using length_cstr_le [of "butlast b"] by simp
qed

lemma length_strncpy: "n \<le> length dst \<Longrightarrow> length (strncpy dst src n) = length dst"
  by (simp add: strncpy_def)

lemma cstr_pad: "0 \<notin> set s \<Longrightarrow> cstr (s @ replicate k 0 @ r) = (if k = 0 then s @ cstr r else s)"
  by (cases k) (simp_all add: cstr_def takeWhile_append takeWhile_eq_all_conv)

lemma strncpy_wf:
  assumes "wf_cbuf (Suc n) dst"
  shows "wf_cbuf (Suc n) (strncpy dst src n)"
proof -
  have "drop n dst \<noteq> []" and "last (drop n dst) = 0"
    using assms by (auto simp: wf_cbuf_def)
  then show ?thesis
    using assms by (auto simp: wf_cbuf_def strncpy_def)
qed

text \<open>Copying into an array one byte longer keeps the string up to truncation.\<close>

lemma cstr_strncpy:
  assumes "wf_cbuf (Suc n) dst"
  shows "cstr (strncpy dst src n) = take n (cstr src)"
proof -
  have dr: "drop n dst = [0]"
  proof -
    have "drop n dst = [dst ! n]"
      using assms by (simp add: wf_cbuf_def Cons_nth_drop_Suc [symmetric])
    moreover have "last dst = dst ! n"
      using assms last_conv_nth [of dst] by (simp add: wf_cbuf_def)
    ultimately show ?thesis
      using assms by (simp add: wf_cbuf_def)
  qed
  have nz: "0 \<notin> set (take n (cstr src))"
    using cstr_no_zero by (meson in_set_takeD)
  have "strncpy dst src n = take n (cstr src) @ replicate (n - length (cstr src)) 0 @ [0]"
    by (simp add: strncpy_def dr)
  also have "\<dots> = take n (cstr src) @ replicate (Suc (n - length (cstr src))) 0 @ []"
    by (simp add: replicate_append_same)
  also have "cstr \<dots> = take n (cstr src)"
    by (subst cstr_pad [OF nz]) simp
  finally show ?thesis .
qed

lemma cstr_strncpy_fits:
  assumes "wf_cbuf (Suc n) dst" and "strlen src \<le> n"
  shows "cstr (strncpy dst src n) = cstr src"
  using assms by (simp add: cstr_strncpy strlen_def)

lemma streq_refl [simp]: "streq a a"
  by (simp add: streq_def)

lemma streq_sym: "streq a b \<longleftrightarrow> streq b a"
  by (auto simp: streq_def)

lemma streq_trans: "streq a b \<Longrightarrow> streq b c \<Longrightarrow> streq a c"
  by (simp add: streq_def)

section \<open>Memory images of integers\<close>

text \<open>
  \<open>to_le n w\<close> and \<open>to_be n w\<close> are the \<open>n\<close> bytes of an integer, least and most
  significant byte first; \<open>of_le\<close> and \<open>of_be\<close> read them back.
\<close>

definition to_le :: "nat \<Rightarrow> 'a::len word \<Rightarrow> bytes" where
  "to_le n w = map (\<lambda>i. ucast (drop_bit (8 * i) w)) [0..<n]"

fun of_le :: "bytes \<Rightarrow> 'a::len word" where
  "of_le [] = 0"
| "of_le (b # bs) = ucast b OR push_bit 8 (of_le bs)"

definition to_be :: "nat \<Rightarrow> 'a::len word \<Rightarrow> bytes" where
  "to_be n w = rev (to_le n w)"

definition of_be :: "bytes \<Rightarrow> 'a::len word" where
  "of_be bs = of_le (rev bs)"

lemma length_to_le [simp]: "length (to_le n w) = n"
  by (simp add: to_le_def)

lemma length_to_be [simp]: "length (to_be n w) = n"
  by (simp add: to_be_def)

lemma bit_of_le:
  "bit (of_le bs :: 'a::len word) j \<longleftrightarrow>
     j < LENGTH('a) \<and> j div 8 < length bs \<and> bit (bs ! (j div 8)) (j mod 8)"
proof (induction bs arbitrary: j)
  case Nil
  then show ?case by simp
next
  case (Cons b bs)
  show ?case
  proof (cases "j < 8")
    case True
    then show ?thesis
      by (auto simp: bit_or_iff bit_push_bit_iff bit_unsigned_iff)
  next
    case False
    then obtain k where k: "j = k + 8"
      by (metis add.commute le_Suc_ex not_less)
    have nb: "\<not> bit b j"
      using False by (auto dest: bit_imp_le_length)
    have "bit (of_le (b # bs) :: 'a word) j \<longleftrightarrow> j < LENGTH('a) \<and> bit (of_le bs :: 'a word) k"
      using nb by (auto simp: bit_or_iff bit_push_bit_iff bit_unsigned_iff k dest: bit_imp_le_length)
    moreover have "j div 8 = Suc (k div 8)" and "j mod 8 = k mod 8"
      by (simp_all add: k)
    ultimately show ?thesis
      using Cons.IH [of k] by (auto simp: k)
  qed
qed

lemma of_le_to_le:
  fixes w :: "'a::len word"
  assumes "LENGTH('a) \<le> 8 * n"
  shows "of_le (to_le n w) = w"
proof (rule bit_word_eqI)
  fix j
  assume "j < LENGTH('a)"
  moreover from this assms have "j div 8 < n"
    by linarith
  moreover have "8 * (j div 8) + j mod 8 = j"
    by simp
  ultimately show "bit (of_le (to_le n w) :: 'a word) j = bit w j"
    by (simp add: bit_of_le to_le_def bit_unsigned_iff bit_drop_bit_eq)
qed

lemma to_le_of_le:
  assumes "length bs = n" and "8 * n \<le> LENGTH('a)"
  shows "to_le n (of_le bs :: 'a::len word) = bs"
proof (rule nth_equalityI)
  show "length (to_le n (of_le bs :: 'a word)) = length bs"
    using assms by simp
next
  fix i
  assume "i < length (to_le n (of_le bs :: 'a word))"
  then have i: "i < n" by simp
  show "to_le n (of_le bs :: 'a word) ! i = bs ! i"
  proof (rule bit_word_eqI)
    fix j
    assume "j < LENGTH(8)"
    then have j: "j < 8" by simp
    have "8 * i + j < LENGTH('a)"
      using i j assms(2) by linarith
    with i j assms show "bit (to_le n (of_le bs :: 'a word) ! i) j = bit (bs ! i) j"
      by (simp add: to_le_def bit_unsigned_iff bit_drop_bit_eq bit_of_le)
  qed
qed

lemma of_be_to_be: "LENGTH('a) \<le> 8 * n \<Longrightarrow> of_be (to_be n (w :: 'a::len word)) = w"
  by (simp add: of_be_def to_be_def of_le_to_le)

lemma to_be_of_be:
  "length bs = n \<Longrightarrow> 8 * n \<le> LENGTH('a) \<Longrightarrow> to_be n (of_be bs :: 'a::len word) = bs"
  by (simp add: of_be_def to_be_def to_le_of_le)

text \<open>
  A host stores integers in its own byte order. \<^verbatim>\<open>htonl\<close> and its kin swap the bytes
  on a little endian host and are the identity on a big endian one.
\<close>

datatype endian = Little | Big

definition host_bytes :: "endian \<Rightarrow> nat \<Rightarrow> 'a::len word \<Rightarrow> bytes" where
  "host_bytes e n w = (case e of Little \<Rightarrow> to_le n w | Big \<Rightarrow> to_be n w)"

definition host_word :: "endian \<Rightarrow> bytes \<Rightarrow> 'a::len word" where
  "host_word e bs = (case e of Little \<Rightarrow> of_le bs | Big \<Rightarrow> of_be bs)"

definition swap_net :: "endian \<Rightarrow> nat \<Rightarrow> 'a::len word \<Rightarrow> 'a word" where
  "swap_net e n w = (case e of Little \<Rightarrow> of_be (to_le n w) | Big \<Rightarrow> w)"

abbreviation htons :: "endian \<Rightarrow> u16 \<Rightarrow> u16" where "htons e \<equiv> swap_net e 2"
abbreviation ntohs :: "endian \<Rightarrow> u16 \<Rightarrow> u16" where "ntohs e \<equiv> swap_net e 2"
abbreviation htonl :: "endian \<Rightarrow> u32 \<Rightarrow> u32" where "htonl e \<equiv> swap_net e 4"
abbreviation ntohl :: "endian \<Rightarrow> u32 \<Rightarrow> u32" where "ntohl e \<equiv> swap_net e 4"
abbreviation htobe64 :: "endian \<Rightarrow> u64 \<Rightarrow> u64" where "htobe64 e \<equiv> swap_net e 8"
abbreviation be64toh :: "endian \<Rightarrow> u64 \<Rightarrow> u64" where "be64toh e \<equiv> swap_net e 8"

lemma length_host_bytes [simp]: "length (host_bytes e n w) = n"
  by (cases e) (simp_all add: host_bytes_def)

lemma host_word_host_bytes:
  "LENGTH('a) \<le> 8 * n \<Longrightarrow> host_word e (host_bytes e n (w :: 'a::len word)) = w"
  by (cases e) (simp_all add: host_word_def host_bytes_def of_le_to_le of_be_to_be)

lemma host_bytes_host_word:
  "length bs = n \<Longrightarrow> 8 * n \<le> LENGTH('a) \<Longrightarrow> host_bytes e n (host_word e bs :: 'a::len word) = bs"
  by (cases e) (simp_all add: host_word_def host_bytes_def to_le_of_le to_be_of_be)

lemma host_bytes_swap_net:
  fixes w :: "'a::len word"
  assumes "LENGTH('a) = 8 * n"
  shows "host_bytes e n (swap_net e n w) = to_be n w"
proof (cases e)
  case Little
  have "to_le n (of_be (to_le n w) :: 'a word) = rev (to_be n (of_be (to_le n w) :: 'a word))"
    by (simp add: to_be_def)
  also have "\<dots> = rev (to_le n w)"
    using assms by (simp add: to_be_of_be)
  finally show ?thesis
    using Little by (simp add: host_bytes_def swap_net_def to_be_def)
next
  case Big
  then show ?thesis by (simp add: host_bytes_def swap_net_def)
qed

lemma swap_net_host_word:
  assumes "LENGTH('a) = 8 * n" and "length bs = n"
  shows "swap_net e n (host_word e bs :: 'a::len word) = of_be bs"
proof (cases e)
  case Little
  then show ?thesis
    using assms by (simp add: host_word_def swap_net_def to_le_of_le)
next
  case Big
  then show ?thesis by (simp add: host_word_def swap_net_def)
qed

lemma swap_net_swap_net:
  fixes w :: "'a::len word"
  assumes "LENGTH('a) = 8 * n"
  shows "swap_net e n (swap_net e n w) = w"
proof -
  have "swap_net e n (host_word e (host_bytes e n (swap_net e n w)) :: 'a word) = w"
    using assms by (simp add: swap_net_host_word host_bytes_swap_net of_be_to_be)
  then show ?thesis
    using assms by (simp add: host_word_host_bytes)
qed

text \<open>The laws at the widths the sources use.\<close>

lemma codec16 [codec_simps]:
  "host_bytes e 2 (swap_net e 2 (w :: u16)) = to_be 2 w"
  "of_be (to_be 2 (w :: u16)) = w"
  "length bs = 2 \<Longrightarrow> swap_net e 2 (host_word e bs :: u16) = of_be bs"
  "length bs = 2 \<Longrightarrow> to_be 2 (of_be bs :: u16) = bs"
  by (simp_all add: host_bytes_swap_net of_be_to_be swap_net_host_word to_be_of_be)

lemma codec32 [codec_simps]:
  "host_bytes e 4 (swap_net e 4 (w :: u32)) = to_be 4 w"
  "of_be (to_be 4 (w :: u32)) = w"
  "length bs = 4 \<Longrightarrow> swap_net e 4 (host_word e bs :: u32) = of_be bs"
  "length bs = 4 \<Longrightarrow> to_be 4 (of_be bs :: u32) = bs"
  by (simp_all add: host_bytes_swap_net of_be_to_be swap_net_host_word to_be_of_be)

lemma codec64 [codec_simps]:
  "host_bytes e 8 (swap_net e 8 (w :: u64)) = to_be 8 w"
  "of_be (to_be 8 (w :: u64)) = w"
  "length bs = 8 \<Longrightarrow> swap_net e 8 (host_word e bs :: u64) = of_be bs"
  "length bs = 8 \<Longrightarrow> to_be 8 (of_be bs :: u64) = bs"
  by (simp_all add: host_bytes_swap_net of_be_to_be swap_net_host_word to_be_of_be)

section \<open>Counting on words\<close>

lemma unat_plus_one_less: "(x :: 'a::len word) < y \<Longrightarrow> unat (x + 1) = unat x + 1"
proof -
  assume "x < y"
  then have "unat x + 1 \<le> unat y"
    by (simp add: word_less_nat_alt)
  also have "unat y < 2 ^ LENGTH('a)"
    by (rule unsigned_less)
  finally have "(unat x + 1) mod 2 ^ LENGTH('a) = unat x + 1"
    by (rule mod_less)
  then show ?thesis
    by (simp add: unat_word_ariths)
qed

lemma unat_plus_one: "(x :: 'a::len word) \<noteq> - 1 \<Longrightarrow> unat (x + 1) = unat x + 1"
  by (rule unat_plus_one_less [of _ "- 1"]) (simp add: word_order.not_eq_extremum)

lemma unat_of_nat_64: "k < 2 ^ 64 \<Longrightarrow> unat (of_nat k :: u64) = k"
  by (simp add: unat_of_nat take_bit_nat_eq_self)

lemma unat_of_nat_32: "k < 2 ^ 32 \<Longrightarrow> unat (of_nat k :: u32) = k"
  by (simp add: unat_of_nat take_bit_nat_eq_self)

section \<open>Fields of packed structures\<close>

text \<open>\<open>field_at off n bs\<close> is the field of \<open>n\<close> bytes at offset \<open>off\<close> of a packed structure.\<close>

definition field_at :: "nat \<Rightarrow> nat \<Rightarrow> bytes \<Rightarrow> bytes" where
  "field_at off n bs = take n (drop off bs)"

lemma length_field_at [simp]: "off + n \<le> length bs \<Longrightarrow> length (field_at off n bs) = n"
  by (simp add: field_at_def)

lemma field_at_0: "length a = n \<Longrightarrow> field_at 0 n (a @ b) = a"
  by (simp add: field_at_def)

lemma field_at_all: "length a = n \<Longrightarrow> field_at 0 n a = a"
  by (simp add: field_at_def)

lemma field_at_skip: "length a \<le> off \<Longrightarrow> field_at off n (a @ b) = field_at (off - length a) n b"
  by (simp add: field_at_def)

lemmas field_simps_at = field_at_0 field_at_all field_at_skip

lemma field_at_merge:
  "field_at off n bs @ field_at (off + n) m bs = field_at off (n + m) bs"
  unfolding field_at_def take_add drop_drop by (simp only: add.commute [of n off])

text \<open>Consecutive fields from the start of a structure glue together to the whole of it.\<close>

lemma field_at_glue: "field_at 0 a bs @ field_at a m bs = field_at 0 (a + m) bs"
  using field_at_merge [of 0 a bs m] by simp

lemma field_at_Cons: "0 < off \<Longrightarrow> field_at off n (x # xs) = field_at (off - 1) n xs"
  by (simp add: field_at_def drop_Cons' )

lemma field_at_nth: "n < length bs \<Longrightarrow> [bs ! n] = field_at n 1 bs"
  by (simp add: field_at_def take_Suc hd_drop_conv_nth)

lemma field_at_whole: "length bs = n \<Longrightarrow> field_at 0 n bs = bs"
  by (simp add: field_at_def)

section \<open>The contract of a fixed-size message format\<close>

text \<open>
  Every wire and file structure of the program has a packing and an unpacking function.
  What their callers rely on: packing a well-formed value gives exactly \<open>size\<close> bytes,
  unpacking those returns the value, and no byte pattern of that size is lost.
\<close>

locale fixed_codec =
  fixes pack :: "'a \<Rightarrow> bytes"
    and unpack :: "bytes \<Rightarrow> 'a"
    and size :: nat
    and wf :: "'a \<Rightarrow> bool"
  assumes pack_length: "wf x \<Longrightarrow> length (pack x) = size"
    and unpack_pack: "wf x \<Longrightarrow> unpack (pack x) = x"
    and pack_unpack: "length bs = size \<Longrightarrow> pack (unpack bs) = bs"
    and unpack_wf: "length bs = size \<Longrightarrow> wf (unpack bs)"
begin

lemma pack_inject: "wf x \<Longrightarrow> wf y \<Longrightarrow> pack x = pack y \<longleftrightarrow> x = y"
  using unpack_pack by metis

lemma unpack_inject:
  "length bs = size \<Longrightarrow> length cs = size \<Longrightarrow> unpack bs = unpack cs \<longleftrightarrow> bs = cs"
  using pack_unpack by metis

text \<open>A reader that takes \<open>size\<close> bytes off a stream gets the message and leaves the rest.\<close>

lemma unpack_stream:
  "wf x \<Longrightarrow> unpack (take size (pack x @ rest)) = x \<and> drop size (pack x @ rest) = rest"
  by (simp add: pack_length unpack_pack)

lemma unpack_surj: "wf x \<Longrightarrow> \<exists>bs. length bs = size \<and> unpack bs = x"
  using pack_length unpack_pack by blast

end

end
