(* ===== verification/Wire.thy ===== *)
theory Wire
  imports Prelude
begin

text \<open>
  The wire formats: the packed structures and constants of
  \<^verbatim>\<open>include/protocol/protocol_defs.h\<close> and the functions of \<^verbatim>\<open>src/protocol/serializer.c\<close>.
  The byte order of the host is an argument \<open>e\<close>, so that the round trips below hold
  between any two hosts.
\<close>

section \<open>Structures and constants\<close>

definition RPC_MAGIC :: u32 where "RPC_MAGIC = 0xCAFEBABE"
definition GOSSIP_MAGIC :: u32 where "GOSSIP_MAGIC = 0xDEADC0DE"
definition MAX_NODE_ID :: nat where "MAX_NODE_ID = 37"

definition RPC_CMD_JOIN_REQ :: u16 where "RPC_CMD_JOIN_REQ = 0x01"
definition RPC_CMD_JOIN_RESP :: u16 where "RPC_CMD_JOIN_RESP = 0x02"
definition RPC_CMD_LEAVE :: u16 where "RPC_CMD_LEAVE = 0x03"
definition RPC_CMD_SYNC_RULES :: u16 where "RPC_CMD_SYNC_RULES = 0x10"

lemmas rpc_cmd_defs =
  RPC_CMD_JOIN_REQ_def RPC_CMD_JOIN_RESP_def RPC_CMD_LEAVE_def RPC_CMD_SYNC_RULES_def

record RpcHeader =
  magic :: u32
  version :: u16
  command_type :: u16
  payload_len :: u64
  origin_id :: bytes
  request_id :: bytes

record GossipPacket =
  g_magic :: u32
  g_type :: u32
  g_sequence :: u32
  g_node_id :: bytes

text \<open>\<^verbatim>\<open>sizeof\<close> of the two packed structures.\<close>

definition sizeof_RpcHeader :: nat where
  "sizeof_RpcHeader = 4 + 2 + 2 + 8 + MAX_NODE_ID + MAX_NODE_ID"

definition sizeof_GossipPacket :: nat where
  "sizeof_GossipPacket = 4 + 4 + 4 + MAX_NODE_ID"

text \<open>The character arrays have their declared sizes; they need not hold a NUL byte.\<close>

definition wf_rpc_header :: "RpcHeader \<Rightarrow> bool" where
  "wf_rpc_header h \<longleftrightarrow> length (origin_id h) = MAX_NODE_ID \<and> length (request_id h) = MAX_NODE_ID"

definition wf_gossip :: "GossipPacket \<Rightarrow> bool" where
  "wf_gossip g \<longleftrightarrow> length (g_node_id g) = MAX_NODE_ID"

section \<open>Packing and unpacking\<close>

definition serializer_pack_rpc :: "endian \<Rightarrow> RpcHeader \<Rightarrow> bytes" where
  "serializer_pack_rpc e src =
     host_bytes e 4 (htonl e (magic src)) @
     host_bytes e 2 (htons e (version src)) @
     host_bytes e 2 (htons e (command_type src)) @
     host_bytes e 8 (htobe64 e (payload_len src)) @
     take MAX_NODE_ID (origin_id src) @
     take MAX_NODE_ID (request_id src)"

definition serializer_unpack_rpc :: "endian \<Rightarrow> bytes \<Rightarrow> RpcHeader" where
  "serializer_unpack_rpc e src =
     \<lparr>magic = ntohl e (host_word e (field_at 0 4 src)),
      version = ntohs e (host_word e (field_at 4 2 src)),
      command_type = ntohs e (host_word e (field_at 6 2 src)),
      payload_len = be64toh e (host_word e (field_at 8 8 src)),
      origin_id = field_at 16 MAX_NODE_ID src,
      request_id = field_at 53 MAX_NODE_ID src\<rparr>"

definition serializer_pack_gossip :: "endian \<Rightarrow> GossipPacket \<Rightarrow> bytes" where
  "serializer_pack_gossip e src =
     host_bytes e 4 (htonl e (g_magic src)) @
     host_bytes e 4 (htonl e (g_type src)) @
     host_bytes e 4 (htonl e (g_sequence src)) @
     take MAX_NODE_ID (g_node_id src)"

definition serializer_unpack_gossip :: "endian \<Rightarrow> bytes \<Rightarrow> GossipPacket" where
  "serializer_unpack_gossip e src =
     \<lparr>g_magic = ntohl e (host_word e (field_at 0 4 src)),
      g_type = ntohl e (host_word e (field_at 4 4 src)),
      g_sequence = ntohl e (host_word e (field_at 8 4 src)),
      g_node_id = field_at 12 MAX_NODE_ID src\<rparr>"

text \<open>
  The header as \<^verbatim>\<open>rpc_send_message\<close> puts it on the wire: the bytes of the structure in
  memory, in the byte order of the sender.
\<close>

definition header_image :: "endian \<Rightarrow> RpcHeader \<Rightarrow> bytes" where
  "header_image e h =
     host_bytes e 4 (magic h) @
     host_bytes e 2 (version h) @
     host_bytes e 2 (command_type h) @
     host_bytes e 8 (payload_len h) @
     take MAX_NODE_ID (origin_id h) @
     take MAX_NODE_ID (request_id h)"

lemmas wire_sizes = sizeof_RpcHeader_def sizeof_GossipPacket_def MAX_NODE_ID_def
lemmas rpc_codec_defs = serializer_pack_rpc_def serializer_unpack_rpc_def wf_rpc_header_def
lemmas gossip_codec_defs = serializer_pack_gossip_def serializer_unpack_gossip_def wf_gossip_def

section \<open>The formats meet the codec contract between any two hosts\<close>

interpretation rpc: fixed_codec "serializer_pack_rpc e" "serializer_unpack_rpc d"
    sizeof_RpcHeader wf_rpc_header
  for e d
proof
  fix x
  assume wf: "wf_rpc_header x"
  show "length (serializer_pack_rpc e x) = sizeof_RpcHeader"
    using wf by (simp add: rpc_codec_defs wire_sizes)
  show "serializer_unpack_rpc d (serializer_pack_rpc e x) = x"
    using wf by (simp add: rpc_codec_defs wire_sizes codec_simps field_simps_at)
next
  fix bs :: bytes
  assume len: "length bs = sizeof_RpcHeader"
  show "wf_rpc_header (serializer_unpack_rpc d bs)"
    using len by (simp add: rpc_codec_defs wire_sizes)
  have "serializer_pack_rpc e (serializer_unpack_rpc d bs) =
      field_at 0 4 bs @ field_at 4 2 bs @ field_at 6 2 bs @ field_at 8 8 bs @
      field_at 16 37 bs @ field_at 53 37 bs"
    using len by (simp add: rpc_codec_defs wire_sizes codec_simps)
  also have "\<dots> = bs"
    using len
    by (simp add: field_at_glue field_at_whole wire_sizes flip: append_assoc)
  finally show "serializer_pack_rpc e (serializer_unpack_rpc d bs) = bs" .
qed

interpretation gossip: fixed_codec "serializer_pack_gossip e" "serializer_unpack_gossip d"
    sizeof_GossipPacket wf_gossip
  for e d
proof
  fix x
  assume wf: "wf_gossip x"
  show "length (serializer_pack_gossip e x) = sizeof_GossipPacket"
    using wf by (simp add: gossip_codec_defs wire_sizes)
  show "serializer_unpack_gossip d (serializer_pack_gossip e x) = x"
    using wf by (simp add: gossip_codec_defs wire_sizes codec_simps field_simps_at)
next
  fix bs :: bytes
  assume len: "length bs = sizeof_GossipPacket"
  show "wf_gossip (serializer_unpack_gossip d bs)"
    using len by (simp add: gossip_codec_defs wire_sizes)
  have "serializer_pack_gossip e (serializer_unpack_gossip d bs) =
      field_at 0 4 bs @ field_at 4 4 bs @ field_at 8 4 bs @ field_at 12 37 bs"
    using len by (simp add: gossip_codec_defs wire_sizes codec_simps)
  also have "\<dots> = bs"
    using len
    by (simp add: field_at_glue field_at_whole wire_sizes flip: append_assoc)
  finally show "serializer_pack_gossip e (serializer_unpack_gossip d bs) = bs" .
qed

section \<open>Properties of the formats\<close>

text \<open>An RPC header packed on any host is read back unchanged on any other, whatever the
  byte orders of the two, and what follows it on the stream is left untouched.\<close>

lemma rpc_header_roundtrip:
  assumes "wf_rpc_header h"
  shows "length (serializer_pack_rpc e h) = sizeof_RpcHeader \<and>
    serializer_unpack_rpc d (take sizeof_RpcHeader (serializer_pack_rpc e h @ rest)) = h \<and>
    drop sizeof_RpcHeader (serializer_pack_rpc e h @ rest) = rest"
  using rpc.pack_length [OF assms] rpc.unpack_stream [OF assms] by simp

definition sample_header :: RpcHeader where
  "sample_header =
     \<lparr>magic = RPC_MAGIC, version = 1, command_type = RPC_CMD_LEAVE, payload_len = 3,
      origin_id = strncpy (zeros 37) [110, 49] 36, request_id = zeros 37\<rparr>"

lemma sample_header_wf: "wf_rpc_header sample_header"
  by (simp add: sample_header_def wf_rpc_header_def MAX_NODE_ID_def strncpy_def zeros_def)

text \<open>A gossip packet packed on any host is read back unchanged on any other, and
  every datagram of the packet's size is the packing of what is read from it.\<close>

lemma gossip_roundtrip:
  assumes "wf_gossip g" and "length bs = sizeof_GossipPacket"
  shows "serializer_unpack_gossip d (serializer_pack_gossip e g) = g \<and>
    serializer_pack_gossip e (serializer_unpack_gossip d bs) = bs"
  using gossip.unpack_pack [OF assms(1)] gossip.pack_unpack [OF assms(2)] by simp

text \<open>
  Reading the magic number of a header sent as raw memory: the receiver swaps, the sender
  did not.
\<close>

lemma magic_of_image:
  "magic (serializer_unpack_rpc d (header_image e h @ rest)) = htonl e (magic h)"
proof -
  have "field_at 0 4 (header_image e h @ rest) = host_bytes e 4 (magic h)"
    by (simp add: header_image_def field_simps_at)
  then have "magic (serializer_unpack_rpc d (header_image e h @ rest)) = of_be (host_bytes e 4 (magic h))"
    by (simp add: serializer_unpack_rpc_def codec_simps)
  then show ?thesis
    by (cases e) (simp_all add: host_bytes_def swap_net_def of_be_to_be)
qed

text \<open>C23: \<^verbatim>\<open>rpc_send_message\<close> sends the header as it lies in memory: a receiver that
  unpacks it finds the protocol's magic number exactly when the sender is big endian, so
  every message of a little endian sender is refused.\<close>

theorem raw_header_rejected:
  assumes "magic h = RPC_MAGIC"
  shows "magic (serializer_unpack_rpc d (header_image e h @ payload)) = RPC_MAGIC \<longleftrightarrow> e = Big"
  using assms by (cases e) (simp_all add: magic_of_image RPC_MAGIC_def swap_net_def, code_simp)

theorem raw_header_rejected_witness:
  "magic (serializer_unpack_rpc Little (header_image Little sample_header @ [1, 2])) \<noteq> RPC_MAGIC"
  using raw_header_rejected [of sample_header Little Little "[1, 2]"]
  by (simp add: sample_header_def)

end
