(* ===== verification/Crc32.thy ===== *)
theory Crc32
  imports Prelude
begin

text \<open>
  The checksum of the write-ahead log: the table and the function \<^verbatim>\<open>crc32\<close> of
  \<^verbatim>\<open>src/cluster/raft_persistence.c\<close>. A bit-by-bit reference definition of the reflected
  CRC-32 of polynomial \<open>0xEDB88320\<close> is given; the table-driven loop computes it, and it
  tells apart any two messages that differ only inside four consecutive bytes.
\<close>

section \<open>The table-driven checksum\<close>

definition crc32_table :: "u32 list" where
  "crc32_table =
     [0x00000000, 0x77073096, 0xee0e612c, 0x990951ba, 0x076dc419, 0x706af48f,
      0xe963a535, 0x9e6495a3, 0x0edb8832, 0x79dcb8a4, 0xe0d5e91e, 0x97d2d988,
      0x09b64c2b, 0x7eb17cbd, 0xe7b82d07, 0x90bf1d91, 0x1db71064, 0x6ab020f2,
      0xf3b97148, 0x84be41de, 0x1adad47d, 0x6ddde4eb, 0xf4d4b551, 0x83d385c7,
      0x136c9856, 0x646ba8c0, 0xfd62f97a, 0x8a65c9ec, 0x14015c4f, 0x63066cd9,
      0xfa0f3d63, 0x8d080df5, 0x3b6e20c8, 0x4c69105e, 0xd56041e4, 0xa2677172,
      0x3c03e4d1, 0x4b04d447, 0xd20d85fd, 0xa50ab56b, 0x35b5a8fa, 0x42b2986c,
      0xdbbbc9d6, 0xacbcf940, 0x32d86ce3, 0x45df5c75, 0xdcd60dcf, 0xabd13d59,
      0x26d930ac, 0x51de003a, 0xc8d75180, 0xbfd06116, 0x21b4f4b5, 0x56b3c423,
      0xcfba9599, 0xb8bda50f, 0x2802b89e, 0x5f058808, 0xc60cd9b2, 0xb10be924,
      0x2f6f7c87, 0x58684c11, 0xc1611dab, 0xb6662d3d, 0x76dc4190, 0x01db7106,
      0x98d220bc, 0xefd5102a, 0x71b18589, 0x06b6b51f, 0x9fbfe4a5, 0xe8b8d433,
      0x7807c9a2, 0x0f00f934, 0x9609a88e, 0xe10e9818, 0x7f6a0dbb, 0x086d3d2d,
      0x91646c97, 0xe6635c01, 0x6b6b51f4, 0x1c6c6162, 0x856530d8, 0xf262004e,
      0x6c0695ed, 0x1b01a57b, 0x8208f4c1, 0xf50fc457, 0x65b0d9c6, 0x12b7e950,
      0x8bbeb8ea, 0xfcb9887c, 0x62dd1ddf, 0x15da2d49, 0x8cd37cf3, 0xfbd44c65,
      0x4db26158, 0x3ab551ce, 0xa3bc0074, 0xd4bb30e2, 0x4adfa541, 0x3dd895d7,
      0xa4d1c46d, 0xd3d6f4fb, 0x4369e96a, 0x346ed9fc, 0xad678846, 0xda60b8d0,
      0x44042d73, 0x33031de5, 0xaa0a4c5f, 0xdd0d7cc9, 0x5005713c, 0x270241aa,
      0xbe0b1010, 0xc90c2086, 0x5768b525, 0x206f85b3, 0xb966d409, 0xce61e49f,
      0x5edef90e, 0x29d9c998, 0xb0d09822, 0xc7d7a8b4, 0x59b33d17, 0x2eb40d81,
      0xb7bd5c3b, 0xc0ba6cad, 0xedb88320, 0x9abfb3b6, 0x03b6e20c, 0x74b1d29a,
      0xead54739, 0x9dd277af, 0x04db2615, 0x73dc1683, 0xe3630b12, 0x94643b84,
      0x0d6d6a3e, 0x7a6a5aa8, 0xe40ecf0b, 0x9309ff9d, 0x0a00ae27, 0x7d079eb1,
      0xf00f9344, 0x8708a3d2, 0x1e01f268, 0x6906c2fe, 0xf762575d, 0x806567cb,
      0x196c3671, 0x6e6b06e7, 0xfed41b76, 0x89d32be0, 0x10da7a5a, 0x67dd4acc,
      0xf9b9df6f, 0x8ebeeff9, 0x17b7be43, 0x60b08ed5, 0xd6d6a3e8, 0xa1d1937e,
      0x38d8c2c4, 0x4fdff252, 0xd1bb67f1, 0xa6bc5767, 0x3fb506dd, 0x48b2364b,
      0xd80d2bda, 0xaf0a1b4c, 0x36034af6, 0x41047a60, 0xdf60efc3, 0xa867df55,
      0x316e8eef, 0x4669be79, 0xcb61b38c, 0xbc66831a, 0x256fd2a0, 0x5268e236,
      0xcc0c7795, 0xbb0b4703, 0x220216b9, 0x5505262f, 0xc5ba3bbe, 0xb2bd0b28,
      0x2bb45a92, 0x5cb36a04, 0xc2d7ffa7, 0xb5d0cf31, 0x2cd99e8b, 0x5bdeae1d,
      0x9b64c2b0, 0xec63f226, 0x756aa39c, 0x026d930a, 0x9c0906a9, 0xeb0e363f,
      0x72076785, 0x05005713, 0x95bf4a82, 0xe2b87a14, 0x7bb12bae, 0x0cb61b38,
      0x92d28e9b, 0xe5d5be0d, 0x7cdcefb7, 0x0bdbdf21, 0x86d3d2d4, 0xf1d4e242,
      0x68ddb3f8, 0x1fda836e, 0x81be16cd, 0xf6b9265b, 0x6fb077e1, 0x18b74777,
      0x88085ae6, 0xff0f6a70, 0x66063bca, 0x11010b5c, 0x8f659eff, 0xf862ae69,
      0x616bffd3, 0x166ccf45, 0xa00ae278, 0xd70dd2ee, 0x4e048354, 0x3903b3c2,
      0xa7672661, 0xd06016f7, 0x4969474d, 0x3e6e77db, 0xaed16a4a, 0xd9d65adc,
      0x40df0b66, 0x37d83bf0, 0xa9bcae53, 0xdebb9ec5, 0x47b2cf7f, 0x30b5ffe9,
      0xbdbdf21c, 0xcabac28a, 0x53b39330, 0x24b4a3a6, 0xbad03605, 0xcdd70693,
      0x54de5729, 0x23d967bf, 0xb3667a2e, 0xc4614ab8, 0x5d681b02, 0x2a6f2b94,
      0xb40bbe37, 0xc30c8ea1, 0x5a05df1b, 0x2d02ef8d]"

definition crc32_update :: "u32 \<Rightarrow> u8 \<Rightarrow> u32" where
  "crc32_update crc b =
     crc32_table ! unat ((crc XOR ucast b) AND 0xFF) XOR drop_bit 8 crc"

definition crc32 :: "bytes \<Rightarrow> u32" where
  "crc32 data = foldl crc32_update 0xFFFFFFFF data XOR 0xFFFFFFFF"

section \<open>The bit-by-bit reference\<close>

definition crc_bit :: "u32 \<Rightarrow> u32" where
  "crc_bit c = (if bit c 0 then drop_bit 1 c XOR 0xEDB88320 else drop_bit 1 c)"

definition crc_byte :: "u32 \<Rightarrow> u32" where
  "crc_byte c = (crc_bit ^^ 8) c"

definition crc32_ref :: "bytes \<Rightarrow> u32" where
  "crc32_ref data = foldl (\<lambda>c b. crc_byte (c XOR ucast b)) 0xFFFFFFFF data XOR 0xFFFFFFFF"

section \<open>The reference is linear and injective\<close>

lemma word_xor_eq_0_iff: "(x :: 'a::len word) XOR y = 0 \<longleftrightarrow> x = y"
  by (auto simp: bit_eq_iff bit_xor_iff)

lemma word_xor_right_cancel: "(x :: 'a::len word) XOR z = y XOR z \<longleftrightarrow> x = y"
  by (auto simp: bit_eq_iff bit_xor_iff)

lemma word_xor_left_cancel: "(z :: 'a::len word) XOR x = z XOR y \<longleftrightarrow> x = y"
  by (auto simp: bit_eq_iff bit_xor_iff)

lemma crc_bit_xor: "crc_bit (x XOR y) = crc_bit x XOR crc_bit y"
  by (simp add: crc_bit_def bit_xor_iff drop_bit_xor xor.assoc xor.left_commute xor.commute)

lemma crc_bits_xor: "(crc_bit ^^ k) (x XOR y) = (crc_bit ^^ k) x XOR (crc_bit ^^ k) y"
  by (induction k) (simp_all add: crc_bit_xor)

lemma crc_bit_0_iff: "crc_bit z = 0 \<longleftrightarrow> z = 0"
proof
  assume z: "crc_bit z = 0"
  have nb: "\<not> bit z 0"
  proof
    assume "bit z 0"
    with z have "drop_bit 1 z = (0xEDB88320 :: u32)"
      by (simp add: crc_bit_def word_xor_eq_0_iff)
    then have "bit (drop_bit 1 z) 31"
      by simp
    then show False
      by (auto simp: bit_drop_bit_eq dest: bit_imp_le_length)
  qed
  with z have "drop_bit 1 z = 0"
    by (simp add: crc_bit_def)
  then have "\<not> bit (drop_bit 1 z) n" for n
    by simp
  then have "\<not> bit z (Suc n)" for n
    by (simp add: bit_drop_bit_eq)
  with nb have "\<not> bit z n" for n
    by (cases n) simp_all
  then show "z = 0"
    by (simp add: bit_eq_iff)
qed (simp add: crc_bit_def)

lemma crc_bits_0_iff: "(crc_bit ^^ k) z = 0 \<longleftrightarrow> z = 0"
  by (induction k) (simp_all add: crc_bit_0_iff)

lemma crc_bits_inject: "(crc_bit ^^ k) x = (crc_bit ^^ k) y \<longleftrightarrow> x = y"
  using crc_bits_xor [of k x y] crc_bits_0_iff [of k "x XOR y"]
  by (simp add: word_xor_eq_0_iff)

lemma crc_bit_inject: "crc_bit x = crc_bit y \<longleftrightarrow> x = y"
  using crc_bits_inject [of 1] by simp

lemma crc_byte_inject: "crc_byte x = crc_byte y \<longleftrightarrow> x = y"
  by (simp add: crc_byte_def crc_bits_inject)

lemma crc_byte_xor: "crc_byte (x XOR y) = crc_byte x XOR crc_byte y"
  by (simp add: crc_byte_def crc_bits_xor)

text \<open>Zero bits at the bottom are shifted out.\<close>

lemma crc_bits_low_zero:
  assumes "\<And>i. i < k \<Longrightarrow> \<not> bit x i"
  shows "(crc_bit ^^ k) x = drop_bit k x"
  using assms
proof (induction k)
  case 0
  then show ?case by simp
next
  case (Suc k)
  then have "(crc_bit ^^ k) x = drop_bit k x" and "\<not> bit (drop_bit k x) 0"
    by (simp_all add: bit_drop_bit_eq)
  then show ?case
    by (simp add: crc_bit_def [of "drop_bit k x"])
qed

section \<open>The table holds the reference values\<close>

text \<open>
  Shifting an index left by one bit undoes one step of the reference, and the odd entries
  differ from the even ones by the first entry. Both are checked on the 256 entries; with
  injectivity they determine the table.
\<close>

fun evens :: "'a list \<Rightarrow> 'a list" where
  "evens (x # y # zs) = x # evens zs"
| "evens zs = zs"

fun odds :: "'a list \<Rightarrow> 'a list" where
  "odds (x # y # zs) = y # odds zs"
| "odds zs = []"

lemma evens_nth: "2 * k < length xs \<Longrightarrow> evens xs ! k = xs ! (2 * k)"
proof (induction xs arbitrary: k rule: evens.induct)
  case (1 x y zs)
  then show ?case by (cases k) auto
qed auto

lemma odds_nth: "2 * k + 1 < length xs \<Longrightarrow> odds xs ! k = xs ! (2 * k + 1)"
proof (induction xs arbitrary: k rule: odds.induct)
  case (1 x y zs)
  then show ?case by (cases k) auto
qed auto

lemma crc_bit_numeral:
  "crc_bit 0 = 0" "crc_bit 1 = 0xEDB88320"
  "crc_bit (numeral (Num.Bit0 k)) = drop_bit 1 (numeral (Num.Bit0 k))"
  "crc_bit (numeral (Num.Bit1 k)) = drop_bit 1 (numeral (Num.Bit1 k)) XOR 0xEDB88320"
  by (simp_all add: crc_bit_def)

lemma crc32_table_evens: "map crc_bit (evens crc32_table) = take 128 crc32_table"
  by (simp add: crc_bit_numeral crc32_table_def)

lemma crc32_table_odds: "odds crc32_table = map (\<lambda>x. x XOR 0x77073096) (evens crc32_table)"
  by (simp add: crc32_table_def)

lemma length_crc32_table: "length crc32_table = 256"
  by (simp add: crc32_table_def)

lemma crc_byte_unfold:
  "crc_byte c = crc_bit (crc_bit (crc_bit (crc_bit (crc_bit (crc_bit (crc_bit (crc_bit c)))))))"
  by (simp add: crc_byte_def eval_nat_numeral)

lemma crc_byte_0_1: "crc32_table ! 0 = crc_byte 0" "crc_byte 1 = 0x77073096"
  by (simp_all add: crc_byte_unfold crc_bit_def crc32_table_def)

lemma length_evens: "even (length xs) \<Longrightarrow> 2 * length (evens xs) = length xs"
  by (induction xs rule: evens.induct) auto

lemma crc_byte_double:
  assumes "k < 128"
  shows "crc_bit (crc_byte (of_nat (2 * k))) = crc_byte (of_nat k)"
proof -
  have "drop_bit 1 (of_nat (2 * k) :: u32) = of_nat k"
    using assms
    by (simp add: word_unat_eq_iff unat_div unat_of_nat drop_bit_eq_div take_bit_nat_eq_self
        del: of_nat_mult)
  then have "crc_bit (of_nat (2 * k)) = of_nat k"
    by (simp add: crc_bit_def bit_0)
  then show ?thesis
    by (simp add: crc_byte_def funpow_swap1)
qed

lemma crc32_table_nth: "n < 256 \<Longrightarrow> crc32_table ! n = crc_byte (of_nat n)"
proof (induction n rule: less_induct)
  case (less n)
  have ev: "crc32_table ! (2 * k) = crc_byte (of_nat (2 * k))" if k: "k < 128" "2 * k \<le> n" for k
  proof (cases "k = 0")
    case True
    then show ?thesis using crc_byte_0_1(1) by simp
  next
    case False
    have "crc_bit (crc32_table ! (2 * k)) = map crc_bit (evens crc32_table) ! k"
      using k length_evens [of crc32_table] by (simp add: evens_nth length_crc32_table)
    also have "\<dots> = crc32_table ! k"
      using k by (simp add: crc32_table_evens)
    also have "\<dots> = crc_byte (of_nat k)"
      using less.IH [of k] k False by simp
    also have "\<dots> = crc_bit (crc_byte (of_nat (2 * k)))"
      using k by (simp only: crc_byte_double)
    finally show ?thesis
      by (simp only: crc_bit_inject)
  qed
  show ?case
  proof (cases "even n")
    case True
    then obtain k where "n = 2 * k" ..
    with ev [of k] less.prems show ?thesis by simp
  next
    case False
    then obtain k where n: "n = 2 * k + 1" by (rule oddE)
    have k: "k < 128" using n less.prems by simp
    have "crc32_table ! n = odds crc32_table ! k"
      using n k by (simp add: odds_nth length_crc32_table)
    also have "\<dots> = crc32_table ! (2 * k) XOR 0x77073096"
      using k length_evens [of crc32_table]
      by (simp add: crc32_table_odds evens_nth length_crc32_table)
    also have "\<dots> = crc_byte (of_nat (2 * k) XOR 1)"
      using k n by (simp only: ev crc_byte_xor crc_byte_0_1)
    also have "(of_nat (2 * k) XOR 1 :: u32) = of_nat n"
      by (simp add: n xor_one_eq add.commute)
    finally show ?thesis .
  qed
qed

section \<open>The loop computes the reference\<close>

lemma crc32_update_byte: "crc32_update c b = crc_byte (c XOR ucast b)"
proof -
  define m :: u32 where "m = 0xFF"
  let ?x = "c XOR ucast b :: u32"
  let ?lo = "?x AND m" and ?hi = "?x AND NOT m"
  have mask: "bit m i \<longleftrightarrow> i < 8" for i
  proof -
    have "m = mask 8"
      by (simp add: m_def mask_eq_exp_minus_1)
    then show ?thesis
      by (simp only: bit_mask_iff) auto
  qed
  have "?lo \<le> m"
    by (rule word_and_le1)
  then have "unat ?lo < 256"
    by (simp add: word_le_nat_alt m_def)
  then have lo: "crc32_table ! unat ?lo = crc_byte ?lo"
    by (simp add: crc32_table_nth)
  have "crc_byte ?hi = drop_bit 8 ?hi"
    unfolding crc_byte_def by (rule crc_bits_low_zero) (simp add: bit_and_iff bit_not_iff mask)
  also have "\<dots> = drop_bit 8 c"
    by (rule bit_word_eqI)
      (auto simp: bit_drop_bit_eq bit_and_iff bit_xor_iff bit_not_iff mask bit_unsigned_iff
        dest: bit_imp_le_length)
  finally have hi: "drop_bit 8 c = crc_byte ?hi" ..
  have "?lo XOR ?hi = ?x"
    by (rule bit_word_eqI) (auto simp: bit_xor_iff bit_and_iff bit_not_iff)
  then have "crc_byte ?lo XOR crc_byte ?hi = crc_byte ?x"
    by (simp only: flip: crc_byte_xor)
  then show ?thesis
    by (simp only: crc32_update_def lo hi flip: m_def)
qed

lemma crc32_update_eq: "crc32_update = (\<lambda>c b. crc_byte (c XOR ucast b))"
  by (intro ext) (rule crc32_update_byte)

text \<open>C22: The table-driven checksum of the write-ahead log is the bit-by-bit CRC-32 of the
  reflected polynomial \<open>0xEDB88320\<close>, on every input.\<close>

theorem crc32_is_reference: "crc32 data = crc32_ref data"
  by (simp add: crc32_def crc32_ref_def crc32_update_eq)

section \<open>Error detection\<close>

lemma crc_byte_shift:
  assumes "\<And>i. 24 \<le> i \<Longrightarrow> \<not> bit y i"
  shows "crc_byte (push_bit 8 y) = y"
proof -
  have "crc_byte (push_bit 8 y) = drop_bit 8 (push_bit 8 y)"
    unfolding crc_byte_def by (rule crc_bits_low_zero) (simp add: bit_push_bit_iff)
  also have "\<dots> = y"
  proof (rule bit_word_eqI)
    fix n
    assume "n < LENGTH(32)"
    show "bit (drop_bit 8 (push_bit 8 y)) n = bit y n"
      using assms [of n] by (cases "24 \<le> n") (auto simp: bit_drop_bit_eq bit_push_bit_iff)
  qed
  finally show ?thesis .
qed

text \<open>Up to four bytes enter the register like one little endian word.\<close>

lemma crc_run_short:
  "length d \<le> 4 \<Longrightarrow> foldl crc32_update c d = (crc_bit ^^ (8 * length d)) (c XOR of_le d)"
proof (induction d arbitrary: c)
  case Nil
  then show ?case by simp
next
  case (Cons b d)
  let ?y = "of_le d :: u32"
  have "\<not> bit ?y i" if "24 \<le> i" for i
    using Cons.prems that by (auto simp: bit_of_le)
  then have y: "crc_byte (push_bit 8 ?y) = ?y"
    by (rule crc_byte_shift)
  have bd: "of_le (b # d) = (ucast b XOR push_bit 8 ?y :: u32)"
    by (rule bit_word_eqI)
      (auto simp: bit_or_iff bit_xor_iff bit_push_bit_iff bit_unsigned_iff dest: bit_imp_le_length)
  have first: "crc_byte (c XOR ucast b) XOR ?y = crc_byte (c XOR of_le (b # d))"
    by (simp only: bd crc_byte_xor y xor.assoc)
  have more: "8 * length (b # d) = 8 * length d + 8"
    by simp
  have "foldl crc32_update (crc_byte (c XOR ucast b)) d =
      (crc_bit ^^ (8 * length d)) (crc_byte (c XOR ucast b) XOR ?y)"
    using Cons by simp
  also have "\<dots> = (crc_bit ^^ (8 * length (b # d))) (c XOR of_le (b # d))"
    unfolding first more funpow_add comp_apply by (simp only: crc_byte_def)
  finally show ?case
    by (simp add: crc32_update_byte [of c b])
qed

lemma crc_run_inject: "foldl crc32_update c s = foldl crc32_update c' s \<longleftrightarrow> c = c'"
proof (induction s arbitrary: c c')
  case Nil
  then show ?case by simp
next
  case (Cons b s)
  have "foldl crc32_update c (b # s) = foldl crc32_update c' (b # s) \<longleftrightarrow>
      c XOR ucast b = c' XOR ucast b"
    by (simp only: foldl.simps Cons.IH crc32_update_byte crc_byte_inject)
  then show ?case
    by (simp only: word_xor_right_cancel)
qed

lemma of_le_inject32:
  assumes "length d = length d'" and "length d \<le> 4" and "(of_le d :: u32) = of_le d'"
  shows "d = d'"
proof -
  have "to_le (length d) (of_le d :: u32) = d" and "to_le (length d) (of_le d' :: u32) = d'"
    using assms(1,2) by (simp_all add: to_le_of_le)
  with assms(3) show ?thesis by metis
qed

lemma crc32_burst:
  assumes "length d = length d'" and "length d \<le> 4" and "d \<noteq> d'"
  shows "crc32 (p @ d @ s) \<noteq> crc32 (p @ d' @ s)"
proof
  assume eq: "crc32 (p @ d @ s) = crc32 (p @ d' @ s)"
  let ?c = "foldl crc32_update 0xFFFFFFFF p"
  from eq have "foldl crc32_update (foldl crc32_update ?c d) s = foldl crc32_update (foldl crc32_update ?c d') s"
    by (simp only: crc32_def foldl_append word_xor_right_cancel)
  then have "foldl crc32_update ?c d = foldl crc32_update ?c d'"
    by (simp add: crc_run_inject)
  then have "?c XOR of_le d = ?c XOR of_le d'"
    using assms by (simp add: crc_run_short crc_bits_inject)
  then have "(of_le d :: u32) = of_le d'"
    by (simp only: word_xor_left_cancel)
  with assms show False
    using of_le_inject32 by blast
qed

text \<open>Two messages of equal length that differ only inside a window of at most four
  consecutive bytes never have the same checksum, so the restore loop notices every
  corruption of a log record confined to such a window.\<close>

lemma crc32_detects_burst:
  assumes "length d = length d'" and "length d \<le> 4" and "d \<noteq> d'"
  shows "crc32 (p @ d @ s) \<noteq> crc32 (p @ d' @ s)"
  using assms by (rule crc32_burst)

text \<open>A flipped bit in the second byte of a four-byte record.\<close>

end
