(* ===== verification/Raft_Core.thy ===== *)
theory Raft_Core
  imports Prelude
begin

text \<open>
  The Raft node: the structures of \<^verbatim>\<open>include/cluster/raft.h\<close> and every function of
  \<^verbatim>\<open>src/cluster/raft_core.c\<close>, as state passing over the record \<open>RaftNode\<close>.

  \<^item> The dynamic arrays \<^verbatim>\<open>log\<close> and \<^verbatim>\<open>peers\<close> are lists (\<^verbatim>\<open>log_count\<close> and \<^verbatim>\<open>peer_count\<close> are
    their lengths) beside the allocated capacity; \<^verbatim>\<open>data_len\<close> is the length of \<open>le_data\<close>.
  \<^item> \<^verbatim>\<open>get_monotonic_time_ms()\<close> and \<^verbatim>\<open>rand()\<close> are arguments \<open>now\<close> and \<open>rnd\<close> of the operations
    that call them; an operation that reads the clock twice takes two times.
  \<^item> The callbacks \<^verbatim>\<open>apply\<close>, \<^verbatim>\<open>persist\<close> and \<^verbatim>\<open>send_rpc\<close> are functions on the world \<open>'w\<close> behind
    them, or \<open>None\<close> for a NULL pointer. \<^verbatim>\<open>send_rpc\<close> may run a response handler before it returns,
    so it acts on the node too. No callback of the program changes the number of peers.
  \<^item> Logging is left out.
\<close>

section \<open>Data\<close>

datatype RaftState = RAFT_STATE_FOLLOWER | RAFT_STATE_CANDIDATE | RAFT_STATE_LEADER

record RaftLogEntry =
  le_term :: u64
  le_index :: u64
  le_data :: bytes
  le_entry_type :: u8

record RaftPeer =
  peer_node_id :: bytes
  peer_ip_address :: bytes
  peer_port :: u16
  next_index :: u64
  match_index :: u64
  last_contact_ms :: u64
  inflight_rpcs :: u32
  vote_granted :: bool

record RaftNode =
  node_id :: bytes
  current_term :: u64
  voted_for :: bytes
  log :: "RaftLogEntry list"
  log_capacity :: nat
  state :: RaftState
  commit_index :: u64
  last_applied :: u64
  peers :: "RaftPeer list"
  peer_capacity :: nat
  election_timeout_ms :: u64
  last_heartbeat_ms :: u64
  last_election_ms :: u64
  leader_id :: bytes
  votes_received :: u32
  last_snapshot_index :: u64
  last_snapshot_term :: u64
  snapshot_data :: bytes
  elections_started :: u64
  heartbeats_sent :: u64
  heartbeats_received :: u64

record RaftRequestVoteReq =
  rv_term :: u64
  rv_candidate_id :: bytes
  rv_last_log_index :: u64
  rv_last_log_term :: u64

record RaftRequestVoteResp =
  rvr_term :: u64
  rvr_vote_granted :: u8

record RaftAppendEntriesReq =
  ae_term :: u64
  ae_leader_id :: bytes
  ae_prev_log_index :: u64
  ae_prev_log_term :: u64
  ae_leader_commit :: u64
  ae_entry_count :: u32

record RaftAppendEntriesResp =
  aer_term :: u64
  aer_success :: u8
  aer_match_index :: u64

record RaftInstallSnapshotReq =
  is_term :: u64
  is_leader_id :: bytes
  is_last_included_index :: u64
  is_last_included_term :: u64
  is_data_len :: u32

record RaftInstallSnapshotResp =
  isr_term :: u64

text \<open>The requests the core hands to \<^verbatim>\<open>send_rpc\<close>.\<close>

datatype raft_request =
    RequestVote RaftRequestVoteReq
  | AppendEntries RaftAppendEntriesReq

record 'w callbacks =
  cb_apply :: "(bytes \<Rightarrow> 'w \<Rightarrow> 'w) option"
  cb_persist :: "(RaftNode \<Rightarrow> 'w \<Rightarrow> 'w) option"
  cb_send_rpc :: "(bytes \<Rightarrow> raft_request \<Rightarrow> RaftNode \<times> 'w \<Rightarrow> RaftNode \<times> 'w) option"

definition RAFT_ELECTION_TIMEOUT_MIN_MS :: u64 where "RAFT_ELECTION_TIMEOUT_MIN_MS = 150"
definition RAFT_ELECTION_TIMEOUT_MAX_MS :: u64 where "RAFT_ELECTION_TIMEOUT_MAX_MS = 300"
definition RAFT_HEARTBEAT_INTERVAL_MS :: u64 where "RAFT_HEARTBEAT_INTERVAL_MS = 50"

section \<open>Internal helpers\<close>

text \<open>\<^verbatim>\<open>rand()\<close> returns a non-negative \<^verbatim>\<open>int\<close>, so the remainder is taken on it as it is.\<close>

definition random_election_timeout :: "nat \<Rightarrow> u64" where
  "random_election_timeout rnd =
     RAFT_ELECTION_TIMEOUT_MIN_MS +
     of_nat (rnd mod unat (RAFT_ELECTION_TIMEOUT_MAX_MS - RAFT_ELECTION_TIMEOUT_MIN_MS))"

text \<open>The pointer \<^verbatim>\<open>find_peer\<close> returns is the position of the peer in the array.\<close>

fun find_peer_from :: "nat \<Rightarrow> RaftPeer list \<Rightarrow> bytes \<Rightarrow> nat option" where
  "find_peer_from i [] peer_id = None"
| "find_peer_from i (p # ps) peer_id =
     (if streq (peer_node_id p) peer_id then Some i else find_peer_from (Suc i) ps peer_id)"

definition find_peer :: "RaftNode \<Rightarrow> bytes \<Rightarrow> nat option" where
  "find_peer node peer_id = find_peer_from 0 (peers node) peer_id"

definition ensure_log_capacity :: "alloc \<Rightarrow> RaftNode \<Rightarrow> RaftNode" where
  "ensure_log_capacity al node =
     (if length (log node) \<ge> log_capacity node then
        let new_cap = (if log_capacity node \<noteq> 0 then log_capacity node * 2 else 16)
        in if realloc_ok al then node\<lparr>log_capacity := new_cap\<rparr> else node
      else node)"

definition last_log_index :: "RaftNode \<Rightarrow> u64" where
  "last_log_index node =
     (if log node = [] then last_snapshot_index node
      else le_index (log node ! (length (log node) - 1)))"

definition last_log_term :: "RaftNode \<Rightarrow> u64" where
  "last_log_term node =
     (if log node = [] then last_snapshot_term node
      else le_term (log node ! (length (log node) - 1)))"

text \<open>\<^verbatim>\<open>get_log_entry\<close> returns a pointer into the array; \<open>log_slot\<close> is that position.\<close>

definition log_slot :: "RaftNode \<Rightarrow> u64 \<Rightarrow> nat option" where
  "log_slot node index =
     (if index \<le> last_snapshot_index node then None
      else let array_idx = index - last_snapshot_index node - 1
           in if unat array_idx \<ge> length (log node) then None else Some (unat array_idx))"

definition get_log_entry :: "RaftNode \<Rightarrow> u64 \<Rightarrow> RaftLogEntry option" where
  "get_log_entry node index =
     (case log_slot node index of None \<Rightarrow> None | Some i \<Rightarrow> Some (log node ! i))"

definition term_at_index :: "RaftNode \<Rightarrow> u64 \<Rightarrow> u64" where
  "term_at_index node index =
     (if index = 0 then 0
      else if index = last_snapshot_index node then last_snapshot_term node
      else case get_log_entry node index of Some entry \<Rightarrow> le_term entry | None \<Rightarrow> 0)"

definition persist_state :: "'w callbacks \<Rightarrow> RaftNode \<Rightarrow> 'w \<Rightarrow> 'w" where
  "persist_state cb node w = (case cb_persist cb of None \<Rightarrow> w | Some persist \<Rightarrow> persist node w)"

section \<open>Public operations on peers and the log\<close>

definition raft_init :: "bool \<Rightarrow> nat \<Rightarrow> bytes \<Rightarrow> RaftNode option" where
  "raft_init calloc_ok rnd id_arg =
     (if \<not> calloc_ok then None
      else Some
        \<lparr>node_id = strncpy (zeros 37) id_arg 36,
         current_term = 0,
         voted_for = zeros 37,
         log = [],
         log_capacity = 0,
         state = RAFT_STATE_FOLLOWER,
         commit_index = 0,
         last_applied = 0,
         peers = [],
         peer_capacity = 0,
         election_timeout_ms = random_election_timeout rnd,
         last_heartbeat_ms = 0,
         last_election_ms = 0,
         leader_id = zeros 37,
         votes_received = 0,
         last_snapshot_index = 0,
         last_snapshot_term = 0,
         snapshot_data = [],
         elections_started = 0,
         heartbeats_sent = 0,
         heartbeats_received = 0\<rparr>)"

definition raft_add_peer :: "alloc \<Rightarrow> RaftNode \<Rightarrow> bytes \<Rightarrow> bytes \<Rightarrow> u16 \<Rightarrow> int \<times> RaftNode" where
  "raft_add_peer al node peer_id ip port =
     (if find_peer node peer_id \<noteq> None then (-1, node)
      else
        let full = length (peers node) \<ge> peer_capacity node;
            new_cap = (if peer_capacity node \<noteq> 0 then peer_capacity node * 2 else 8)
        in if full \<and> \<not> realloc_ok al then (-1, node)
           else
             let node = (if full then node\<lparr>peer_capacity := new_cap\<rparr> else node);
                 peer = \<lparr>peer_node_id = strncpy (zeros 37) peer_id 36,
                         peer_ip_address = strncpy (zeros 46) ip 45,
                         peer_port = port,
                         next_index = 0, match_index = 0, last_contact_ms = 0,
                         inflight_rpcs = 0, vote_granted = False\<rparr>
             in (0, node\<lparr>peers := peers node @ [peer]\<rparr>))"

definition raft_remove_peer :: "RaftNode \<Rightarrow> bytes \<Rightarrow> int \<times> RaftNode" where
  "raft_remove_peer node peer_id =
     (case find_peer node peer_id of
        None \<Rightarrow> (-1, node)
      | Some i \<Rightarrow> (0, node\<lparr>peers := take i (peers node) @ drop (i + 1) (peers node)\<rparr>))"

definition raft_start :: "u64 \<Rightarrow> RaftNode \<Rightarrow> int \<times> RaftNode" where
  "raft_start now node = (0, node\<lparr>last_heartbeat_ms := now\<rparr>)"

text \<open>
  \<^verbatim>\<open>raft_submit\<close> takes the slot before it allocates the payload and gives it back when
  that fails, so the log is unchanged on both error paths.
\<close>

definition raft_submit ::
  "'w callbacks \<Rightarrow> alloc \<Rightarrow> bytes \<Rightarrow> RaftNode \<times> 'w \<Rightarrow> int \<times> RaftNode \<times> 'w" where
  "raft_submit cb al data = (\<lambda>(node, w).
     if state node \<noteq> RAFT_STATE_LEADER then (-1, node, w)
     else
       let node = ensure_log_capacity al node
       in if length (log node) \<ge> log_capacity node then (-2, node, w)
          else
            let new_index = last_log_index node + 1
            in if \<not> malloc_ok al then (-2, node, w)
               else
                 let entry = \<lparr>le_term = current_term node, le_index = new_index,
                              le_data = data, le_entry_type = 0\<rparr>;
                     node = node\<lparr>log := log node @ [entry]\<rparr>
                 in (0, node, persist_state cb node w))"

section \<open>State transitions\<close>

definition become_follower :: "'w callbacks \<Rightarrow> u64 \<Rightarrow> RaftNode \<times> 'w \<Rightarrow> RaftNode \<times> 'w" where
  "become_follower cb term = (\<lambda>(node, w).
     let node = node\<lparr>state := RAFT_STATE_FOLLOWER,
                     current_term := term,
                     voted_for := zeros 37,
                     leader_id := zeros 37,
                     votes_received := 0\<rparr>
     in (node, persist_state cb node w))"

definition send_rpc :: "'w callbacks \<Rightarrow> bytes \<Rightarrow> raft_request \<Rightarrow> RaftNode \<times> 'w \<Rightarrow> RaftNode \<times> 'w" where
  "send_rpc cb peer_id req s =
     (case cb_send_rpc cb of None \<Rightarrow> s | Some send \<Rightarrow> send peer_id req s)"

text \<open>
  One pass of the loop of \<^verbatim>\<open>become_candidate\<close>: the peer is read from the node as the
  earlier calls of \<^verbatim>\<open>send_rpc\<close> left it, the request is the one built before the loop.
\<close>

definition request_vote_from ::
  "'w callbacks \<Rightarrow> RaftRequestVoteReq \<Rightarrow> nat \<Rightarrow> RaftNode \<times> 'w \<Rightarrow> RaftNode \<times> 'w" where
  "request_vote_from cb req i = (\<lambda>(node, w).
     if i < length (peers node)
     then send_rpc cb (peer_node_id (peers node ! i)) (RequestVote req) (node, w)
     else (node, w))"

definition candidate_request :: "RaftNode \<Rightarrow> RaftRequestVoteReq" where
  "candidate_request node =
     \<lparr>rv_term = current_term node,
      rv_candidate_id = strncpy (zeros 37) (node_id node) 36,
      rv_last_log_index = last_log_index node,
      rv_last_log_term = last_log_term node\<rparr>"

definition start_candidacy :: "u64 \<Rightarrow> nat \<Rightarrow> RaftNode \<Rightarrow> RaftNode" where
  "start_candidacy now rnd node =
     node\<lparr>state := RAFT_STATE_CANDIDATE,
          current_term := current_term node + 1,
          voted_for := strncpy (voted_for node) (node_id node) 36,
          votes_received := 1,
          last_election_ms := now,
          election_timeout_ms := random_election_timeout rnd,
          elections_started := elections_started node + 1,
          leader_id := zeros 37,
          peers := map (\<lambda>p. p\<lparr>vote_granted := False\<rparr>) (peers node)\<rparr>"

definition become_candidate ::
  "'w callbacks \<Rightarrow> u64 \<Rightarrow> nat \<Rightarrow> RaftNode \<times> 'w \<Rightarrow> RaftNode \<times> 'w" where
  "become_candidate cb now rnd = (\<lambda>(node, w).
     let node = start_candidacy now rnd node;
         w = persist_state cb node w;
         req = candidate_request node
     in fold (request_vote_from cb req) [0..<length (peers node)] (node, w))"

definition become_leader :: "'w callbacks \<Rightarrow> alloc \<Rightarrow> RaftNode \<times> 'w \<Rightarrow> RaftNode \<times> 'w" where
  "become_leader cb al = (\<lambda>(node, w).
     let next_idx = last_log_index node + 1;
         node = node\<lparr>state := RAFT_STATE_LEADER,
                     leader_id := strncpy (leader_id node) (node_id node) 36,
                     peers := map (\<lambda>p. p\<lparr>next_index := next_idx, match_index := 0,
                                         inflight_rpcs := 0\<rparr>) (peers node)\<rparr>;
         (_, node, w) = raft_submit cb al [0] (node, w)
     in (node\<lparr>last_heartbeat_ms := 0\<rparr>, w))"

section \<open>The periodic tick\<close>

function apply_committed_entries :: "'w callbacks \<Rightarrow> RaftNode \<times> 'w \<Rightarrow> RaftNode \<times> 'w" where
  "apply_committed_entries cb (node, w) =
     (if last_applied node < commit_index node then
        let node = node\<lparr>last_applied := last_applied node + 1\<rparr>
        in (case get_log_entry node (last_applied node) of
              None \<Rightarrow> (node, w)
            | Some entry \<Rightarrow>
                apply_committed_entries cb
                  (node, case cb_apply cb of None \<Rightarrow> w | Some f \<Rightarrow> f (le_data entry) w))
      else (node, w))"
  by pat_completeness auto

termination
proof (relation "measure (\<lambda>(cb, node, w). unat (commit_index node) - unat (last_applied node))")
  show "wf (measure (\<lambda>(cb, node, w). unat (commit_index node) - unat (last_applied node)))"
    by simp
next
  fix cb :: "'w callbacks" and node node' :: RaftNode and w and entry
  assume lt: "last_applied node < commit_index node"
    and n': "node' = node\<lparr>last_applied := last_applied node + 1\<rparr>"
  have "unat (last_applied node + 1) = unat (last_applied node) + 1"
    using lt by (rule unat_plus_one_less)
  with lt show "((cb, node', case cb_apply cb of None \<Rightarrow> w | Some f \<Rightarrow> f (le_data entry) w), cb, node, w)
      \<in> measure (\<lambda>(cb, node, w). unat (commit_index node) - unat (last_applied node))"
    by (simp add: n' word_less_nat_alt)
qed

declare apply_committed_entries.simps [simp del]

definition heartbeat_request :: "RaftNode \<Rightarrow> RaftPeer \<Rightarrow> RaftAppendEntriesReq" where
  "heartbeat_request node peer =
     \<lparr>ae_term = current_term node,
      ae_leader_id = strncpy (zeros 37) (node_id node) 36,
      ae_prev_log_index = next_index peer - 1,
      ae_prev_log_term = term_at_index node (next_index peer - 1),
      ae_leader_commit = commit_index node,
      ae_entry_count = 0\<rparr>"

text \<open>One pass of the heartbeat loop; the request is built from the node as it is by then.\<close>

definition send_heartbeat :: "'w callbacks \<Rightarrow> nat \<Rightarrow> RaftNode \<times> 'w \<Rightarrow> RaftNode \<times> 'w" where
  "send_heartbeat cb i = (\<lambda>(node, w).
     if i < length (peers node)
     then let peer = peers node ! i
          in send_rpc cb (peer_node_id peer) (AppendEntries (heartbeat_request node peer)) (node, w)
     else (node, w))"

definition send_heartbeats :: "'w callbacks \<Rightarrow> u64 \<Rightarrow> RaftNode \<times> 'w \<Rightarrow> RaftNode \<times> 'w" where
  "send_heartbeats cb now = (\<lambda>(node, w).
     if now - last_heartbeat_ms node \<ge> RAFT_HEARTBEAT_INTERVAL_MS
     then let node = node\<lparr>last_heartbeat_ms := now, heartbeats_sent := heartbeats_sent node + 1\<rparr>
          in fold (send_heartbeat cb) [0..<length (peers node)] (node, w)
     else (node, w))"

text \<open>\<^verbatim>\<open>replicas\<close> counts the node itself and is a \<^verbatim>\<open>uint32_t\<close>.\<close>

definition replicas :: "RaftNode \<Rightarrow> u64 \<Rightarrow> u32" where
  "replicas node n = 1 + of_nat (length (filter (\<lambda>p. match_index p \<ge> n) (peers node)))"

definition commit_step :: "u64 \<Rightarrow> RaftNode \<Rightarrow> RaftNode" where
  "commit_step n node =
     (if term_at_index node n \<noteq> current_term node then node
      else if unat (replicas node n) > (length (peers node) + 1) div 2
      then node\<lparr>commit_index := n\<rparr> else node)"

text \<open>
  The commit loop counts in \<^verbatim>\<open>uint64_t\<close>; with a last index of \<^verbatim>\<open>UINT64_MAX\<close> it would not
  end, so it is a partial function, \<open>None\<close> where it does not return.
\<close>

partial_function (option) commit_loop :: "u64 \<Rightarrow> RaftNode \<Rightarrow> RaftNode option" where
  "commit_loop n node =
     (if n \<le> last_log_index node then commit_loop (n + 1) (commit_step n node) else Some node)"

definition leader_tick :: "'w callbacks \<Rightarrow> u64 \<Rightarrow> RaftNode \<times> 'w \<Rightarrow> (RaftNode \<times> 'w) option" where
  "leader_tick cb now s =
     (let (node, w) = send_heartbeats cb now s
      in map_option (\<lambda>node. (node, w)) (commit_loop (commit_index node + 1) node))"

definition follower_candidate_tick ::
  "'w callbacks \<Rightarrow> u64 \<Rightarrow> u64 \<Rightarrow> nat \<Rightarrow> RaftNode \<times> 'w \<Rightarrow> RaftNode \<times> 'w" where
  "follower_candidate_tick cb now now' rnd = (\<lambda>(node, w).
     if now - last_heartbeat_ms node \<ge> election_timeout_ms node
     then become_candidate cb now' rnd (node, w)
     else (node, w))"

definition raft_tick ::
  "'w callbacks \<Rightarrow> u64 \<Rightarrow> u64 \<Rightarrow> nat \<Rightarrow> RaftNode \<times> 'w \<Rightarrow> (RaftNode \<times> 'w) option" where
  "raft_tick cb now now' rnd s =
     map_option (apply_committed_entries cb)
       (if state (fst s) = RAFT_STATE_LEADER then leader_tick cb now s
        else Some (follower_candidate_tick cb now now' rnd s))"

section \<open>RPC handlers\<close>

definition log_up_to_date :: "RaftNode \<Rightarrow> RaftRequestVoteReq \<Rightarrow> bool" where
  "log_up_to_date node req \<longleftrightarrow>
     rv_last_log_term req > last_log_term node \<or>
     (rv_last_log_term req = last_log_term node \<and> rv_last_log_index req \<ge> last_log_index node)"

definition raft_handle_request_vote ::
  "'w callbacks \<Rightarrow> u64 \<Rightarrow> RaftRequestVoteReq \<Rightarrow> RaftNode \<times> 'w \<Rightarrow> RaftRequestVoteResp \<times> RaftNode \<times> 'w" where
  "raft_handle_request_vote cb now req = (\<lambda>(node, w).
     let resp = \<lparr>rvr_term = current_term node, rvr_vote_granted = 0\<rparr>;
         (node, w) = (if rv_term req > current_term node
                      then become_follower cb (rv_term req) (node, w) else (node, w))
     in if rv_term req < current_term node then (resp, node, w)
        else
          let already_voted = (strlen (voted_for node) > 0 \<and>
                               \<not> streq (voted_for node) (rv_candidate_id req))
          in if already_voted then (resp, node, w)
             else if \<not> log_up_to_date node req then (resp, node, w)
             else
               let node = node\<lparr>voted_for := strncpy (voted_for node) (rv_candidate_id req) 36\<rparr>;
                   w = persist_state cb node w
               in (resp\<lparr>rvr_vote_granted := 1\<rparr>, node\<lparr>last_heartbeat_ms := now\<rparr>, w))"

text \<open>
  The loop of \<^verbatim>\<open>raft_handle_append_entries\<close>. \<^verbatim>\<open>entries\<close> is a pointer: \<open>None\<close> for NULL,
  otherwise the array it points to. The capacity is not checked after
  \<^verbatim>\<open>ensure_log_capacity\<close> and the result of \<^verbatim>\<open>malloc\<close> is not checked before \<^verbatim>\<open>memcpy\<close>.
\<close>

definition truncate_conflict :: "RaftLogEntry \<Rightarrow> RaftNode \<Rightarrow> RaftNode" where
  "truncate_conflict new_entry node =
     (case get_log_entry node (le_index new_entry) of
        None \<Rightarrow> node
      | Some existing \<Rightarrow>
          if le_term existing \<noteq> le_term new_entry
          then let del_from = le_index new_entry - last_snapshot_index node - 1
               in node\<lparr>log := take (unat del_from) (log node)\<rparr>
          else node)"

definition append_entry :: "alloc \<Rightarrow> RaftLogEntry \<Rightarrow> RaftNode \<Rightarrow> fault + RaftNode" where
  "append_entry al new_entry node =
     (let node = truncate_conflict new_entry node
      in if get_log_entry node (le_index new_entry) \<noteq> None then Inr node
         else
           let node = ensure_log_capacity al node
           in if length (log node) \<ge> log_capacity node then Inl OutOfBounds
              else if \<not> malloc_ok al then Inl NullDeref
              else Inr (node\<lparr>log := log node @
                              [\<lparr>le_term = le_term new_entry, le_index = le_index new_entry,
                                le_data = le_data new_entry,
                                le_entry_type = le_entry_type new_entry\<rparr>]\<rparr>))"

fun append_loop ::
  "(nat \<Rightarrow> alloc) \<Rightarrow> RaftLogEntry list option \<Rightarrow> nat \<Rightarrow> nat \<Rightarrow> RaftNode \<Rightarrow> fault + RaftNode" where
  "append_loop al entries i 0 node = Inr node"
| "append_loop al entries i (Suc left) node =
     (case entries of
        None \<Rightarrow> Inl NullDeref
      | Some es \<Rightarrow>
          if i \<ge> length es then Inl OutOfBounds
          else (case append_entry (al i) (es ! i) node of
                  Inl f \<Rightarrow> Inl f
                | Inr node \<Rightarrow> append_loop al entries (Suc i) left node))"

definition update_commit_index :: "u64 \<Rightarrow> RaftNode \<Rightarrow> RaftNode" where
  "update_commit_index leader_commit node =
     (if leader_commit > commit_index node
      then let new_commit = (if last_log_index node < leader_commit then last_log_index node
                             else leader_commit)
           in node\<lparr>commit_index := new_commit\<rparr>
      else node)"

definition raft_handle_append_entries ::
  "'w callbacks \<Rightarrow> (nat \<Rightarrow> alloc) \<Rightarrow> u64 \<Rightarrow> RaftAppendEntriesReq \<Rightarrow> RaftLogEntry list option \<Rightarrow> u32 \<Rightarrow>
     RaftNode \<times> 'w \<Rightarrow> fault + (RaftAppendEntriesResp \<times> RaftNode \<times> 'w)" where
  "raft_handle_append_entries cb al now req entries entry_count = (\<lambda>(node, w).
     let resp = \<lparr>aer_term = current_term node, aer_success = 0, aer_match_index = 0\<rparr>;
         (node, w) = (if ae_term req > current_term node
                      then become_follower cb (ae_term req) (node, w) else (node, w))
     in if ae_term req < current_term node then Inr (resp, node, w)
        else
          let node = node\<lparr>last_heartbeat_ms := now,
                          heartbeats_received := heartbeats_received node + 1,
                          leader_id := strncpy (leader_id node) (ae_leader_id req) 36\<rparr>;
              (node, w) = (if state node \<noteq> RAFT_STATE_FOLLOWER
                           then become_follower cb (ae_term req) (node, w) else (node, w))
          in if ae_prev_log_index req > 0 \<and>
                term_at_index node (ae_prev_log_index req) \<noteq> ae_prev_log_term req
             then Inr (resp\<lparr>aer_match_index := last_snapshot_index node\<rparr>, node, w)
             else
               (case append_loop al entries 0 (unat entry_count) node of
                  Inl f \<Rightarrow> Inl f
                | Inr node \<Rightarrow>
                    let w = persist_state cb node w;
                        node = update_commit_index (ae_leader_commit req) node
                    in Inr (resp\<lparr>aer_success := 1, aer_match_index := last_log_index node\<rparr>,
                            node, w)))"

definition raft_handle_request_vote_response ::
  "'w callbacks \<Rightarrow> alloc \<Rightarrow> bytes \<Rightarrow> RaftRequestVoteResp \<Rightarrow> RaftNode \<times> 'w \<Rightarrow> RaftNode \<times> 'w" where
  "raft_handle_request_vote_response cb al peer_id resp = (\<lambda>(node, w).
     if rvr_term resp > current_term node then become_follower cb (rvr_term resp) (node, w)
     else if state node \<noteq> RAFT_STATE_CANDIDATE \<or> rvr_term resp < current_term node then (node, w)
     else
       (case find_peer node peer_id of
          None \<Rightarrow> (node, w)
        | Some i \<Rightarrow>
            if rvr_vote_granted resp \<noteq> 0 \<and> \<not> vote_granted (peers node ! i)
            then
              let node = node\<lparr>peers := (peers node)[i := (peers node ! i)\<lparr>vote_granted := True\<rparr>],
                              votes_received := votes_received node + 1\<rparr>
              in if unat (votes_received node) > (length (peers node) + 1) div 2
                 then become_leader cb al (node, w)
                 else (node, w)
            else (node, w)))"

definition raft_handle_append_entries_response ::
  "'w callbacks \<Rightarrow> bytes \<Rightarrow> RaftAppendEntriesResp \<Rightarrow> RaftNode \<times> 'w \<Rightarrow> RaftNode \<times> 'w" where
  "raft_handle_append_entries_response cb peer_id resp = (\<lambda>(node, w).
     if aer_term resp > current_term node then become_follower cb (aer_term resp) (node, w)
     else if state node \<noteq> RAFT_STATE_LEADER \<or> aer_term resp < current_term node then (node, w)
     else
       (case find_peer node peer_id of
          None \<Rightarrow> (node, w)
        | Some i \<Rightarrow>
            let peer = peers node ! i;
                peer = (if aer_success resp \<noteq> 0
                        then peer\<lparr>match_index := aer_match_index resp,
                                  next_index := aer_match_index resp + 1\<rparr>
                        else if next_index peer > 1
                        then peer\<lparr>next_index := next_index peer - 1\<rparr>
                        else peer)
            in (node\<lparr>peers := (peers node)[i := peer]\<rparr>, w)))"

definition raft_handle_install_snapshot ::
  "RaftInstallSnapshotReq \<Rightarrow> bytes \<Rightarrow> RaftNode \<Rightarrow> RaftInstallSnapshotResp \<times> RaftNode" where
  "raft_handle_install_snapshot req snapshot node = (\<lparr>isr_term = current_term node\<rparr>, node)"

section \<open>Query API\<close>

definition raft_is_leader :: "RaftNode \<Rightarrow> bool" where
  "raft_is_leader node \<longleftrightarrow> state node = RAFT_STATE_LEADER"

definition raft_get_leader_id :: "RaftNode \<Rightarrow> bytes" where
  "raft_get_leader_id node = leader_id node"

definition raft_get_term :: "RaftNode \<Rightarrow> u64" where
  "raft_get_term node = current_term node"

definition raft_get_commit_index :: "RaftNode \<Rightarrow> u64" where
  "raft_get_commit_index node = commit_index node"

fun raft_state_string :: "RaftState \<Rightarrow> string" where
  "raft_state_string RAFT_STATE_FOLLOWER = ''FOLLOWER''"
| "raft_state_string RAFT_STATE_CANDIDATE = ''CANDIDATE''"
| "raft_state_string RAFT_STATE_LEADER = ''LEADER''"

end
