(* ===== verification/Raft_Log.thy ===== *)
theory Raft_Log
  imports Raft_Core
begin

text \<open>
  The replicated log of one node: the well-formedness invariant of \<open>RaftNode\<close>, how log
  positions and indices correspond, and the AppendEntries loop of
  \<^verbatim>\<open>raft_handle_append_entries\<close> against a reference merge of two logs.
\<close>

section \<open>Well-formed nodes\<close>

text \<open>
  The entries behind a snapshot at index \<open>base\<close> carry the indices \<open>base + 1, base + 2, \<dots>\<close>.
\<close>

definition contiguous :: "u64 \<Rightarrow> RaftLogEntry list \<Rightarrow> bool" where
  "contiguous base es \<longleftrightarrow> (\<forall>i < length es. unat (le_index (es ! i)) = unat base + 1 + i)"

definition wf_peer :: "RaftPeer \<Rightarrow> bool" where
  "wf_peer p \<longleftrightarrow> wf_cbuf 37 (peer_node_id p) \<and> wf_cbuf 46 (peer_ip_address p)"

definition wf_node :: "RaftNode \<Rightarrow> bool" where
  "wf_node node \<longleftrightarrow>
     wf_cbuf 37 (node_id node) \<and> wf_cbuf 37 (voted_for node) \<and> wf_cbuf 37 (leader_id node) \<and>
     length (log node) \<le> log_capacity node \<and>
     contiguous (last_snapshot_index node) (log node) \<and>
     length (peers node) \<le> peer_capacity node \<and>
     list_all wf_peer (peers node)"

lemma contiguous_Nil [simp]: "contiguous base []"
  by (simp add: contiguous_def)

lemma contiguous_take: "contiguous base es \<Longrightarrow> contiguous base (take k es)"
  by (simp add: contiguous_def)

lemma contiguous_append:
  "contiguous base (es @ [e]) \<longleftrightarrow>
     contiguous base es \<and> unat (le_index e) = unat base + 1 + length es"
  by (auto simp: contiguous_def nth_append less_Suc_eq)

lemma contiguous_bound:
  assumes "contiguous base es"
  shows "unat base + length es < 2 ^ 64"
proof (cases es rule: rev_cases)
  case Nil
  then show ?thesis
    using unsigned_less [of base, where ?'a = nat] by simp
next
  case (snoc xs x)
  then have "unat base + length es = unat (le_index x)"
    using assms by (simp add: contiguous_append)
  then show ?thesis
    using unsigned_less [of "le_index x", where ?'a = nat] by simp
qed

lemma contiguous_length: "contiguous base es \<Longrightarrow> k \<le> length es \<Longrightarrow> k < 2 ^ 64"
  by (rule le_less_trans [OF _ contiguous_bound]) (assumption | rule trans_le_add2)+

lemma wf_nodeD:
  assumes "wf_node node"
  shows "wf_cbuf 37 (node_id node)" "wf_cbuf 37 (voted_for node)" "wf_cbuf 37 (leader_id node)"
    "length (log node) \<le> log_capacity node" "contiguous (last_snapshot_index node) (log node)"
    "length (peers node) \<le> peer_capacity node" "list_all wf_peer (peers node)"
  using assms by (simp_all add: wf_node_def)

text \<open>Concrete nodes for the examples: a node of three entries and the log of its leader.\<close>

definition entry_of :: "u64 \<Rightarrow> u64 \<Rightarrow> RaftLogEntry" where
  "entry_of t i = \<lparr>le_term = t, le_index = i, le_data = [ucast t, ucast i], le_entry_type = 0\<rparr>"

definition sample_node :: "u64 \<Rightarrow> RaftLogEntry list \<Rightarrow> RaftNode" where
  "sample_node t es =
     (the (raft_init True 0 [110, 49]))\<lparr>current_term := t, log := es, log_capacity := 16\<rparr>"

definition no_callbacks :: "'w callbacks" where
  "no_callbacks = \<lparr>cb_apply = None, cb_persist = None, cb_send_rpc = None\<rparr>"

definition memory_available :: alloc where
  "memory_available = \<lparr>realloc_ok = True, malloc_ok = True\<rparr>"

lemma memory_available_succeeds [simp]: "alloc_succeeds memory_available"
  by (simp add: memory_available_def alloc_succeeds_def)

lemma sample_node_sel [simp]:
  "log (sample_node t es) = es" "last_snapshot_index (sample_node t es) = 0"
  "current_term (sample_node t es) = t" "last_snapshot_term (sample_node t es) = 0"
  "state (sample_node t es) = RAFT_STATE_FOLLOWER" "peers (sample_node t es) = []"
  "commit_index (sample_node t es) = 0" "last_applied (sample_node t es) = 0"
  by (simp_all add: sample_node_def raft_init_def)

lemma sample_node_wf:
  "contiguous 0 es \<Longrightarrow> length es \<le> 16 \<Longrightarrow> wf_node (sample_node t es)"
  using strncpy_wf [of 36 "zeros 37" "[110, 49]"]
  by (simp add: sample_node_def raft_init_def wf_node_def)

lemma contiguous_Cons:
  "contiguous base (e # es) \<longleftrightarrow>
     unat (le_index e) = unat base + 1 \<and>
     (\<forall>i < length es. unat (le_index (es ! i)) = unat base + 2 + i)"
  by (auto simp: contiguous_def less_Suc_eq_0_disj)

section \<open>Indices and positions\<close>

lemma log_slot_eq_Some:
  "log_slot node idx = Some i \<longleftrightarrow>
     i < length (log node) \<and> unat idx = unat (last_snapshot_index node) + 1 + i"
proof (cases "idx \<le> last_snapshot_index node")
  case True
  then show ?thesis
    by (auto simp: log_slot_def word_le_nat_alt)
next
  case False
  let ?s = "last_snapshot_index node"
  from False have lt: "?s < idx" by simp
  have "unat (idx - ?s) = unat idx - unat ?s"
    using lt by (simp add: unat_sub less_imp_le)
  moreover from this have "unat (idx - ?s) \<ge> 1"
    using lt by (simp add: word_less_nat_alt)
  ultimately have "unat (idx - ?s - 1) = unat idx - unat ?s - 1"
    by (subst unat_sub) (simp_all add: word_le_nat_alt)
  with lt show ?thesis
    by (auto simp: log_slot_def Let_def word_less_nat_alt word_le_nat_alt)
qed

lemma log_slot_eq_None:
  "log_slot node idx = None \<longleftrightarrow>
     unat idx \<le> unat (last_snapshot_index node) \<or>
     unat (last_snapshot_index node) + length (log node) < unat idx"
proof -
  have "log_slot node idx \<noteq> None \<longleftrightarrow> (\<exists>i. log_slot node idx = Some i)" by auto
  also have "\<dots> \<longleftrightarrow> unat (last_snapshot_index node) < unat idx \<and>
      unat idx \<le> unat (last_snapshot_index node) + length (log node)"
    unfolding log_slot_eq_Some
    by (auto intro: exI [of _ "unat idx - unat (last_snapshot_index node) - 1"])
  finally show ?thesis by auto
qed

lemma get_log_entry_eq_Some:
  "get_log_entry node idx = Some e \<longleftrightarrow>
     (\<exists>i < length (log node). unat idx = unat (last_snapshot_index node) + 1 + i \<and> e = log node ! i)"
proof -
  have "get_log_entry node idx = Some e \<longleftrightarrow> (\<exists>i. log_slot node idx = Some i \<and> e = log node ! i)"
    by (auto simp: get_log_entry_def split: option.splits)
  then show ?thesis
    unfolding log_slot_eq_Some by auto
qed

lemma get_log_entry_eq_None: "get_log_entry node idx = None \<longleftrightarrow> log_slot node idx = None"
  by (simp add: get_log_entry_def split: option.splits)

lemma get_log_entry_at:
  assumes "unat idx = unat (last_snapshot_index node) + 1 + k"
  shows "get_log_entry node idx = (if k < length (log node) then Some (log node ! k) else None)"
proof (cases "k < length (log node)")
  case True
  with assms show ?thesis
    by (simp add: get_log_entry_eq_Some)
next
  case False
  with assms show ?thesis
    by (simp add: get_log_entry_eq_None log_slot_eq_None)
qed

lemma unat_last_log_index:
  assumes "wf_node node"
  shows "unat (last_log_index node) = unat (last_snapshot_index node) + length (log node)"
  using wf_nodeD(5) [OF assms]
  by (cases "log node" rule: rev_cases) (simp_all add: last_log_index_def contiguous_append)

text \<open>The entry found at an index carries that index.\<close>

lemma get_log_entry_index:
  "wf_node node \<Longrightarrow> get_log_entry node idx = Some e \<Longrightarrow> le_index e = idx"
  using wf_nodeD(5) [of node]
  by (auto simp: get_log_entry_eq_Some contiguous_def word_unat_eq_iff)

text \<open>Lookups see the log and the snapshot marks only.\<close>

lemma log_view:
  assumes "log a = log b" and "last_snapshot_index a = last_snapshot_index b"
    and "last_snapshot_term a = last_snapshot_term b"
  shows "get_log_entry a i = get_log_entry b i" "term_at_index a i = term_at_index b i"
    "last_log_index a = last_log_index b" "last_log_term a = last_log_term b"
    "log_slot a i = log_slot b i"
proof -
  show slot: "log_slot a i = log_slot b i"
    using assms by (simp add: log_slot_def)
  show get: "get_log_entry a i = get_log_entry b i"
    using assms by (simp add: get_log_entry_def slot split: option.split)
  show "term_at_index a i = term_at_index b i"
    using assms by (simp add: term_at_index_def get)
qed (use assms in \<open>simp_all add: last_log_index_def last_log_term_def\<close>)

section \<open>Growing the log array\<close>

lemma ensure_log_capacity_cases:
  obtains c where "ensure_log_capacity al node = node\<lparr>log_capacity := c\<rparr>"
    and "log_capacity node \<le> c"
    and "realloc_ok al \<Longrightarrow> length (log node) \<le> log_capacity node \<Longrightarrow> length (log node) < c"
proof
  show "ensure_log_capacity al node = node\<lparr>log_capacity := log_capacity (ensure_log_capacity al node)\<rparr>"
    by (simp add: ensure_log_capacity_def Let_def)
qed (auto simp: ensure_log_capacity_def Let_def)

lemma ensure_log_capacity_room:
  "realloc_ok al \<Longrightarrow> length (log node) \<le> log_capacity node \<Longrightarrow>
     length (log node) < log_capacity (ensure_log_capacity al node)"
  by (auto simp: ensure_log_capacity_def Let_def)

lemma ensure_log_capacity_mono: "log_capacity node \<le> log_capacity (ensure_log_capacity al node)"
  by (auto simp: ensure_log_capacity_def Let_def)

lemma ensure_log_capacity_frame [simp]:
  "ensure_log_capacity al node\<lparr>log_capacity := c\<rparr> = node\<lparr>log_capacity := c\<rparr>"
  "node_id (ensure_log_capacity al node) = node_id node"
  "current_term (ensure_log_capacity al node) = current_term node"
  "voted_for (ensure_log_capacity al node) = voted_for node"
  "log (ensure_log_capacity al node) = log node"
  "state (ensure_log_capacity al node) = state node"
  "commit_index (ensure_log_capacity al node) = commit_index node"
  "last_applied (ensure_log_capacity al node) = last_applied node"
  "peers (ensure_log_capacity al node) = peers node"
  "peer_capacity (ensure_log_capacity al node) = peer_capacity node"
  "leader_id (ensure_log_capacity al node) = leader_id node"
  "votes_received (ensure_log_capacity al node) = votes_received node"
  "last_snapshot_index (ensure_log_capacity al node) = last_snapshot_index node"
  "last_snapshot_term (ensure_log_capacity al node) = last_snapshot_term node"
  "last_log_index (ensure_log_capacity al node) = last_log_index node"
  "last_log_term (ensure_log_capacity al node) = last_log_term node"
  by (auto simp: ensure_log_capacity_def Let_def last_log_index_def last_log_term_def)

section \<open>The AppendEntries loop\<close>

text \<open>
  The reference: entries that start right behind position \<open>k\<close> are compared with the log
  position by position; at the first position that is free or holds another term the log
  is cut and the rest of the entries takes its place.
\<close>

fun merge_log :: "nat \<Rightarrow> RaftLogEntry list \<Rightarrow> RaftLogEntry list \<Rightarrow> RaftLogEntry list" where
  "merge_log k lg [] = lg"
| "merge_log k lg (e # es) =
     (if k < length lg \<and> le_term (lg ! k) = le_term e then merge_log (Suc k) lg es
      else take k lg @ e # es)"

lemma merge_log_end: "merge_log (length lg) lg es = lg @ es"
  by (cases es) simp_all

text \<open>The loop of the handler changes the log and its capacity only.\<close>

definition with_log :: "RaftNode \<Rightarrow> RaftLogEntry list \<Rightarrow> nat \<Rightarrow> RaftNode" where
  "with_log node lg cap = node\<lparr>log := lg, log_capacity := cap\<rparr>"

lemma with_log_simps [simp]:
  "with_log node lg cap\<lparr>log := lg'\<rparr> = with_log node lg' cap"
  "log (with_log node lg cap) = lg" "log_capacity (with_log node lg cap) = cap"
  "with_log (with_log node lg cap) lg' cap' = with_log node lg' cap'"
  "node_id (with_log node lg cap) = node_id node"
  "current_term (with_log node lg cap) = current_term node"
  "voted_for (with_log node lg cap) = voted_for node"
  "state (with_log node lg cap) = state node"
  "commit_index (with_log node lg cap) = commit_index node"
  "last_applied (with_log node lg cap) = last_applied node"
  "peers (with_log node lg cap) = peers node"
  "peer_capacity (with_log node lg cap) = peer_capacity node"
  "leader_id (with_log node lg cap) = leader_id node"
  "last_snapshot_index (with_log node lg cap) = last_snapshot_index node"
  "last_snapshot_term (with_log node lg cap) = last_snapshot_term node"
  by (simp_all add: with_log_def)

lemma with_log_self: "with_log node (log node) (log_capacity node) = node"
  by (simp add: with_log_def)

lemma ensure_log_capacity_with_log:
  "ensure_log_capacity al node = with_log node (log node) (log_capacity (ensure_log_capacity al node))"
  by (simp add: ensure_log_capacity_def with_log_def Let_def)

lemma log_entry_copy [simp]:
  "\<lparr>le_term = le_term e, le_index = le_index e, le_data = le_data e, le_entry_type = le_entry_type e\<rparr> = e"
  by (cases e) simp

lemma append_entry_at:
  assumes len: "length (log node) \<le> log_capacity node"
    and k: "k \<le> length (log node)"
    and idx: "unat (le_index e) = unat (last_snapshot_index node) + 1 + k"
    and al: "alloc_succeeds al"
  shows "\<exists>cap. append_entry al e node =
      Inr (with_log node
            (if k < length (log node) \<and> le_term (log node ! k) = le_term e then log node
             else take k (log node) @ [e]) cap) \<and>
      length (if k < length (log node) \<and> le_term (log node ! k) = le_term e then log node
             else take k (log node) @ [e]) \<le> cap"
proof (cases "k < length (log node) \<and> le_term (log node ! k) = le_term e")
  case True
  then have "get_log_entry node (le_index e) = Some (log node ! k)"
    using get_log_entry_at [OF idx] by simp
  with True len show ?thesis
    by (auto simp: append_entry_def truncate_conflict_def with_log_self
        intro!: exI [of _ "log_capacity node"])
next
  case False
  let ?cut = "with_log node (take k (log node)) (log_capacity node)"
  have cut: "truncate_conflict e node = ?cut"
  proof (cases "k < length (log node)")
    case True
    then have "get_log_entry node (le_index e) = Some (log node ! k)"
      using get_log_entry_at [OF idx] by simp
    moreover have "log_slot node (le_index e) = Some k"
      using True idx by (simp add: log_slot_eq_Some)
    then have "unat (le_index e - last_snapshot_index node - 1) = k"
      by (auto simp: log_slot_def Let_def split: if_splits)
    ultimately show ?thesis
      using False True by (simp add: truncate_conflict_def Let_def with_log_def)
  next
    case False
    then have "get_log_entry node (le_index e) = None"
      using get_log_entry_at [OF idx] by simp
    with False show ?thesis
      by (simp add: truncate_conflict_def with_log_self)
  qed
  define c where "c = log_capacity (ensure_log_capacity al ?cut)"
  have none: "get_log_entry ?cut (le_index e) = None"
    using get_log_entry_at [of "le_index e" ?cut k] idx by simp
  have ens: "ensure_log_capacity al ?cut = with_log node (take k (log node)) c"
    by (subst ensure_log_capacity_with_log) (simp add: c_def)
  have room: "length (log ?cut) < c"
    unfolding c_def using len k al by (intro ensure_log_capacity_room) (auto simp: alloc_succeeds_def)
  have "append_entry al e node = Inr (with_log node (take k (log node) @ [e]) c)"
    using al room by (auto simp: append_entry_def cut none ens alloc_succeeds_def Let_def)
  with False room k show ?thesis
    by (intro exI [of _ c]) auto
qed

lemma append_loop_merge:
  assumes "length (log node) \<le> log_capacity node"
    and "k \<le> length (log node)"
    and "\<forall>j < length es. unat (le_index (es ! j)) = unat (last_snapshot_index node) + 1 + k + j"
    and "\<And>j. alloc_succeeds (al j)"
  shows "\<exists>cap. append_loop al (Some (seen @ es)) (length seen) (length es) node =
      Inr (with_log node (merge_log k (log node) es) cap) \<and>
      length (merge_log k (log node) es) \<le> cap"
  using assms
proof (induction es arbitrary: k node seen)
  case Nil
  then show ?case
    by (auto simp: with_log_self intro!: exI [of _ "log_capacity node"])
next
  case (Cons e es)
  let ?lg = "if k < length (log node) \<and> le_term (log node ! k) = le_term e then log node
             else take k (log node) @ [e]"
  have idx: "unat (le_index e) = unat (last_snapshot_index node) + 1 + k"
    using Cons.prems(3) by auto
  obtain cap where step: "append_entry (al (length seen)) e node = Inr (with_log node ?lg cap)"
    and cap: "length ?lg \<le> cap"
    using append_entry_at [OF Cons.prems(1,2) idx Cons.prems(4)] by blast
  have k': "Suc k \<le> length ?lg"
    using Cons.prems(2) by auto
  have idx': "\<forall>j < length es. unat (le_index (es ! j)) =
      unat (last_snapshot_index (with_log node ?lg cap)) + 1 + Suc k + j"
    using Cons.prems(3) by fastforce
  have "\<exists>cap'. append_loop al (Some ((seen @ [e]) @ es)) (length (seen @ [e])) (length es)
          (with_log node ?lg cap) =
        Inr (with_log (with_log node ?lg cap) (merge_log (Suc k) ?lg es) cap') \<and>
        length (merge_log (Suc k) ?lg es) \<le> cap'"
    using Cons.IH [of "with_log node ?lg cap" "Suc k" "seen @ [e]"] cap k' idx' Cons.prems(4)
    by simp
  moreover have "merge_log (Suc k) ?lg es = merge_log k (log node) (e # es)"
  proof (cases "k < length (log node) \<and> le_term (log node ! k) = le_term e")
    case True
    then show ?thesis by simp
  next
    case False
    then have "Suc k = length (take k (log node) @ [e])"
      using Cons.prems(2) by simp
    with False show ?thesis
      using merge_log_end [of "take k (log node) @ [e]" es] by auto
  qed
  ultimately show ?case
    using step by (simp add: nth_append)
qed

lemma length_merge_log: "k \<le> length lg \<Longrightarrow> k + length es \<le> length (merge_log k lg es)"
  by (induction k lg es rule: merge_log.induct) auto

lemma take_merge_log: "k \<le> length lg \<Longrightarrow> j \<le> k \<Longrightarrow> take j (merge_log k lg es) = take j lg"
  by (induction k lg es rule: merge_log.induct) (auto simp: min_def)

text \<open>Behind position \<open>k\<close> the merged log has the terms of the entries, one by one.\<close>

lemma merge_log_terms:
  "k \<le> length lg \<Longrightarrow> j < length es \<Longrightarrow> le_term (merge_log k lg es ! (k + j)) = le_term (es ! j)"
proof (induction k lg es arbitrary: j rule: merge_log.induct)
  case (1 k lg)
  then show ?case by simp
next
  case (2 k lg e es)
  show ?case
  proof (cases "k < length lg \<and> le_term (lg ! k) = le_term e")
    case True
    show ?thesis
    proof (cases j)
      case 0
      have "merge_log (Suc k) lg es ! k = lg ! k"
        using True take_merge_log [of "Suc k" lg "Suc k" es]
        by (metis Suc_leI lessI nth_take order_refl)
      with True 0 show ?thesis by simp
    next
      case (Suc i)
      with "2.IH" [of i] "2.prems" True show ?thesis by simp
    qed
  next
    case False
    then show ?thesis
      using "2.prems" by (auto simp: nth_append)
  qed
qed

lemma contiguous_merge_log:
  assumes "contiguous base lg" and "k \<le> length lg"
    and "\<forall>j < length es. unat (le_index (es ! j)) = unat base + 1 + k + j"
  shows "contiguous base (merge_log k lg es)"
  using assms
proof (induction k lg es rule: merge_log.induct)
  case (1 k lg)
  then show ?case by simp
next
  case (2 k lg e es)
  show ?case
  proof (cases "k < length lg \<and> le_term (lg ! k) = le_term e")
    case True
    have "\<forall>j < length es. unat (le_index (es ! j)) = unat base + 1 + Suc k + j"
      using "2.prems"(3) by fastforce
    with "2.IH" True "2.prems" show ?thesis by simp
  next
    case False
    have "unat (le_index ((take k lg @ e # es) ! i)) = unat base + 1 + i"
      if i: "i < length (take k lg @ e # es)" for i
    proof (cases "i < k")
      case True
      then show ?thesis
        using "2.prems"(1,2) by (simp add: contiguous_def nth_append)
    next
      case False
      then show ?thesis
        using "2.prems"(2,3) i by (auto simp: nth_append dest!: spec [of _ "i - k"])
    qed
    then have "contiguous base (take k lg @ e # es)"
      by (simp add: contiguous_def)
    with False show ?thesis by auto
  qed
qed

section \<open>The AppendEntries handler\<close>

lemma become_follower_frame [simp]:
  "fst (become_follower cb term (node, w)) =
     node\<lparr>state := RAFT_STATE_FOLLOWER, current_term := term, voted_for := zeros 37,
          leader_id := zeros 37, votes_received := 0\<rparr>"
  by (simp add: become_follower_def Let_def)

lemma become_follower_eq:
  "become_follower cb term (node, w) =
     (let node' = node\<lparr>state := RAFT_STATE_FOLLOWER, current_term := term, voted_for := zeros 37,
          leader_id := zeros 37, votes_received := 0\<rparr> in (node', persist_state cb node' w))"
  by (simp add: become_follower_def)

text \<open>
  What the handler has made of the node when it reaches the log: it has adopted the term,
  is a follower, has noted the leader and the time of contact.
\<close>

definition adopt_leader :: "u64 \<Rightarrow> RaftAppendEntriesReq \<Rightarrow> RaftNode \<Rightarrow> RaftNode" where
  "adopt_leader now req node =
     (let node = (if ae_term req > current_term node
                  then node\<lparr>state := RAFT_STATE_FOLLOWER, current_term := ae_term req,
                            voted_for := zeros 37, leader_id := zeros 37, votes_received := 0\<rparr>
                  else node);
          node = node\<lparr>last_heartbeat_ms := now, heartbeats_received := heartbeats_received node + 1,
                      leader_id := strncpy (leader_id node) (ae_leader_id req) 36\<rparr>
      in if state node \<noteq> RAFT_STATE_FOLLOWER
         then node\<lparr>state := RAFT_STATE_FOLLOWER, current_term := ae_term req,
                   voted_for := zeros 37, leader_id := zeros 37, votes_received := 0\<rparr>
         else node)"

lemma adopt_leader_frame [simp]:
  "log (adopt_leader now req node) = log node"
  "log_capacity (adopt_leader now req node) = log_capacity node"
  "last_snapshot_index (adopt_leader now req node) = last_snapshot_index node"
  "last_snapshot_term (adopt_leader now req node) = last_snapshot_term node"
  "state (adopt_leader now req node) = RAFT_STATE_FOLLOWER"
  "node_id (adopt_leader now req node) = node_id node"
  "peers (adopt_leader now req node) = peers node"
  "peer_capacity (adopt_leader now req node) = peer_capacity node"
  "commit_index (adopt_leader now req node) = commit_index node"
  "last_applied (adopt_leader now req node) = last_applied node"
  "last_log_index (adopt_leader now req node) = last_log_index node"
  "log_slot (adopt_leader now req node) idx = log_slot node idx"
  "get_log_entry (adopt_leader now req node) idx = get_log_entry node idx"
  "term_at_index (adopt_leader now req node) idx = term_at_index node idx"
  by (simp_all add: adopt_leader_def Let_def last_log_index_def log_slot_def get_log_entry_def
      term_at_index_def)

lemma adopt_leader_term:
  "current_term node \<le> ae_term req \<Longrightarrow> current_term (adopt_leader now req node) = ae_term req"
  by (auto simp: adopt_leader_def Let_def)

lemma adopt_leader_wf: "wf_node node \<Longrightarrow> wf_node (adopt_leader now req node)"
  using strncpy_wf [of 36 "leader_id node" "ae_leader_id req"] strncpy_wf [of 36 "zeros 37" "ae_leader_id req"]
  by (auto simp: wf_node_def adopt_leader_def Let_def)

text \<open>The same with the effects of \<^verbatim>\<open>persist\<close> on the world.\<close>

definition adopt_leader_world ::
  "'w callbacks \<Rightarrow> u64 \<Rightarrow> RaftAppendEntriesReq \<Rightarrow> RaftNode \<times> 'w \<Rightarrow> RaftNode \<times> 'w" where
  "adopt_leader_world cb now req = (\<lambda>(node, w).
     let (node, w) = (if ae_term req > current_term node
                      then become_follower cb (ae_term req) (node, w) else (node, w));
         node = node\<lparr>last_heartbeat_ms := now,
                     heartbeats_received := heartbeats_received node + 1,
                     leader_id := strncpy (leader_id node) (ae_leader_id req) 36\<rparr>
     in if state node \<noteq> RAFT_STATE_FOLLOWER
        then become_follower cb (ae_term req) (node, w) else (node, w))"

lemma fst_adopt_leader_world: "fst (adopt_leader_world cb now req (node, w)) = adopt_leader now req node"
  by (simp add: adopt_leader_world_def adopt_leader_def become_follower_def Let_def)

lemma append_entries_stale:
  assumes "ae_term req < current_term node"
  shows "raft_handle_append_entries cb al now req entries cnt (node, w) =
    Inr (\<lparr>aer_term = current_term node, aer_success = 0, aer_match_index = 0\<rparr>, node, w)"
  using assms by (auto simp: raft_handle_append_entries_def Let_def)

lemma append_entries_unfold:
  assumes "current_term node \<le> ae_term req"
  shows "raft_handle_append_entries cb al now req entries cnt (node, w) =
    (let (node', w') = adopt_leader_world cb now req (node, w)
     in if ae_prev_log_index req > 0 \<and>
           term_at_index node' (ae_prev_log_index req) \<noteq> ae_prev_log_term req
        then Inr (\<lparr>aer_term = current_term node, aer_success = 0,
                   aer_match_index = last_snapshot_index node'\<rparr>, node', w')
        else
          (case append_loop al entries 0 (unat cnt) node' of
             Inl f \<Rightarrow> Inl f
           | Inr node' \<Rightarrow>
               let w' = persist_state cb node' w';
                   node' = update_commit_index (ae_leader_commit req) node'
               in Inr (\<lparr>aer_term = current_term node, aer_success = 1,
                        aer_match_index = last_log_index node'\<rparr>, node', w')))"
proof (cases "current_term node < ae_term req")
  case True
  then show ?thesis
    by (simp add: raft_handle_append_entries_def adopt_leader_world_def become_follower_def Let_def
        cong: if_cong sum.case_cong)
next
  case False
  with assms have "ae_term req = current_term node" by simp
  then show ?thesis
    by (simp add: raft_handle_append_entries_def adopt_leader_world_def become_follower_def Let_def
        cong: if_cong sum.case_cong)
qed

lemma append_entries_mismatch:
  assumes "current_term node \<le> ae_term req"
    and "ae_prev_log_index req > 0"
    and "term_at_index node (ae_prev_log_index req) \<noteq> ae_prev_log_term req"
  shows "raft_handle_append_entries cb al now req entries cnt (node, w) =
    Inr (\<lparr>aer_term = current_term node, aer_success = 0, aer_match_index = last_snapshot_index node\<rparr>,
         adopt_leader_world cb now req (node, w))"
  using assms
  by (simp add: append_entries_unfold split_beta Let_def fst_adopt_leader_world prod_eq_iff)

lemma append_entries_accept:
  assumes "current_term node \<le> ae_term req"
    and "ae_prev_log_index req > 0 \<Longrightarrow>
      term_at_index node (ae_prev_log_index req) = ae_prev_log_term req"
    and "append_loop al entries 0 (unat cnt) (adopt_leader now req node) = Inr node'"
  shows "raft_handle_append_entries cb al now req entries cnt (node, w) =
    Inr (\<lparr>aer_term = current_term node, aer_success = 1,
          aer_match_index = last_log_index (update_commit_index (ae_leader_commit req) node')\<rparr>,
         update_commit_index (ae_leader_commit req) node',
         persist_state cb node' (snd (adopt_leader_world cb now req (node, w))))"
  using assms
  by (auto simp: append_entries_unfold split_beta Let_def fst_adopt_leader_world)

lemma update_commit_index_frame [simp]:
  "log (update_commit_index c node) = log node"
  "log_capacity (update_commit_index c node) = log_capacity node"
  "current_term (update_commit_index c node) = current_term node"
  "voted_for (update_commit_index c node) = voted_for node"
  "state (update_commit_index c node) = state node"
  "node_id (update_commit_index c node) = node_id node"
  "leader_id (update_commit_index c node) = leader_id node"
  "peers (update_commit_index c node) = peers node"
  "peer_capacity (update_commit_index c node) = peer_capacity node"
  "last_snapshot_index (update_commit_index c node) = last_snapshot_index node"
  "last_log_index (update_commit_index c node) = last_log_index node"
  "last_applied (update_commit_index c node) = last_applied node"
  by (simp_all add: update_commit_index_def Let_def last_log_index_def)

lemma update_commit_index_wf: "wf_node node \<Longrightarrow> wf_node (update_commit_index c node)"
  by (simp add: wf_node_def)

text \<open>
  What a sender of AppendEntries promises: the entries continue the log behind
  \<^verbatim>\<open>prev_log_index\<close>, which lies \<open>k\<close> entries behind the receiver's snapshot.
\<close>

definition continues :: "RaftNode \<Rightarrow> nat \<Rightarrow> RaftAppendEntriesReq \<Rightarrow> RaftLogEntry list \<Rightarrow> bool" where
  "continues node k req es \<longleftrightarrow>
     k \<le> length (log node) \<and>
     unat (ae_prev_log_index req) = unat (last_snapshot_index node) + k \<and>
     (\<forall>j < length es. unat (le_index (es ! j)) = unat (ae_prev_log_index req) + 1 + j) \<and>
     length es < 2 ^ 32"

lemma with_log_wf:
  "wf_node node \<Longrightarrow> contiguous (last_snapshot_index node) lg \<Longrightarrow> length lg \<le> cap \<Longrightarrow>
     wf_node (with_log node lg cap)"
  by (simp add: wf_node_def)

lemma append_entries_run:
  assumes wf: "wf_node node" and tm: "current_term node \<le> ae_term req"
    and cont: "continues node k req es"
    and prev: "ae_prev_log_index req > 0 \<Longrightarrow>
      term_at_index node (ae_prev_log_index req) = ae_prev_log_term req"
    and al: "\<And>j. alloc_succeeds (al j)"
  shows "\<exists>resp node' w'.
      raft_handle_append_entries cb al now req (Some es) (of_nat (length es)) (node, w) = Inr (resp, node', w') \<and>
      log node' = merge_log k (log node) es \<and> wf_node node' \<and>
      state node' = RAFT_STATE_FOLLOWER \<and> current_term node' = ae_term req \<and>
      aer_success resp = 1 \<and> aer_match_index resp = last_log_index node' \<and>
      aer_term resp = current_term node"
proof -
  let ?n = "adopt_leader now req node"
  have k: "k \<le> length (log ?n)"
    and idx: "\<forall>j < length es. unat (le_index (es ! j)) = unat (last_snapshot_index ?n) + 1 + k + j"
    and cnt: "unat (of_nat (length es) :: u32) = length es"
    using cont by (auto simp: continues_def unat_of_nat take_bit_nat_eq_self)
  have len: "length (log ?n) \<le> log_capacity ?n"
    using wf_nodeD(4) [OF wf] by simp
  from append_loop_merge [OF len k idx, where al = al and seen = "[]"] al obtain cap where
    run: "append_loop al (Some es) 0 (length es) ?n = Inr (with_log ?n (merge_log k (log node) es) cap)"
    and cap: "length (merge_log k (log node) es) \<le> cap"
    by auto
  have "append_loop al (Some es) 0 (unat (of_nat (length es) :: u32)) ?n =
      Inr (with_log ?n (merge_log k (log node) es) cap)"
    by (simp only: cnt run)
  note append_entries_accept [OF tm prev this, of cb w]
  moreover have "wf_node (with_log ?n (merge_log k (log node) es) cap)"
    using wf k idx cap
    by (intro with_log_wf adopt_leader_wf contiguous_merge_log) (auto dest: wf_nodeD(5))
  ultimately show ?thesis
    by (simp add: update_commit_index_wf adopt_leader_term [OF tm])
qed

text \<open>C10: On a well-formed node, an AppendEntries request whose term is current, whose
  previous entry matches and whose entries continue the log is accepted (given memory):
  no memory fault, the log becomes the reference merge, the node stays well-formed, is a
  follower in the leader's term, and answers with its last index.\<close>

theorem append_entries_merges:
  assumes "wf_node node" and "current_term node \<le> ae_term req"
    and "continues node k req es"
    and "ae_prev_log_index req > 0 \<Longrightarrow>
      term_at_index node (ae_prev_log_index req) = ae_prev_log_term req"
    and "\<And>j. alloc_succeeds (al j)"
  shows "\<exists>resp node' w'.
      raft_handle_append_entries cb al now req (Some es) (of_nat (length es)) (node, w) = Inr (resp, node', w') \<and>
      log node' = merge_log k (log node) es \<and> wf_node node' \<and>
      state node' = RAFT_STATE_FOLLOWER \<and> current_term node' = ae_term req \<and>
      aer_success resp = 1 \<and> aer_match_index resp = last_log_index node' \<and>
      aer_term resp = current_term node"
  using assms by (rule append_entries_run)

theorem append_entries_merges_witness:
  "\<exists>resp node' w'.
      raft_handle_append_entries no_callbacks (\<lambda>_. memory_available) 100
        \<lparr>ae_term = 3, ae_leader_id = [108], ae_prev_log_index = 2, ae_prev_log_term = 1,
         ae_leader_commit = 2, ae_entry_count = 2\<rparr>
        (Some [entry_of 3 3, entry_of 3 4]) 2
        (sample_node 2 [entry_of 1 1, entry_of 1 2, entry_of 2 3], ()) = Inr (resp, node', w') \<and>
      log node' = [entry_of 1 1, entry_of 1 2, entry_of 3 3, entry_of 3 4] \<and> wf_node node' \<and>
      aer_success resp = 1"
proof -
  let ?n = "sample_node 2 [entry_of 1 1, entry_of 1 2, entry_of 2 3]"
  let ?r = "\<lparr>ae_term = 3, ae_leader_id = [108], ae_prev_log_index = 2, ae_prev_log_term = 1,
             ae_leader_commit = 2, ae_entry_count = 2\<rparr> :: RaftAppendEntriesReq"
  have "wf_node ?n"
    by (rule sample_node_wf) (simp_all add: contiguous_Cons entry_of_def less_Suc_eq_0_disj)
  moreover have "continues ?n 2 ?r [entry_of 3 3, entry_of 3 4]"
    by (simp add: continues_def entry_of_def less_Suc_eq_0_disj)
  moreover have "term_at_index ?n 2 = 1"
    by (simp add: term_at_index_def get_log_entry_def log_slot_def entry_of_def Let_def)
  ultimately show ?thesis
    using append_entries_merges [of ?n ?r 2 "[entry_of 3 3, entry_of 3 4]" "\<lambda>_. memory_available"
        no_callbacks 100 "()"]
    by (auto simp: entry_of_def)
qed

section \<open>Replication of a leader's log\<close>

text \<open>
  Log matching: where two logs have entries of the same term at the same position, they
  are equal up to and including it.
\<close>

definition log_matching :: "RaftLogEntry list \<Rightarrow> RaftLogEntry list \<Rightarrow> bool" where
  "log_matching a b \<longleftrightarrow>
     (\<forall>i < min (length a) (length b). le_term (a ! i) = le_term (b ! i) \<longrightarrow> take (Suc i) a = take (Suc i) b)"

lemma log_matchingD:
  "log_matching a b \<Longrightarrow> i < length a \<Longrightarrow> i < length b \<Longrightarrow> le_term (a ! i) = le_term (b ! i) \<Longrightarrow>
     take (Suc i) a = take (Suc i) b"
  by (simp add: log_matching_def)

lemma merge_log_matching:
  assumes "log_matching lg ll" and "take k lg = take k ll" and "k \<le> length lg" and "k \<le> length ll"
    and "es = take m (drop k ll)"
  shows "take (k + length es) (merge_log k lg es) = take (k + length es) ll \<and>
    log_matching (merge_log k lg es) ll"
  using assms
proof (induction k lg es arbitrary: m rule: merge_log.induct)
  case (1 k lg)
  then show ?case by simp
next
  case (2 k lg e es)
  have k: "k < length ll"
    using "2.prems"(5) by (cases "k < length ll") auto
  have e: "e = ll ! k"
    using "2.prems"(5) by (cases m) (simp_all add: Cons_nth_drop_Suc [OF k, symmetric])
  obtain m' where m: "m = Suc m'"
    using "2.prems"(5) by (cases m) auto
  have es: "es = take m' (drop (Suc k) ll)"
    using "2.prems"(5) m by (simp add: Cons_nth_drop_Suc [OF k, symmetric])
  show ?case
  proof (cases "k < length lg \<and> le_term (lg ! k) = le_term e")
    case True
    then have "take (Suc k) lg = take (Suc k) ll"
      using "2.prems"(1) k e by (auto simp: log_matching_def)
    with "2.IH" [of m'] True "2.prems"(1) k es show ?thesis by simp
  next
    case False
    have "take (length (e # es)) (drop k ll) = e # es"
      unfolding "2.prems"(5) by (simp add: min_def)
    then have pre: "take k lg @ e # es = take (k + length (e # es)) ll"
      by (simp only: "2.prems"(2) take_add)
    have mt: "log_matching (take (k + length (e # es)) ll) ll"
      by (simp add: log_matching_def min_def)
    have "merge_log k lg (e # es) = take k lg @ e # es"
      using False by auto
    then have "merge_log k lg (e # es) = take (k + length (e # es)) ll"
      by (simp only: pre)
    with mt show ?thesis by (simp only: take_take min.idem)
  qed
qed

text \<open>
  The consistency check: a non-zero term found at the previous index means that the
  follower holds the leader's log up to there.
\<close>

lemma prev_entry_match:
  assumes match: "log_matching (log node) ll" and snap: "last_snapshot_index node = 0"
    and ll: "contiguous 0 ll" and nz: "list_all (\<lambda>e. le_term e \<noteq> 0) ll"
    and k: "0 < k" "k \<le> length ll"
    and eq: "term_at_index node (of_nat k) = le_term (ll ! (k - 1))"
  shows "k \<le> length (log node) \<and> take k (log node) = take k ll"
proof -
  have small: "k < 2 ^ 64"
    using ll k(2) by (rule contiguous_length)
  have idx: "unat (of_nat k :: u64) = unat (last_snapshot_index node) + 1 + (k - 1)"
    using unat_of_nat_64 [OF small] k snap by simp
  have nonzero: "(of_nat k :: u64) \<noteq> 0"
    using idx snap by (metis add_eq_0_iff_both_eq_0 unsigned_0 zero_neq_one)
  have "le_term (ll ! (k - 1)) \<noteq> 0"
    using nz k by (simp add: list_all_length)
  moreover have "term_at_index node (of_nat k) =
      (if k - 1 < length (log node) then le_term (log node ! (k - 1)) else 0)"
    unfolding term_at_index_def get_log_entry_at [OF idx] using nonzero snap by simp
  ultimately have "k - 1 < length (log node)" "le_term (log node ! (k - 1)) = le_term (ll ! (k - 1))"
    using eq by (simp_all split: if_splits)
  with k log_matchingD [OF match, of "k - 1"]
  have "take (Suc (k - 1)) (log node) = take (Suc (k - 1)) ll"
    by (simp add: less_le_trans)
  with k \<open>k - 1 < length (log node)\<close> show ?thesis
    by simp
qed

text \<open>
  The request a leader with log \<open>ll\<close> makes for the entries \<open>es\<close> behind position \<open>k\<close>.
\<close>

definition sends_from :: "RaftLogEntry list \<Rightarrow> nat \<Rightarrow> RaftLogEntry list \<Rightarrow> RaftAppendEntriesReq \<Rightarrow> bool" where
  "sends_from ll k es req \<longleftrightarrow>
     contiguous 0 ll \<and> list_all (\<lambda>e. le_term e \<noteq> 0) ll \<and>
     k \<le> length ll \<and> take (length es) (drop k ll) = es \<and> length es < 2 ^ 32 \<and>
     ae_prev_log_index req = of_nat k \<and>
     ae_prev_log_term req = (if k = 0 then 0 else le_term (ll ! (k - 1)))"

lemma sends_from_continues:
  assumes "sends_from ll k es req" and "k \<le> length (log node)" and "last_snapshot_index node = 0"
  shows "continues node k req es"
proof -
  from assms(1) have ll: "contiguous 0 ll" and k: "k \<le> length ll"
    and es: "take (length es) (drop k ll) = es"
    by (auto simp: sends_from_def)
  have len: "k + length es \<le> length ll"
    using k arg_cong [OF es, of length] by (simp add: min_def split: if_splits)
  have "unat (le_index (es ! j)) = k + 1 + j" if "j < length es" for j
  proof -
    have "es ! j = ll ! (k + j)"
      using that len k by (subst es [symmetric]) simp
    then show ?thesis
      using ll that len by (simp add: contiguous_def)
  qed
  moreover have "unat (ae_prev_log_index req) = k"
    using assms(1) unat_of_nat_64 [OF contiguous_length [OF ll k]] by (simp add: sends_from_def)
  ultimately show ?thesis
    using assms by (simp add: continues_def sends_from_def)
qed

text \<open>C2: Replication keeps the log matching property: a follower whose log matches the
  leader's handles any slice of the leader's log without fault; either it accepts and then holds
  the leader's log up to the end of the slice, or it refuses and keeps its log. In both cases
  the two logs still match and the node stays well-formed.\<close>

theorem append_entries_replicates:
  assumes "wf_node node" and "last_snapshot_index node = 0"
    and "current_term node \<le> ae_term req"
    and "sends_from ll k es req"
    and "log_matching (log node) ll"
    and "\<And>j. alloc_succeeds (al j)"
  shows "\<exists>resp node' w'.
      raft_handle_append_entries cb al now req (Some es) (of_nat (length es)) (node, w) = Inr (resp, node', w') \<and>
      wf_node node' \<and> log_matching (log node') ll \<and>
      (aer_success resp = 0 \<and> log node' = log node \<or>
       aer_success resp = 1 \<and> take (k + length es) (log node') = take (k + length es) ll)"
proof (cases "ae_prev_log_index req > 0 \<and> term_at_index node (ae_prev_log_index req) \<noteq> ae_prev_log_term req")
  case True
  obtain w' where "adopt_leader_world cb now req (node, w) = (adopt_leader now req node, w')"
    by (cases "adopt_leader_world cb now req (node, w)")
      (use fst_adopt_leader_world [of cb now req node w] in simp)
  with True append_entries_mismatch [OF assms(3), of cb al now "Some es" "of_nat (length es)" w]
  show ?thesis
    using assms(1,5) by (simp add: adopt_leader_wf)
next
  case False
  have ll: "contiguous 0 ll" "list_all (\<lambda>e. le_term e \<noteq> 0) ll" "k \<le> length ll"
    and es: "take (length es) (drop k ll) = es"
    using assms(4) by (auto simp: sends_from_def)
  have "k < 2 ^ 64"
    using ll(1,3) by (rule contiguous_length)
  then have pos: "0 < k \<Longrightarrow> ae_prev_log_index req > 0"
    using assms(4) by (simp add: sends_from_def word_greater_zero_iff unat_of_nat_64 unat_eq_0 [symmetric])
  have k: "k \<le> length (log node) \<and> take k (log node) = take k ll"
    using prev_entry_match [OF assms(5,2) ll(1,2) _ ll(3)] False pos assms(4)
    by (cases "k = 0") (auto simp: sends_from_def)
  have m: "take (k + length es) (merge_log k (log node) es) = take (k + length es) ll"
    "log_matching (merge_log k (log node) es) ll"
    using merge_log_matching [OF assms(5) _ _ ll(3) es [symmetric]] k by auto
  from False have prev: "ae_prev_log_index req > 0 \<Longrightarrow>
      term_at_index node (ae_prev_log_index req) = ae_prev_log_term req" by blast
  have cont: "continues node k req es"
    using sends_from_continues [OF assms(4) _ assms(2)] k by simp
  have "\<exists>resp node' w'.
      raft_handle_append_entries cb al now req (Some es) (of_nat (length es)) (node, w) = Inr (resp, node', w') \<and>
      log node' = merge_log k (log node) es \<and> wf_node node' \<and>
      state node' = RAFT_STATE_FOLLOWER \<and> current_term node' = ae_term req \<and>
      aer_success resp = 1 \<and> aer_match_index resp = last_log_index node' \<and>
      aer_term resp = current_term node"
    using assms(1,3) cont prev assms(6) by (rule append_entries_run)
  then show ?thesis
    using m by (elim exE conjE) (intro exI conjI, assumption, simp_all)
qed

theorem append_entries_replicates_witness:
  "\<exists>resp node' w'.
      raft_handle_append_entries no_callbacks (\<lambda>_. memory_available) 100
        \<lparr>ae_term = 3, ae_leader_id = [108], ae_prev_log_index = 1, ae_prev_log_term = 1,
         ae_leader_commit = 2, ae_entry_count = 2\<rparr>
        (Some [entry_of 3 2, entry_of 3 3]) 2
        (sample_node 2 [entry_of 1 1, entry_of 2 2], ()) = Inr (resp, node', w') \<and>
      wf_node node' \<and> log_matching (log node') [entry_of 1 1, entry_of 3 2, entry_of 3 3] \<and>
      (aer_success resp = 0 \<and> log node' = [entry_of 1 1, entry_of 2 2] \<or>
       aer_success resp = 1 \<and> take 3 (log node') = [entry_of 1 1, entry_of 3 2, entry_of 3 3])"
proof -
  let ?n = "sample_node 2 [entry_of 1 1, entry_of 2 2]"
  let ?r = "\<lparr>ae_term = 3, ae_leader_id = [108], ae_prev_log_index = 1, ae_prev_log_term = 1,
             ae_leader_commit = 2, ae_entry_count = 2\<rparr> :: RaftAppendEntriesReq"
  let ?ll = "[entry_of 1 1, entry_of 3 2, entry_of 3 3]"
  have "wf_node ?n"
    by (rule sample_node_wf) (simp_all add: contiguous_Cons entry_of_def less_Suc_eq_0_disj)
  moreover have "sends_from ?ll 1 [entry_of 3 2, entry_of 3 3] ?r"
    by (simp add: sends_from_def contiguous_Cons entry_of_def less_Suc_eq_0_disj)
  moreover have "log_matching (log ?n) ?ll"
    by (simp add: log_matching_def entry_of_def less_Suc_eq_0_disj)
  ultimately show ?thesis
    using append_entries_replicates [of ?n ?r ?ll 1 "[entry_of 3 2, entry_of 3 3]"
        "\<lambda>_. memory_available" no_callbacks 100 "()"]
    by (simp add: numeral_3_eq_3)
qed

end
