(* ===== verification/Raft_Wal.thy ===== *)
theory Raft_Wal
  imports Raft_Log Crc32 "HOL-Library.Sublist"
begin

text \<open>
  The persistence layer of \<^verbatim>\<open>src/cluster/raft_persistence.c\<close>: the write-ahead log that holds
  term, vote and log, and the snapshot file.

  \<^item> A file is its contents. Opening a file for writing truncates it; \<^verbatim>\<open>read\<close> on a regular
    file returns the requested bytes or those that are left.
  \<^item> What the operating system answers is an argument: \<open>writer k n\<close> is the result of the
    \<open>k\<close>-th \<^verbatim>\<open>write\<close> call, for \<open>n\<close> bytes (short counts and errors included).
  \<^item> The paths are determined by the node id; a node works on its own two files.
    \<^verbatim>\<open>ensure_directory\<close> only prepares the directory and its result is not used.
\<close>

section \<open>Structures on disk\<close>

definition WAL_MAGIC :: u32 where "WAL_MAGIC = 0x52414654"
definition WAL_VERSION :: u32 where "WAL_VERSION = 1"
definition ENTRY_MAGIC :: u32 where "ENTRY_MAGIC = 0xE0E0E0E0"
definition SNAP_MAGIC :: u32 where "SNAP_MAGIC = 0x534E4150"

text \<open>The fields hold what the memory of the structure holds, in network order once filled in.\<close>

record WalHeader =
  wh_magic :: u32
  wh_version :: u32
  wh_current_term :: u64
  wh_voted_for :: bytes
  wh_reserved :: bytes

record WalEntryHeader =
  eh_entry_magic :: u32
  eh_term :: u64
  eh_index :: u64
  eh_entry_type :: u8
  eh_data_len :: u32

record SnapHeader =
  sh_magic :: u32
  sh_last_index :: u64
  sh_last_term :: u64
  sh_data_len :: u32

definition sizeof_WalHeader :: nat where "sizeof_WalHeader = 4 + 4 + 8 + 37 + 11"
definition sizeof_WalEntryHeader :: nat where "sizeof_WalEntryHeader = 4 + 8 + 8 + 1 + 4"
definition sizeof_SnapHeader :: nat where "sizeof_SnapHeader = 4 + 8 + 8 + 4"

lemmas wal_sizes = sizeof_WalHeader_def sizeof_WalEntryHeader_def sizeof_SnapHeader_def

definition wal_header_image :: "endian \<Rightarrow> WalHeader \<Rightarrow> bytes" where
  "wal_header_image e h =
     host_bytes e 4 (wh_magic h) @ host_bytes e 4 (wh_version h) @
     host_bytes e 8 (wh_current_term h) @ wh_voted_for h @ wh_reserved h"

definition wal_header_read :: "endian \<Rightarrow> bytes \<Rightarrow> WalHeader" where
  "wal_header_read e bs =
     \<lparr>wh_magic = host_word e (field_at 0 4 bs), wh_version = host_word e (field_at 4 4 bs),
      wh_current_term = host_word e (field_at 8 8 bs),
      wh_voted_for = field_at 16 37 bs, wh_reserved = field_at 53 11 bs\<rparr>"

definition wal_entry_image :: "endian \<Rightarrow> WalEntryHeader \<Rightarrow> bytes" where
  "wal_entry_image e h =
     host_bytes e 4 (eh_entry_magic h) @ host_bytes e 8 (eh_term h) @
     host_bytes e 8 (eh_index h) @ [eh_entry_type h] @ host_bytes e 4 (eh_data_len h)"

definition wal_entry_read :: "endian \<Rightarrow> bytes \<Rightarrow> WalEntryHeader" where
  "wal_entry_read e bs =
     \<lparr>eh_entry_magic = host_word e (field_at 0 4 bs), eh_term = host_word e (field_at 4 8 bs),
      eh_index = host_word e (field_at 12 8 bs), eh_entry_type = bs ! 20,
      eh_data_len = host_word e (field_at 21 4 bs)\<rparr>"

definition snap_header_image :: "endian \<Rightarrow> SnapHeader \<Rightarrow> bytes" where
  "snap_header_image e h =
     host_bytes e 4 (sh_magic h) @ host_bytes e 8 (sh_last_index h) @
     host_bytes e 8 (sh_last_term h) @ host_bytes e 4 (sh_data_len h)"

definition snap_header_read :: "endian \<Rightarrow> bytes \<Rightarrow> SnapHeader" where
  "snap_header_read e bs =
     \<lparr>sh_magic = host_word e (field_at 0 4 bs), sh_last_index = host_word e (field_at 4 8 bs),
      sh_last_term = host_word e (field_at 12 8 bs), sh_data_len = host_word e (field_at 20 4 bs)\<rparr>"

section \<open>Writing the state\<close>

type_synonym writer = "nat \<Rightarrow> nat \<Rightarrow> int"

text \<open>
  One \<^verbatim>\<open>write\<close> call on a file opened for writing: the state is the number of calls so far
  and the contents; the flag says that all bytes were taken.
\<close>

definition fd_write :: "writer \<Rightarrow> bytes \<Rightarrow> nat \<times> bytes \<Rightarrow> bool \<times> nat \<times> bytes" where
  "fd_write writer bs = (\<lambda>(k, file).
     let r = writer k (length bs)
     in (r = int (length bs), Suc k, file @ take (nat r) bs))"

definition filled_wal_header :: "endian \<Rightarrow> RaftNode \<Rightarrow> WalHeader" where
  "filled_wal_header e node =
     \<lparr>wh_magic = htonl e WAL_MAGIC, wh_version = htonl e WAL_VERSION,
      wh_current_term = htobe64 e (current_term node),
      wh_voted_for = strncpy (zeros 37) (voted_for node) 36, wh_reserved = zeros 11\<rparr>"

text \<open>\<^verbatim>\<open>htonl(entry->data_len)\<close> keeps the low 32 bits of the length.\<close>

definition filled_entry_header :: "endian \<Rightarrow> RaftLogEntry \<Rightarrow> WalEntryHeader" where
  "filled_entry_header e entry =
     \<lparr>eh_entry_magic = htonl e ENTRY_MAGIC, eh_term = htobe64 e (le_term entry),
      eh_index = htobe64 e (le_index entry), eh_entry_type = le_entry_type entry,
      eh_data_len = htonl e (of_nat (length (le_data entry)))\<rparr>"

fun persist_entries ::
  "endian \<Rightarrow> writer \<Rightarrow> (nat \<Rightarrow> bool) \<Rightarrow> nat \<Rightarrow> RaftLogEntry list \<Rightarrow> nat \<times> bytes \<Rightarrow> int \<times> nat \<times> bytes" where
  "persist_entries e writer mem i [] s = (0, s)"
| "persist_entries e writer mem i (entry # es) s =
     (if \<not> mem i then (-1, s)
      else
        let buf = wal_entry_image e (filled_entry_header e entry) @ le_data entry;
            checksum = htonl e (crc32 buf);
            (ok, s) = fd_write writer buf s
        in if \<not> ok then (-1, s)
           else
             let (ok, s) = fd_write writer (host_bytes e 4 checksum) s
             in if \<not> ok then (-1, s) else persist_entries e writer mem (Suc i) es s)"

text \<open>The file is \<open>None\<close> while it does not exist.\<close>

definition raft_persist_state ::
  "endian \<Rightarrow> bool \<Rightarrow> writer \<Rightarrow> (nat \<Rightarrow> bool) \<Rightarrow> RaftNode option \<Rightarrow> bytes option \<Rightarrow> int \<times> bytes option" where
  "raft_persist_state e open_ok writer mem node file =
     (case node of
        None \<Rightarrow> (-1, file)
      | Some node \<Rightarrow>
          if \<not> open_ok then (-1, file)
          else
            let (ok, s) = fd_write writer (wal_header_image e (filled_wal_header e node)) (0, [])
            in if \<not> ok then (-1, Some (snd s))
               else let (rc, s) = persist_entries e writer mem 0 (log node) s
                    in (rc, Some (snd s)))"

section \<open>Restoring the state\<close>

datatype open_result = Opened bytes | NotFound | OpenFailed

text \<open>
  The loop of \<^verbatim>\<open>raft_restore_state\<close>, from the \<open>i\<close>-th entry with the unread rest of the file.
  \<open>mem i\<close> says what the allocator answers for the entry's data and for the growing array,
  \<open>buf_mem i\<close> for the buffer of the checksum, which is used without a check.
\<close>

function restore_entries ::
  "endian \<Rightarrow> (nat \<Rightarrow> alloc) \<Rightarrow> (nat \<Rightarrow> bool) \<Rightarrow> nat \<Rightarrow> bytes \<Rightarrow> RaftNode \<Rightarrow> fault + RaftNode" where
  "restore_entries e mem buf_mem i f node =
     (let raw = take sizeof_WalEntryHeader f; f1 = drop sizeof_WalEntryHeader f
      in if length raw = 0 then Inr node
         else if length raw \<noteq> sizeof_WalEntryHeader then Inr node
         else
           let ent_hdr = wal_entry_read e raw
           in if ntohl e (eh_entry_magic ent_hdr) \<noteq> ENTRY_MAGIC then Inr node
              else
                let data_len = unat (ntohl e (eh_data_len ent_hdr));
                    data = take data_len f1; f2 = drop data_len f1
                in if \<not> malloc_ok (mem i) \<or> length data \<noteq> data_len then Inr node
                   else
                     let crc_raw = take 4 f2; f3 = drop 4 f2
                     in if length crc_raw \<noteq> 4 then Inr node
                        else if \<not> buf_mem i then Inl NullDeref
                        else if ntohl e (host_word e crc_raw) \<noteq> crc32 (wal_entry_image e ent_hdr @ data)
                        then Inr node
                        else
                          let grown = ensure_log_capacity (mem i) node
                          in if length (log node) \<ge> log_capacity grown then Inr node
                             else
                               restore_entries e mem buf_mem (Suc i) f3
                                 (grown\<lparr>log := log grown @
                                    [\<lparr>le_term = be64toh e (eh_term ent_hdr),
                                      le_index = be64toh e (eh_index ent_hdr),
                                      le_data = data, le_entry_type = eh_entry_type ent_hdr\<rparr>]\<rparr>))"
  by pat_completeness auto
termination
  by (relation "measure (\<lambda>(e, mem, buf_mem, i, f, node). length f)") (auto simp: wal_sizes)

declare restore_entries.simps [simp del]

definition raft_restore_state ::
  "endian \<Rightarrow> (nat \<Rightarrow> alloc) \<Rightarrow> (nat \<Rightarrow> bool) \<Rightarrow> open_result \<Rightarrow> RaftNode option \<Rightarrow> fault + (int \<times> RaftNode option)" where
  "raft_restore_state e mem buf_mem opened node =
     (case node of
        None \<Rightarrow> Inr (-1, None)
      | Some node \<Rightarrow>
          (case opened of
             NotFound \<Rightarrow> Inr (0, Some node)
           | OpenFailed \<Rightarrow> Inr (-1, Some node)
           | Opened f \<Rightarrow>
               let raw = take sizeof_WalHeader f
               in if length raw \<noteq> sizeof_WalHeader then Inr (-1, Some node)
                  else
                    let header = wal_header_read e raw
                    in if ntohl e (wh_magic header) \<noteq> WAL_MAGIC then Inr (-1, Some node)
                       else
                         let node = node\<lparr>current_term := be64toh e (wh_current_term header),
                                         voted_for := strncpy (voted_for node) (wh_voted_for header) 36\<rparr>
                         in (case restore_entries e mem buf_mem 0 (drop sizeof_WalHeader f) node of
                               Inl fault \<Rightarrow> Inl fault
                             | Inr node \<Rightarrow> Inr (0, Some node))))"

section \<open>Snapshots\<close>

definition raft_save_snapshot ::
  "endian \<Rightarrow> bool \<Rightarrow> writer \<Rightarrow> RaftNode option \<Rightarrow> u64 \<Rightarrow> u64 \<Rightarrow> bytes \<Rightarrow> bytes option \<Rightarrow>
     int \<times> RaftNode option \<times> bytes option" where
  "raft_save_snapshot e open_ok writer node index t data file =
     (case node of
        None \<Rightarrow> (-1, None, file)
      | Some n \<Rightarrow>
          if \<not> open_ok then (-1, Some n, file)
          else
            let snap_hdr = \<lparr>sh_magic = htonl e SNAP_MAGIC, sh_last_index = htobe64 e index,
                            sh_last_term = htobe64 e t,
                            sh_data_len = htonl e (of_nat (length data))\<rparr>;
                (ok, s) = fd_write writer (snap_header_image e snap_hdr) (0, [])
            in if \<not> ok then (-1, Some n, Some (snd s))
               else
                 let (ok, s) = fd_write writer data s
                 in if \<not> ok then (-1, Some n, Some (snd s))
                    else (0,
                          Some (n\<lparr>last_snapshot_index := index, last_snapshot_term := t,
                                  log := filter (\<lambda>en. le_index en > index) (log n)\<rparr>),
                          Some (snd s)))"

record loaded_snapshot =
  ls_index :: u64
  ls_term :: u64
  ls_len :: nat
  ls_data :: "bytes option"

text \<open>
  The out parameters, \<open>None\<close> while none is assigned. When the allocation or the read of the data
  fails, index, term and length are assigned and \<^verbatim>\<open>*data\<close> is NULL or freed: \<open>ls_data\<close> is \<open>None\<close>.
\<close>

definition raft_load_snapshot ::
  "endian \<Rightarrow> bool \<Rightarrow> open_result \<Rightarrow> RaftNode option \<Rightarrow> int \<times> loaded_snapshot option" where
  "raft_load_snapshot e mem opened node =
     (case node of
        None \<Rightarrow> (-1, None)
      | Some _ \<Rightarrow>
          (case opened of
             NotFound \<Rightarrow> (0, None)
           | OpenFailed \<Rightarrow> (-1, None)
           | Opened f \<Rightarrow>
               let raw = take sizeof_SnapHeader f
               in if length raw \<noteq> sizeof_SnapHeader then (-1, None)
                  else
                    let snap_hdr = snap_header_read e raw
                    in if ntohl e (sh_magic snap_hdr) \<noteq> SNAP_MAGIC then (-1, None)
                       else
                         let len = unat (ntohl e (sh_data_len snap_hdr));
                             data = take len (drop sizeof_SnapHeader f);
                             out = \<lparr>ls_index = be64toh e (sh_last_index snap_hdr),
                                    ls_term = be64toh e (sh_last_term snap_hdr),
                                    ls_len = len, ls_data = None\<rparr>
                         in if \<not> mem \<or> length data \<noteq> len then (-1, Some out)
                            else (0, Some (out\<lparr>ls_data := Some data\<rparr>))))"

section \<open>The layouts as codecs\<close>

definition wf_wal_header :: "WalHeader \<Rightarrow> bool" where
  "wf_wal_header h \<longleftrightarrow> length (wh_voted_for h) = 37 \<and> length (wh_reserved h) = 11"

interpretation wal_header: fixed_codec "wal_header_image e" "wal_header_read e" sizeof_WalHeader wf_wal_header
  for e
proof
  fix x
  assume wf: "wf_wal_header x"
  show "length (wal_header_image e x) = sizeof_WalHeader"
    using wf by (simp add: wf_wal_header_def wal_header_image_def wal_sizes)
  show "wal_header_read e (wal_header_image e x) = x"
    using wf by (simp add: wf_wal_header_def wal_header_image_def wal_header_read_def
        field_simps_at host_word_host_bytes)
next
  fix bs :: bytes
  assume len: "length bs = sizeof_WalHeader"
  show "wf_wal_header (wal_header_read e bs)"
    using len by (simp add: wf_wal_header_def wal_header_read_def wal_sizes)
  show "wal_header_image e (wal_header_read e bs) = bs"
    using len by (simp add: wal_header_image_def wal_header_read_def wal_sizes host_bytes_host_word
        field_at_glue field_at_whole flip: append_assoc)
qed

interpretation wal_entry: fixed_codec "wal_entry_image e" "wal_entry_read e" sizeof_WalEntryHeader "\<lambda>_. True"
  for e
proof
  fix x
  show "length (wal_entry_image e x) = sizeof_WalEntryHeader"
    by (simp add: wal_entry_image_def wal_sizes)
  show "wal_entry_read e (wal_entry_image e x) = x"
    by (simp add: wal_entry_image_def wal_entry_read_def field_at_def host_word_host_bytes nth_append)
next
  fix bs :: bytes
  assume len: "length bs = sizeof_WalEntryHeader"
  show "wal_entry_image e (wal_entry_read e bs) = bs"
    using len field_at_nth [of 20 bs]
    by (simp add: wal_entry_image_def wal_entry_read_def wal_sizes host_bytes_host_word
        field_at_glue field_at_whole flip: append_assoc)
qed simp

interpretation snap_header: fixed_codec "snap_header_image e" "snap_header_read e" sizeof_SnapHeader "\<lambda>_. True"
  for e
proof
  fix x
  show "length (snap_header_image e x) = sizeof_SnapHeader"
    by (simp add: snap_header_image_def wal_sizes)
  show "snap_header_read e (snap_header_image e x) = x"
    by (simp add: snap_header_image_def snap_header_read_def field_simps_at host_word_host_bytes)
next
  fix bs :: bytes
  assume len: "length bs = sizeof_SnapHeader"
  show "snap_header_image e (snap_header_read e bs) = bs"
    using len by (simp add: snap_header_image_def snap_header_read_def wal_sizes host_bytes_host_word
        field_at_glue field_at_whole flip: append_assoc)
qed simp

section \<open>The file in network order\<close>

text \<open>What a host of either byte order writes for an entry and for a node.\<close>

definition entry_prefix :: "RaftLogEntry \<Rightarrow> bytes" where
  "entry_prefix entry =
     to_be 4 ENTRY_MAGIC @ to_be 8 (le_term entry) @ to_be 8 (le_index entry) @
     [le_entry_type entry] @ to_be 4 (of_nat (length (le_data entry)) :: u32)"

definition entry_frame :: "RaftLogEntry \<Rightarrow> bytes" where
  "entry_frame entry =
     entry_prefix entry @ le_data entry @ to_be 4 (crc32 (entry_prefix entry @ le_data entry))"

definition header_bytes :: "RaftNode \<Rightarrow> bytes" where
  "header_bytes node =
     to_be 4 WAL_MAGIC @ to_be 4 WAL_VERSION @ to_be 8 (current_term node) @
     strncpy (zeros 37) (voted_for node) 36 @ zeros 11"

definition wal_bytes :: "RaftNode \<Rightarrow> bytes" where
  "wal_bytes node = header_bytes node @ concat (map entry_frame (log node))"

text \<open>Entries whose length survives the 32 bit length field.\<close>

definition storable :: "RaftLogEntry \<Rightarrow> bool" where
  "storable entry \<longleftrightarrow> length (le_data entry) < 2 ^ 32"

lemma length_header_bytes [simp]: "length (header_bytes node) = 64"
  by (simp add: header_bytes_def strncpy_def zeros_def)

lemma length_entry_prefix [simp]: "length (entry_prefix entry) = 25"
  by (simp add: entry_prefix_def)

lemma entry_prefix_not_Nil [simp]: "entry_prefix entry \<noteq> []"
  using length_entry_prefix [of entry] by (metis list.size(3) zero_neq_numeral)

lemma length_entry_frame: "length (entry_frame entry) = 29 + length (le_data entry)"
  by (simp add: entry_frame_def)

lemma filled_header_image: "wal_header_image e (filled_wal_header e node) = header_bytes node"
  by (simp add: wal_header_image_def filled_wal_header_def header_bytes_def codec_simps)

lemma filled_entry_image: "wal_entry_image e (filled_entry_header e entry) = entry_prefix entry"
  by (simp add: wal_entry_image_def filled_entry_header_def entry_prefix_def codec_simps)

lemma prefix_fields:
  assumes "storable entry"
  shows "ntohl e (eh_entry_magic (wal_entry_read e (entry_prefix entry))) = ENTRY_MAGIC"
    "be64toh e (eh_term (wal_entry_read e (entry_prefix entry))) = le_term entry"
    "be64toh e (eh_index (wal_entry_read e (entry_prefix entry))) = le_index entry"
    "eh_entry_type (wal_entry_read e (entry_prefix entry)) = le_entry_type entry"
    "unat (ntohl e (eh_data_len (wal_entry_read e (entry_prefix entry)))) = length (le_data entry)"
  using assms
  by (simp_all add: wal_entry_read_def entry_prefix_def field_at_def codec_simps nth_append storable_def
      unat_of_nat take_bit_nat_eq_self)

lemma header_fields:
  "ntohl e (wh_magic (wal_header_read e (header_bytes node))) = WAL_MAGIC"
  "be64toh e (wh_current_term (wal_header_read e (header_bytes node))) = current_term node"
  "wh_voted_for (wal_header_read e (header_bytes node)) = strncpy (zeros 37) (voted_for node) 36"
  by (simp_all add: wal_header_read_def header_bytes_def field_at_def codec_simps length_strncpy)

section \<open>Writing\<close>

text \<open>A writer never takes more bytes than it is given.\<close>

definition lawful_writer :: "writer \<Rightarrow> bool" where
  "lawful_writer writer \<longleftrightarrow> (\<forall>k n. writer k n \<le> int n)"

definition complete_writer :: writer where
  "complete_writer k n = int n"

lemma fd_write_complete [simp]:
  "fd_write complete_writer bs (k, pre) = (True, Suc k, pre @ bs)"
  by (simp add: fd_write_def complete_writer_def)

lemma persist_entries_complete:
  "\<exists>k'. persist_entries e complete_writer (\<lambda>_. True) i es (k, pre) =
     (0, k', pre @ concat (map entry_frame es))"
proof (induction es arbitrary: i k pre)
  case (Cons en es)
  from Cons.IH [of "Suc i" "Suc (Suc k)" "pre @ entry_frame en"] show ?case
    by (simp add: filled_entry_image Let_def codec_simps entry_frame_def)
qed simp

lemma persist_state_complete:
  "raft_persist_state e True complete_writer (\<lambda>_. True) (Some node) pre = (0, Some (wal_bytes node))"
  using persist_entries_complete [of e 0 "log node" 1 "header_bytes node"]
  by (auto simp: raft_persist_state_def filled_header_image wal_bytes_def Let_def)

text \<open>Whatever the writes answer, the file is a prefix of the full one, all of it on success.\<close>

lemma fd_write_lawful:
  assumes "lawful_writer writer" and "fd_write writer bs (k, pre) = (ok, k', post)"
  shows "prefix post (pre @ bs)" and "ok \<Longrightarrow> post = pre @ bs"
  using assms by (auto simp: fd_write_def Let_def lawful_writer_def take_is_prefix)

lemma prefix_extend: "prefix post (pre @ bs) \<Longrightarrow> prefix post (pre @ bs @ rest)"
  by (metis append.assoc prefix_prefix)

lemma persist_entries_prefix:
  assumes "lawful_writer writer" and "persist_entries e writer mem i es (k, pre) = (rc, k', post)"
  shows "prefix post (pre @ concat (map entry_frame es)) \<and>
    (rc = 0 \<longrightarrow> post = pre @ concat (map entry_frame es))"
  using assms
proof (induction es arbitrary: i k pre)
  case Nil
  then show ?case by simp
next
  case (Cons en es)
  let ?buf = "entry_prefix en @ le_data en" and ?crc = "to_be 4 (crc32 (entry_prefix en @ le_data en))"
  let ?all = "pre @ ?buf @ ?crc @ concat (map entry_frame es)"
  obtain ok1 k1 f1 where w1: "fd_write writer ?buf (k, pre) = (ok1, k1, f1)"
    by (metis prod_cases3)
  obtain ok2 k2 f2 where w2: "fd_write writer ?crc (k1, f1) = (ok2, k2, f2)"
    by (metis prod_cases3)
  note p1 = fd_write_lawful [OF Cons.prems(1) w1] and p2 = fd_write_lawful [OF Cons.prems(1) w2]
  have "prefix post ?all \<and> (rc = 0 \<longrightarrow> post = ?all)"
  proof (cases "mem i \<and> ok1 \<and> ok2")
    case True
    with Cons.prems w1 w2 have "persist_entries e writer mem (Suc i) es (k2, f2) = (rc, k', post)"
      by (simp add: filled_entry_image Let_def codec_simps)
    from Cons.IH [OF Cons.prems(1) this] p1(2) p2(2) True show ?thesis
      by simp
  next
    case False
    with Cons.prems(2) w1 w2
    have "rc = -1 \<and> (post = pre \<or> post = f1 \<or> ok1 \<and> post = f2)"
      by (auto simp: filled_entry_image Let_def codec_simps split: if_splits)
    moreover have "prefix f1 ?all"
      by (rule prefix_extend [OF p1(1)])
    moreover have "prefix f2 ?all" if ok1
      using prefix_extend [OF p2(1)] p1(2) [OF that] by simp
    ultimately show ?thesis by auto
  qed
  then show ?case by (simp add: entry_frame_def [of en])
qed

lemma persist_state_prefix:
  assumes "lawful_writer writer" and "raft_persist_state e True writer mem (Some node) old = (rc, Some post)"
  shows "prefix post (wal_bytes node)" and "rc = 0 \<Longrightarrow> post = wal_bytes node"
proof -
  obtain ok k f where w: "fd_write writer (header_bytes node) (0, []) = (ok, k, f)"
    by (metis prod_cases3)
  note p = fd_write_lawful [OF assms(1) w]
  have "prefix post (wal_bytes node) \<and> (rc = 0 \<longrightarrow> post = wal_bytes node)"
  proof (cases ok)
    case True
    obtain k' where "persist_entries e writer mem 0 (log node) (k, header_bytes node) = (rc, k', post)"
      using assms(2) w p(2) True
      by (auto simp: raft_persist_state_def filled_header_image Let_def split: prod.splits)
    from persist_entries_prefix [OF assms(1) this] show ?thesis
      by (simp add: wal_bytes_def)
  next
    case False
    with assms(2) w have "rc = -1" "post = f"
      by (auto simp: raft_persist_state_def filled_header_image Let_def)
    with prefix_extend [OF p(1)] show ?thesis
      by (simp add: wal_bytes_def)
  qed
  then show "prefix post (wal_bytes node)" and "rc = 0 \<Longrightarrow> post = wal_bytes node"
    by simp_all
qed

section \<open>Restoring\<close>

definition push_entry :: "alloc \<Rightarrow> RaftLogEntry \<Rightarrow> RaftNode \<Rightarrow> RaftNode" where
  "push_entry al entry node =
     (let grown = ensure_log_capacity al node
      in grown\<lparr>log := log grown @ [entry]\<rparr>)"

lemma restore_short:
  assumes "length f < sizeof_WalEntryHeader"
  shows "restore_entries e mem buf_mem i f node = Inr node"
  using assms by (subst restore_entries.simps) (simp add: Let_def)

lemma log_entry_eta:
  "\<lparr>le_term = le_term en, le_index = le_index en, le_data = le_data en, le_entry_type = le_entry_type en\<rparr> = en"
  by simp

text \<open>One pass of the loop over a whole frame.\<close>

lemma restore_frame:
  assumes "storable en" and "malloc_ok (mem i)" and "buf_mem i"
    and "length (log node) < log_capacity (ensure_log_capacity (mem i) node)"
  shows "restore_entries e mem buf_mem i (entry_frame en @ rest) node =
    restore_entries e mem buf_mem (Suc i) rest (push_entry (mem i) en node)"
proof -
  have "take sizeof_WalEntryHeader (entry_frame en @ rest) = entry_prefix en"
    "drop sizeof_WalEntryHeader (entry_frame en @ rest) =
      le_data en @ to_be 4 (crc32 (entry_prefix en @ le_data en)) @ rest"
    by (simp_all add: entry_frame_def wal_sizes)
  moreover have "wal_entry_image e (wal_entry_read e (entry_prefix en)) = entry_prefix en"
    by (rule wal_entry.pack_unpack) (simp add: wal_sizes)
  ultimately show ?thesis
    using assms prefix_fields [OF assms(1), of e]
    by (subst restore_entries.simps)
      (simp add: Let_def wal_sizes codec_simps push_entry_def log_entry_eta)
qed

text \<open>A frame that is cut off ends the loop, whatever memory there is.\<close>

lemma restore_torn_frame:
  assumes "storable en" and "k < length (entry_frame en)"
  shows "restore_entries e mem buf_mem i (take k (entry_frame en)) node = Inr node"
proof (cases "k < sizeof_WalEntryHeader")
  case True
  then show ?thesis
    by (intro restore_short) simp
next
  case False
  define cut where "cut = take (k - 25) (le_data en @ to_be 4 (crc32 (entry_prefix en @ le_data en)))"
  have raw: "take sizeof_WalEntryHeader (take k (entry_frame en)) = entry_prefix en"
    using False by (simp add: entry_frame_def wal_sizes)
  have rest: "drop sizeof_WalEntryHeader (take k (entry_frame en)) = cut"
    using False by (simp add: cut_def entry_frame_def wal_sizes drop_take)
  have "length cut < length (le_data en) + 4"
    using assms(2) False by (simp add: cut_def length_entry_frame wal_sizes)
  then have stop: "length (take (length (le_data en)) cut) \<noteq> length (le_data en) \<or>
      length (take 4 (drop (length (le_data en)) cut)) \<noteq> 4"
    by auto
  show ?thesis
    unfolding restore_entries.simps [of e mem buf_mem i "take k (entry_frame en)" node]
      raw rest Let_def prefix_fields [OF assms(1)]
    using stop by (auto simp del: length_take length_drop)
qed

text \<open>The entries whose frames lie completely within the first \<open>k\<close> bytes.\<close>

fun whole_frames :: "nat \<Rightarrow> RaftLogEntry list \<Rightarrow> RaftLogEntry list" where
  "whole_frames k [] = []"
| "whole_frames k (en # es) =
     (if length (entry_frame en) \<le> k then en # whole_frames (k - length (entry_frame en)) es else [])"

lemma whole_frames_prefix: "prefix (whole_frames k es) es"
  by (induction k es rule: whole_frames.induct) auto

lemma whole_frames_all: "length (concat (map entry_frame es)) \<le> k \<Longrightarrow> whole_frames k es = es"
  by (induction k es rule: whole_frames.induct) auto

lemma push_entry_room:
  assumes "alloc_succeeds al" and "length (log node) \<le> log_capacity node"
  shows "length (log node) < log_capacity (ensure_log_capacity al node)"
    and "length (log (push_entry al en node)) \<le> log_capacity (push_entry al en node)"
    and "log (push_entry al en node) = log node @ [en]"
  using assms ensure_log_capacity_room [of al node]
  by (simp_all add: push_entry_def Let_def alloc_succeeds_def)

lemma push_entry_frame [simp]:
  "current_term (push_entry al en node) = current_term node"
  "voted_for (push_entry al en node) = voted_for node"
  "last_snapshot_index (push_entry al en node) = last_snapshot_index node"
  by (simp_all add: push_entry_def Let_def)

lemma restore_prefix:
  assumes "list_all storable es" and "\<And>j. alloc_succeeds (mem j)" and "\<And>j. buf_mem j"
    and "length (log node) \<le> log_capacity node"
  shows "\<exists>node'. restore_entries e mem buf_mem i (take k (concat (map entry_frame es))) node = Inr node' \<and>
      log node' = log node @ whole_frames k es \<and> current_term node' = current_term node \<and>
      voted_for node' = voted_for node \<and> last_snapshot_index node' = last_snapshot_index node \<and>
      length (log node') \<le> log_capacity node'"
  using assms
proof (induction es arbitrary: i k node)
  case Nil
  then show ?case
    by (simp add: restore_short wal_sizes)
next
  case (Cons en es)
  have st: "storable en" "list_all storable es"
    using Cons.prems(1) by simp_all
  have al: "alloc_succeeds (mem i)" "malloc_ok (mem i)" "buf_mem i"
    using Cons.prems(2) [of i] Cons.prems(3) [of i] by (auto simp: alloc_succeeds_def)
  show ?case
  proof (cases "length (entry_frame en) \<le> k")
    case True
    note room = push_entry_room [OF al(1) Cons.prems(4)]
    have "take k (concat (map entry_frame (en # es))) =
        entry_frame en @ take (k - length (entry_frame en)) (concat (map entry_frame es))"
      using True by simp
    then show ?thesis
      using Cons.IH [OF st(2) Cons.prems(2,3) room(2), of "Suc i" "k - length (entry_frame en)"] True
      by (simp add: restore_frame [where mem = mem and i = i and buf_mem = buf_mem, OF st(1) al(2,3) room(1)] room(3))
  next
    case False
    then show ?thesis
      using restore_torn_frame [OF st(1), of k e mem buf_mem i node] Cons.prems(4) by simp
  qed
qed

text \<open>The whole of \<^verbatim>\<open>raft_restore_state\<close> on the first bytes of a state file.\<close>

lemma restore_state_take:
  assumes "list_all storable (log node)" and "\<And>j. alloc_succeeds (mem j)" and "\<And>j. buf_mem j"
    and "log n0 = []" and "wf_cbuf 37 (voted_for n0)"
  shows "if k < 64 then raft_restore_state d mem buf_mem (Opened (take k (wal_bytes node))) (Some n0) = Inr (-1, Some n0)
    else \<exists>node'. raft_restore_state d mem buf_mem (Opened (take k (wal_bytes node))) (Some n0) = Inr (0, Some node') \<and>
      current_term node' = current_term node \<and> cstr (voted_for node') = take 36 (cstr (voted_for node)) \<and>
      log node' = whole_frames (k - 64) (log node) \<and> last_snapshot_index node' = last_snapshot_index n0"
proof (cases "k < 64")
  case True
  then have "length (take sizeof_WalHeader (take k (wal_bytes node))) \<noteq> sizeof_WalHeader"
    by (simp add: wal_sizes min_def)
  with True show ?thesis
    by (simp add: raft_restore_state_def Let_def)
next
  case False
  let ?n = "n0\<lparr>current_term := current_term node,
               voted_for := strncpy (voted_for n0) (strncpy (zeros 37) (voted_for node) 36) 36\<rparr>"
  have split: "take sizeof_WalHeader (take k (wal_bytes node)) = header_bytes node"
    "drop sizeof_WalHeader (take k (wal_bytes node)) = take (k - 64) (concat (map entry_frame (log node)))"
    using False by (simp_all add: wal_bytes_def wal_sizes drop_take)
  have vote: "cstr (voted_for ?n) = take 36 (cstr (voted_for node))"
    using assms(5) cstr_strncpy [of 36 "voted_for n0"] cstr_strncpy [of 36 "zeros 37"] by simp
  have cap: "length (log ?n) \<le> log_capacity ?n"
    using assms(4) by simp
  have run: "raft_restore_state d mem buf_mem (Opened (take k (wal_bytes node))) (Some n0) =
      (case restore_entries d mem buf_mem 0 (take (k - 64) (concat (map entry_frame (log node)))) ?n of
         Inl fault \<Rightarrow> Inl fault | Inr node \<Rightarrow> Inr (0, Some node))"
    unfolding raft_restore_state_def option.case open_result.case Let_def split header_fields
    by (simp add: wal_sizes)
  from restore_prefix [where mem = mem and buf_mem = buf_mem and e = d and i = 0 and k = "k - 64",
      OF assms(1-3) cap] vote assms(4) False
  show ?thesis
    unfolding run by auto
qed

section \<open>Properties of the write-ahead log\<close>

lemma cstr_vote: "wf_cbuf 37 v \<Longrightarrow> take 36 (cstr v) = cstr v"
  using length_cstr_wf [of 37 v] by simp

lemma wal_bytes_length: "length (wal_bytes node) = 64 + length (concat (map entry_frame (log node)))"
  by (simp add: wal_bytes_def)

text \<open>C3: A node that persists its state and restarts, on a machine of any byte order, has its
  term, its vote and its log back (entries below 4 GiB, memory available).\<close>

theorem wal_roundtrip:
  assumes "list_all storable (log node)" and "wf_cbuf 37 (voted_for node)"
    and "\<And>j. alloc_succeeds (mem j)" and "\<And>j. buf_mem j"
    and "log n0 = []" and "wf_cbuf 37 (voted_for n0)"
  shows "\<exists>f node'.
      raft_persist_state e True complete_writer (\<lambda>_. True) (Some node) old = (0, Some f) \<and>
      raft_restore_state d mem buf_mem (Opened f) (Some n0) = Inr (0, Some node') \<and>
      current_term node' = current_term node \<and> streq (voted_for node') (voted_for node) \<and>
      log node' = log node"
proof -
  let ?k = "length (wal_bytes node)"
  have "whole_frames (?k - 64) (log node) = log node"
    by (rule whole_frames_all) (simp add: wal_bytes_length)
  moreover have "\<not> ?k < 64"
    by (simp add: wal_bytes_length)
  ultimately show ?thesis
    using restore_state_take [where mem = mem and buf_mem = buf_mem and k = ?k and d = d, OF assms(1,3-6)]
      cstr_vote [OF assms(2)]
    by (auto simp: persist_state_complete streq_def)
qed

theorem wal_roundtrip_witness:
  "\<exists>f node'.
      raft_persist_state Little True complete_writer (\<lambda>_. True)
        (Some (sample_node 2 [entry_of 1 1, entry_of 2 2])) None = (0, Some f) \<and>
      raft_restore_state Big (\<lambda>_. memory_available) (\<lambda>_. True) (Opened f) (Some (sample_node 0 [])) =
        Inr (0, Some node') \<and>
      current_term node' = 2 \<and> log node' = [entry_of 1 1, entry_of 2 2]"
  using wal_roundtrip [of "sample_node 2 [entry_of 1 1, entry_of 2 2]" "\<lambda>_. memory_available" "\<lambda>_. True"
      "sample_node 0 []" Little None Big]
  by (auto simp: storable_def entry_of_def sample_node_def raft_init_def)



section \<open>Damaged entries\<close>

text \<open>The loop reads whole frames and goes on with whatever follows them.\<close>

lemma restore_frames:
  assumes "list_all storable es" and "\<And>j. alloc_succeeds (mem j)" and "\<And>j. buf_mem j"
    and "length (log node) \<le> log_capacity node"
  shows "\<exists>node'. restore_entries e mem buf_mem i (concat (map entry_frame es) @ rest) node =
      restore_entries e mem buf_mem (i + length es) rest node' \<and>
      log node' = log node @ es \<and> current_term node' = current_term node \<and>
      voted_for node' = voted_for node \<and> length (log node') \<le> log_capacity node'"
  using assms
proof (induction es arbitrary: i node)
  case Nil
  then show ?case by auto
next
  case (Cons en es)
  have st: "storable en" "list_all storable es"
    using Cons.prems(1) by simp_all
  have al: "alloc_succeeds (mem i)" "malloc_ok (mem i)" "buf_mem i"
    using Cons.prems(2) [of i] Cons.prems(3) [of i] by (auto simp: alloc_succeeds_def)
  note room = push_entry_room [OF al(1) Cons.prems(4)]
  show ?case
    using Cons.IH [OF st(2) Cons.prems(2,3) room(2), of "Suc i"]
    by (simp add: restore_frame [where mem = mem and i = i and buf_mem = buf_mem, OF st(1) al(2,3) room(1)] room(3))
qed

text \<open>An entry whose payload was changed on disk, under the checksum of the original.\<close>

definition damaged_frame :: "RaftLogEntry \<Rightarrow> bytes \<Rightarrow> bytes" where
  "damaged_frame en data' =
     entry_prefix en @ data' @ to_be 4 (crc32 (entry_prefix en @ le_data en))"

lemma restore_damaged:
  assumes "storable en" and "length data' = length (le_data en)"
    and "crc32 (entry_prefix en @ data') \<noteq> crc32 (entry_prefix en @ le_data en)"
    and "malloc_ok (mem i)" and "buf_mem i"
  shows "restore_entries e mem buf_mem i (damaged_frame en data' @ rest) node = Inr node"
proof -
  have split: "take sizeof_WalEntryHeader (damaged_frame en data' @ rest) = entry_prefix en"
    "drop sizeof_WalEntryHeader (damaged_frame en data' @ rest) =
      data' @ to_be 4 (crc32 (entry_prefix en @ le_data en)) @ rest"
    by (simp_all add: damaged_frame_def wal_sizes)
  have image: "wal_entry_image e (wal_entry_read e (entry_prefix en)) = entry_prefix en"
    by (rule wal_entry.pack_unpack) (simp add: wal_sizes)
  show ?thesis
    unfolding restore_entries.simps [of e mem buf_mem i "damaged_frame en data' @ rest" node]
      split image Let_def prefix_fields [OF assms(1)]
    using assms(2-) by (simp add: wal_sizes codec_simps)
qed



section \<open>Properties of snapshots\<close>

lemma filter_contiguous:
  assumes "contiguous base es" and "unat base \<le> unat idx"
  shows "filter (\<lambda>en. le_index en > idx) es = drop (unat idx - unat base) es"
  using assms
proof (induction es rule: rev_induct)
  case (snoc x es)
  then have "unat (le_index x) = unat base + 1 + length es" and "contiguous base es"
    by (simp_all add: contiguous_append)
  with snoc show ?case
    by (auto simp: word_less_nat_alt)
qed simp

lemma contiguous_drop:
  assumes "contiguous base es" and "unat idx = unat base + k"
  shows "contiguous idx (drop k es)"
  using assms by (simp add: contiguous_def)

definition compacted :: "u64 \<Rightarrow> u64 \<Rightarrow> RaftNode \<Rightarrow> RaftNode" where
  "compacted idx t node =
     node\<lparr>last_snapshot_index := idx, last_snapshot_term := t,
          log := drop (unat idx - unat (last_snapshot_index node)) (log node)\<rparr>"

lemma compacted_wf:
  assumes "wf_node node" and "last_snapshot_index node \<le> idx"
  shows "wf_node (compacted idx t node)"
  using assms contiguous_drop [OF wf_nodeD(5) [OF assms(1)], of idx "unat idx - unat (last_snapshot_index node)"]
  by (auto simp: wf_node_def compacted_def word_le_nat_alt)

lemma compacted_lookup:
  assumes "last_snapshot_index node \<le> idx"
  shows "get_log_entry (compacted idx t node) i = (if i \<le> idx then None else get_log_entry node i)"
proof (cases "i \<le> idx")
  case True
  then show ?thesis
    by (simp add: get_log_entry_eq_None log_slot_eq_None compacted_def word_le_nat_alt)
next
  case False
  let ?k = "unat i - unat idx - 1" and ?m = "unat idx - unat (last_snapshot_index node)"
  have le: "unat (last_snapshot_index node) \<le> unat idx" and lt: "unat idx < unat i"
    using assms False by (simp_all add: word_le_nat_alt)
  have "unat i = unat (last_snapshot_index (compacted idx t node)) + 1 + ?k"
    using lt by (simp add: compacted_def)
  from get_log_entry_at [OF this]
  have "get_log_entry (compacted idx t node) i =
      (if ?k < length (drop ?m (log node)) then Some (drop ?m (log node) ! ?k) else None)"
    by (simp add: compacted_def)
  moreover have "unat i = unat (last_snapshot_index node) + 1 + (?m + ?k)"
    using le lt by simp
  note get_log_entry_at [OF this]
  ultimately show ?thesis
    using False by auto
qed

lemma save_snapshot_complete:
  assumes "wf_node node" and "last_snapshot_index node \<le> idx"
  shows "raft_save_snapshot e True complete_writer (Some node) idx t data old =
    (0, Some (compacted idx t node),
     Some (to_be 4 SNAP_MAGIC @ to_be 8 idx @ to_be 8 t @ to_be 4 (of_nat (length data) :: u32) @ data))"
  using filter_contiguous [OF wf_nodeD(5) [OF assms(1)], of idx] assms(2)
  by (simp add: raft_save_snapshot_def Let_def snap_header_image_def codec_simps compacted_def word_le_nat_alt)

lemma load_snapshot_bytes:
  assumes "length data < 2 ^ 32"
  shows "raft_load_snapshot d True
      (Opened (to_be 4 SNAP_MAGIC @ to_be 8 idx @ to_be 8 t @ to_be 4 (of_nat (length data) :: u32) @ data)) (Some m) =
    (0, Some \<lparr>ls_index = idx, ls_term = t, ls_len = length data, ls_data = Some data\<rparr>)"
  using assms
  by (simp add: raft_load_snapshot_def Let_def snap_header_read_def wal_sizes field_at_def codec_simps
      unat_of_nat take_bit_nat_eq_self)

text \<open>C14: Taking a snapshot of a well-formed node writes a file from which index, term and
  data are read back on a machine of any byte order, and compacts the log: the node stays well-formed,
  its last index is unchanged, entries beyond the snapshot are found as before, entries up to
  it are gone.\<close>

theorem snapshot_roundtrip:
  assumes "wf_node node" and "last_snapshot_index node \<le> idx" and "idx \<le> last_log_index node"
    and "length data < 2 ^ 32"
  shows "\<exists>node' f.
      raft_save_snapshot e True complete_writer (Some node) idx t data old = (0, Some node', Some f) \<and>
      raft_load_snapshot d True (Opened f) (Some m) =
        (0, Some \<lparr>ls_index = idx, ls_term = t, ls_len = length data, ls_data = Some data\<rparr>) \<and>
      wf_node node' \<and> last_log_index node' = last_log_index node \<and>
      (\<forall>i. get_log_entry node' i = (if i \<le> idx then None else get_log_entry node i))"
proof -
  have wf: "wf_node (compacted idx t node)"
    by (rule compacted_wf [OF assms(1,2)])
  have "unat (last_log_index (compacted idx t node)) = unat (last_log_index node)"
    using unat_last_log_index [OF wf] unat_last_log_index [OF assms(1)] assms(2,3)
    by (simp add: compacted_def word_le_nat_alt)
  then have "last_log_index (compacted idx t node) = last_log_index node"
    by (simp add: word_unat_eq_iff)
  then show ?thesis
    using wf save_snapshot_complete [OF assms(1,2)] load_snapshot_bytes [OF assms(4)]
      compacted_lookup [OF assms(2)] by simp
qed

theorem snapshot_roundtrip_witness:
  "\<exists>node' f.
      raft_save_snapshot Little True complete_writer
        (Some (sample_node 2 [entry_of 1 1, entry_of 1 2, entry_of 2 3])) 2 1 [7, 8] None = (0, Some node', Some f) \<and>
      raft_load_snapshot Big True (Opened f) (Some (sample_node 0 [])) =
        (0, Some \<lparr>ls_index = 2, ls_term = 1, ls_len = 2, ls_data = Some [7, 8]\<rparr>) \<and> wf_node node'"
proof -
  let ?n = "sample_node 2 [entry_of 1 1, entry_of 1 2, entry_of 2 3]"
  have "wf_node ?n"
    by (rule sample_node_wf) (simp_all add: contiguous_Cons entry_of_def less_Suc_eq_0_disj)
  moreover have "2 \<le> last_log_index ?n"
    by (simp add: last_log_index_def entry_of_def)
  ultimately show ?thesis
    using snapshot_roundtrip [of ?n 2 "[7, 8]" Little 1 None Big "sample_node 0 []"] by auto
qed

text \<open>C26: The write-ahead log does not record the snapshot index: a node that has compacted
  its log and restarts finds, under index 1, the first entry behind the snapshot, and is not well-formed.\<close>

theorem restart_after_snapshot_misaligned:
  assumes "wf_node node" and "0 < last_snapshot_index node" and "log node \<noteq> []"
    and "list_all storable (log node)" and "wf_cbuf 37 (voted_for node)"
    and "\<And>j. alloc_succeeds (mem j)" and "\<And>j. buf_mem j"
    and "log n0 = []" and "wf_cbuf 37 (voted_for n0)" and "last_snapshot_index n0 = 0"
  shows "\<exists>f node'.
      raft_persist_state e True complete_writer (\<lambda>_. True) (Some node) old = (0, Some f) \<and>
      raft_restore_state d mem buf_mem (Opened f) (Some n0) = Inr (0, Some node') \<and>
      get_log_entry node' 1 = get_log_entry node (last_snapshot_index node + 1) \<and>
      get_log_entry node' 1 \<noteq> None \<and> \<not> wf_node node'"
proof -
  let ?k = "length (wal_bytes node)"
  have whole: "whole_frames (?k - 64) (log node) = log node" and k: "\<not> ?k < 64"
    by (auto simp: wal_bytes_length intro!: whole_frames_all)
  obtain node' where r: "raft_restore_state d mem buf_mem (Opened (wal_bytes node)) (Some n0) = Inr (0, Some node')"
    and lg: "log node' = log node" and base: "last_snapshot_index node' = 0"
    using restore_state_take [where mem = mem and buf_mem = buf_mem and k = ?k and d = d, OF assms(4,6-9)]
      k whole assms(10) by auto
  have "unat (last_snapshot_index node) + length (log node) < 2 ^ 64"
    by (rule contiguous_bound [OF wf_nodeD(5) [OF assms(1)]])
  moreover have len: "0 < length (log node)"
    using assms(3) by simp
  ultimately have "unat (last_snapshot_index node) + 1 < 2 ^ 64"
    by linarith
  then have next_idx: "unat (last_snapshot_index node + 1) = unat (last_snapshot_index node) + 1 + 0"
    by (simp add: unat_word_ariths)
  have one: "unat (1 :: u64) = unat (last_snapshot_index node') + 1 + 0"
    using base by simp
  have "get_log_entry node' 1 = Some (log node ! 0)"
    "get_log_entry node (last_snapshot_index node + 1) = Some (log node ! 0)"
    using get_log_entry_at [OF one] get_log_entry_at [OF next_idx] lg len by simp_all
  moreover have "unat (le_index (log node ! 0)) = unat (last_snapshot_index node) + 1"
    using wf_nodeD(5) [OF assms(1)] len by (simp add: contiguous_def)
  then have "\<not> wf_node node'"
    using assms(2) lg base len by (auto simp: wf_node_def contiguous_def word_less_nat_alt)
  ultimately show ?thesis
    using r by (simp add: persist_state_complete)
qed

theorem restart_after_snapshot_misaligned_witness:
  "\<exists>f node'.
      raft_persist_state Little True complete_writer (\<lambda>_. True)
        (Some (compacted 2 1 (sample_node 2 [entry_of 1 1, entry_of 1 2, entry_of 2 3]))) None = (0, Some f) \<and>
      raft_restore_state Little (\<lambda>_. memory_available) (\<lambda>_. True) (Opened f) (Some (sample_node 0 [])) =
        Inr (0, Some node') \<and>
      get_log_entry node' 1 \<noteq> None \<and> \<not> wf_node node'"
proof -
  let ?n = "compacted 2 1 (sample_node 2 [entry_of 1 1, entry_of 1 2, entry_of 2 3])"
  have "wf_node (sample_node 2 [entry_of 1 1, entry_of 1 2, entry_of 2 3])"
    by (rule sample_node_wf) (simp_all add: contiguous_Cons entry_of_def less_Suc_eq_0_disj)
  then have "wf_node ?n"
    by (rule compacted_wf) simp
  moreover have "log ?n = [entry_of 2 3]" "last_snapshot_index ?n = 2" "voted_for ?n = zeros 37"
    "voted_for (sample_node 0 []) = zeros 37"
    by (simp_all add: compacted_def sample_node_def raft_init_def)
  ultimately show ?thesis
    using restart_after_snapshot_misaligned [of ?n "\<lambda>_. memory_available" "\<lambda>_. True" "sample_node 0 []"
        Little None Little]
    by (auto simp: storable_def entry_of_def)
qed

end
