(* ===== verification/Raft_Commit.thy ===== *)
theory Raft_Commit
  imports Raft_Log
begin

text \<open>
  Committing and applying on one node: the loop of \<^verbatim>\<open>leader_tick\<close> that advances the commit
  index, against the rule it implements, and \<^verbatim>\<open>apply_committed_entries\<close> against the list of
  payloads it must hand to the state machine.
\<close>

section \<open>The commit rule\<close>

text \<open>An index a leader may commit: an entry of its own term that a majority holds.\<close>

definition committable :: "RaftNode \<Rightarrow> u64 \<Rightarrow> bool" where
  "committable node i \<longleftrightarrow>
     term_at_index node i = current_term node \<and>
     unat (replicas node i) > (length (peers node) + 1) div 2"

lemma commit_step_eq:
  "commit_step n node = (if committable node n then node\<lparr>commit_index := n\<rparr> else node)"
  by (simp add: commit_step_def committable_def)

lemma commit_index_frame [simp]:
  "last_log_index (node\<lparr>commit_index := c\<rparr>) = last_log_index node"
  "committable (node\<lparr>commit_index := c\<rparr>) i = committable node i"
  using log_view [of "node\<lparr>commit_index := c\<rparr>" node]
  by (simp_all add: committable_def replicas_def)

lemma unat_replicas:
  assumes "length (peers node) + 1 < 2 ^ 32"
  shows "unat (replicas node i) = 1 + length (filter (\<lambda>p. match_index p \<ge> i) (peers node))"
proof -
  have "length (filter (\<lambda>p. match_index p \<ge> i) (peers node)) \<le> length (peers node)"
    by simp
  with assms have "1 + length (filter (\<lambda>p. match_index p \<ge> i) (peers node)) < 2 ^ 32"
    by linarith
  moreover have "replicas node i = of_nat (1 + length (filter (\<lambda>p. match_index p \<ge> i) (peers node)))"
    by (simp add: replicas_def)
  ultimately show ?thesis
    by (simp only: unat_of_nat_32)
qed

definition commit_bound :: "RaftNode \<Rightarrow> u64 \<Rightarrow> u64 \<Rightarrow> bool" where
  "commit_bound node n c \<longleftrightarrow>
     (c = commit_index node \<or> n \<le> c \<and> c \<le> last_log_index node \<and> committable node c) \<and>
     (\<forall>i. n \<le> i \<and> i \<le> last_log_index node \<and> committable node i \<longrightarrow> i \<le> c)"

lemma commit_loop_bound:
  assumes "last_log_index node \<noteq> - 1" and "commit_index node < n"
  shows "\<exists>c. commit_loop n node = Some (node\<lparr>commit_index := c\<rparr>) \<and> commit_bound node n c"
  using assms
proof (induction "unat (last_log_index node) + 1 - unat n" arbitrary: n node rule: less_induct)
  case less
  let ?last = "last_log_index node"
  show ?case
  proof (cases "n \<le> ?last")
    case False
    then show ?thesis
      by (subst commit_loop.simps) (auto simp: commit_bound_def intro!: exI [of _ "commit_index node"])
  next
    case True
    let ?node = "commit_step n node"
    have "n < - 1"
      using True less.prems(1) by (metis le_less_trans word_order.not_eq_extremum)
    then have n1: "unat (n + 1) = unat n + 1"
      by (rule unat_plus_one_less)
    then have up: "n < n + 1"
      by (simp add: word_less_nat_alt)
    have step: "?node = node\<lparr>commit_index := commit_index ?node\<rparr>" "commit_index ?node \<le> n"
      using less.prems(2) by (auto simp: commit_step_eq)
    have last: "last_log_index ?node = ?last" and com: "\<And>i. committable ?node i = committable node i"
      by (simp_all add: commit_step_eq)
    have "commit_index ?node < n + 1"
      using step(2) up by simp
    then have "\<exists>c. commit_loop (n + 1) ?node = Some (?node\<lparr>commit_index := c\<rparr>) \<and> commit_bound ?node (n + 1) c"
      using less.hyps [of ?node "n + 1"] less.prems(1) True last n1
      by (simp add: word_le_nat_alt)
    then obtain c where c: "commit_loop (n + 1) ?node = Some (?node\<lparr>commit_index := c\<rparr>)"
      and b: "commit_bound ?node (n + 1) c" by blast
    have "commit_bound node n c"
      using b less.prems(2) True up unfolding commit_bound_def last com
      by (auto simp: commit_step_eq split: if_splits)
        (metis dual_order.strict_trans1 inc_le leD linorder_le_less_linear nless_le order_less_imp_le)+
    moreover have "?node\<lparr>commit_index := c\<rparr> = node\<lparr>commit_index := c\<rparr>"
      by (simp add: commit_step_eq)
    ultimately show ?thesis
      using c True by (subst commit_loop.simps) auto
  qed
qed


definition leader_of_two :: RaftNode where
  "leader_of_two = (sample_node 2 [entry_of 1 1, entry_of 2 2, entry_of 2 3])
     \<lparr>state := RAFT_STATE_LEADER, peer_capacity := 8,
      peers := [\<lparr>peer_node_id = strncpy (zeros 37) [110, 50] 36, peer_ip_address = zeros 46, peer_port = 9000,
                 next_index = 4, match_index = 2, last_contact_ms = 0, inflight_rpcs = 0,
                 vote_granted = True\<rparr>]\<rparr>"


section \<open>When the loop returns\<close>

lemma commit_loop_Some:
  assumes "commit_loop n node = Some node'"
  shows "last_log_index node \<noteq> - 1"
proof (rule commit_loop.raw_induct [where P = "\<lambda>n node node'. last_log_index node \<noteq> - 1", OF _ assms])
  fix loop n node node'
  assume "\<And>n node node'. loop n node = Some node' \<Longrightarrow> last_log_index node \<noteq> - 1"
    and "(if n \<le> last_log_index node then loop (n + 1) (commit_step n node) else Some node) = Some node'"
  then show "last_log_index node \<noteq> - 1"
    using word_n1_ge [of n] by (fastforce simp: commit_step_eq split: if_splits)
qed

text \<open>C18: The commit loop returns exactly when the last index is not the largest 64-bit
  number: its counter wraps around otherwise and the loop runs for ever.\<close>

theorem commit_loop_returns_iff:
  "commit_index node \<le> last_log_index node \<Longrightarrow>
     (\<exists>node'. commit_loop (commit_index node + 1) node = Some node') \<longleftrightarrow> last_log_index node \<noteq> - 1"
proof
  assume "commit_index node \<le> last_log_index node"
    and last: "last_log_index node \<noteq> - 1"
  then have lt: "commit_index node < - 1"
    by (metis le_less_trans word_order.not_eq_extremum)
  then have "commit_index node < commit_index node + 1"
    using unat_plus_one_less [OF lt] by (simp add: word_less_nat_alt)
  from commit_loop_bound [OF last this]
  show "\<exists>node'. commit_loop (commit_index node + 1) node = Some node'" by blast
qed (use commit_loop_Some in blast)

theorem commit_loop_returns_iff_witness:
  "commit_loop (commit_index (sample_node 1 [entry_of 1 (- 1)]) + 1) (sample_node 1 [entry_of 1 (- 1)]) = None"
  using commit_loop_returns_iff [of "sample_node 1 [entry_of 1 (- 1)]"]
  by (simp add: last_log_index_def entry_of_def)

section \<open>Applying committed entries\<close>

definition apply_data :: "'w callbacks \<Rightarrow> bytes \<Rightarrow> 'w \<Rightarrow> 'w" where
  "apply_data cb data w = (case cb_apply cb of None \<Rightarrow> w | Some f \<Rightarrow> f data w)"

text \<open>The payloads behind the last applied index, up to the commit index.\<close>

definition to_apply :: "RaftNode \<Rightarrow> bytes list" where
  "to_apply node =
     map le_data (take (unat (commit_index node) - unat (last_applied node))
       (drop (unat (last_applied node) - unat (last_snapshot_index node)) (log node)))"

lemma apply_run:
  assumes "wf_node node" and "last_snapshot_index node \<le> last_applied node"
    and "last_applied node \<le> commit_index node" and "commit_index node \<le> last_log_index node"
  shows "apply_committed_entries cb (node, w) =
    (node\<lparr>last_applied := commit_index node\<rparr>, fold (apply_data cb) (to_apply node) w)"
  using assms
proof (induction cb "(node, w)" arbitrary: node w rule: apply_committed_entries.induct)
  case (1 cb node w)
  show ?case
  proof (cases "last_applied node < commit_index node")
    case False
    with "1.prems"(3) have "last_applied node = commit_index node" by simp
    then show ?thesis
      by (subst apply_committed_entries.simps) (simp add: to_apply_def)
  next
    case True
    let ?n = "node\<lparr>last_applied := last_applied node + 1\<rparr>"
    let ?k = "unat (last_applied node) - unat (last_snapshot_index node)"
    have n1: "unat (last_applied node + 1) = unat (last_applied node) + 1"
      using True by (rule unat_plus_one_less)
    have len: "?k < length (log node)"
      using True "1.prems"(2,4) unat_last_log_index [OF "1.prems"(1)]
      by (simp add: word_less_nat_alt word_le_nat_alt)
    have "unat (last_applied node + 1) = unat (last_snapshot_index ?n) + 1 + ?k"
      using n1 "1.prems"(2) by (simp add: word_le_nat_alt)
    from get_log_entry_at [OF this]
    have entry: "get_log_entry ?n (last_applied ?n) = Some (log node ! ?k)"
      using len by simp
    have prems: "wf_node ?n" "last_snapshot_index ?n \<le> last_applied ?n" "last_applied ?n \<le> commit_index ?n"
      "commit_index ?n \<le> last_log_index ?n"
      using "1.prems" True n1 log_view(3) [of ?n node]
      by (simp_all add: wf_node_def word_le_nat_alt word_less_nat_alt)
    have "to_apply node = le_data (log node ! ?k) # to_apply ?n"
      using len True n1 "1.prems"(2)
      by (simp add: to_apply_def Cons_nth_drop_Suc [symmetric] word_less_nat_alt word_le_nat_alt
          Suc_diff_Suc take_Cons' Suc_diff_le)
    then show ?thesis
      using "1.hyps" [OF True refl entry prems] entry True
      by (subst apply_committed_entries.simps) (simp add: apply_data_def)
  qed
qed

text \<open>C15: On a well-formed node whose indices are in order, the committed entries are
  handed to the state machine exactly once each and in log order, and the last applied
  index catches up with the commit index.\<close>

theorem apply_in_order:
  assumes "wf_node node" and "last_snapshot_index node \<le> last_applied node"
    and "last_applied node \<le> commit_index node" and "commit_index node \<le> last_log_index node"
  shows "apply_committed_entries cb (node, w) =
    (node\<lparr>last_applied := commit_index node\<rparr>, fold (apply_data cb) (to_apply node) w)"
  using assms by (rule apply_run)

theorem apply_in_order_witness:
  "snd (apply_committed_entries
      \<lparr>cb_apply = Some (\<lambda>d w. w @ [d]), cb_persist = None, cb_send_rpc = None\<rparr>
      ((sample_node 2 [entry_of 1 1, entry_of 1 2, entry_of 2 3])\<lparr>commit_index := 3, last_applied := 1\<rparr>, [])) =
    [[1, 2], [2, 3]]"
proof -
  let ?n = "(sample_node 2 [entry_of 1 1, entry_of 1 2, entry_of 2 3])\<lparr>commit_index := 3, last_applied := 1\<rparr>"
  let ?cb = "\<lparr>cb_apply = Some (\<lambda>d w. w @ [d]), cb_persist = None, cb_send_rpc = None\<rparr> :: bytes list callbacks"
  have "wf_node (sample_node 2 [entry_of 1 1, entry_of 1 2, entry_of 2 3])"
    by (rule sample_node_wf) (simp_all add: contiguous_Cons entry_of_def less_Suc_eq_0_disj)
  then have "wf_node ?n"
    by (simp add: wf_node_def)
  moreover have "last_log_index ?n = 3"
    by (simp add: last_log_index_def entry_of_def)
  ultimately have "snd (apply_committed_entries ?cb (?n, [])) = fold (apply_data ?cb) (to_apply ?n) []"
    using apply_in_order [of ?n ?cb "[]"] by simp
  also have "\<dots> = [[1, 2], [2, 3]]"
    by (simp add: to_apply_def apply_data_def entry_of_def)
  finally show ?thesis .
qed

end
