(* ===== verification/Raft_Vote.thy ===== *)
theory Raft_Vote
  imports Raft_Log
begin

text \<open>
  Elections as one node sees them: when a vote is granted, that a node votes once per term, what
  a candidate does with the answers, and when elections start.
\<close>

section \<open>Granting votes\<close>

text \<open>When \<^verbatim>\<open>raft_handle_request_vote\<close> says yes.\<close>

definition may_vote_for :: "RaftNode \<Rightarrow> RaftRequestVoteReq \<Rightarrow> bool" where
  "may_vote_for node req \<longleftrightarrow>
     current_term node \<le> rv_term req \<and>
     (last_log_term node < rv_last_log_term req \<or>
      last_log_term node = rv_last_log_term req \<and> last_log_index node \<le> rv_last_log_index req) \<and>
     (current_term node < rv_term req \<or> cstr (voted_for node) = [] \<or>
      cstr (voted_for node) = cstr (rv_candidate_id req))"

lemma may_vote_for_iff:
  "may_vote_for node req \<longleftrightarrow>
     current_term node \<le> rv_term req \<and> log_up_to_date node req \<and>
     (current_term node < rv_term req \<or> cstr (voted_for node) = [] \<or>
      cstr (voted_for node) = cstr (rv_candidate_id req))"
  by (auto simp: may_vote_for_def log_up_to_date_def)

text \<open>The node after a vote request: the term is adopted first, then the vote recorded.\<close>

definition after_vote_request :: "u64 \<Rightarrow> RaftRequestVoteReq \<Rightarrow> RaftNode \<Rightarrow> RaftNode" where
  "after_vote_request now req node =
     (let node' = (if rv_term req > current_term node
                   then node\<lparr>state := RAFT_STATE_FOLLOWER, current_term := rv_term req,
                             voted_for := zeros 37, leader_id := zeros 37, votes_received := 0\<rparr>
                   else node)
      in if may_vote_for node req
         then node'\<lparr>voted_for := strncpy (voted_for node') (rv_candidate_id req) 36, last_heartbeat_ms := now\<rparr>
         else node')"

lemma after_vote_request_term:
  "current_term (after_vote_request now req node) = max (current_term node) (rv_term req)"
  by (auto simp: after_vote_request_def Let_def max_def)

lemma log_up_to_date_view:
  "log a = log b \<Longrightarrow> last_snapshot_index a = last_snapshot_index b \<Longrightarrow>
     last_snapshot_term a = last_snapshot_term b \<Longrightarrow> log_up_to_date a req = log_up_to_date b req"
  using log_view [of a b] by (simp add: log_up_to_date_def)

lemma strlen_pos: "0 < strlen b \<longleftrightarrow> cstr b \<noteq> []"
  by (simp add: strlen_def)

lemma request_vote_run:
  "\<exists>w'. raft_handle_request_vote cb now req (node, w) =
     (\<lparr>rvr_term = current_term node, rvr_vote_granted = (if may_vote_for node req then 1 else 0)\<rparr>,
      after_vote_request now req node, w') \<and>
     (may_vote_for node req \<longrightarrow>
       (\<exists>w1. w' = persist_state cb
          (after_vote_request now req node\<lparr>last_heartbeat_ms := last_heartbeat_ms node\<rparr>) w1))"
proof (cases "rv_term req > current_term node")
  case True
  let ?n = "node\<lparr>state := RAFT_STATE_FOLLOWER, current_term := rv_term req,
                 voted_for := zeros 37, leader_id := zeros 37, votes_received := 0\<rparr>"
  have "log_up_to_date ?n req = log_up_to_date node req"
    by (rule log_up_to_date_view) simp_all
  with True show ?thesis
    by (auto simp: raft_handle_request_vote_def become_follower_def Let_def may_vote_for_iff
        after_vote_request_def strlen_pos streq_def)
next
  case False
  then show ?thesis
    by (cases "rv_term req = current_term node")
      (auto simp: raft_handle_request_vote_def Let_def may_vote_for_iff after_vote_request_def
        strlen_pos streq_def)
qed



section \<open>One vote per term\<close>

text \<open>A node that answers a sequence of vote requests, each at its own time.\<close>

fun handle_votes ::
  "'w callbacks \<Rightarrow> (u64 \<times> RaftRequestVoteReq) list \<Rightarrow> RaftNode \<times> 'w \<Rightarrow> RaftRequestVoteResp list \<times> RaftNode \<times> 'w" where
  "handle_votes cb [] s = ([], s)"
| "handle_votes cb ((now, req) # reqs) s =
     (let (resp, s) = raft_handle_request_vote cb now req s;
          (resps, s) = handle_votes cb reqs s
      in (resp # resps, s))"

text \<open>The node is past term \<open>t\<close>, or in it with a vote for \<open>c\<close>.\<close>

definition bound_to :: "u64 \<Rightarrow> bytes \<Rightarrow> RaftNode \<Rightarrow> bool" where
  "bound_to t c node \<longleftrightarrow>
     t < current_term node \<or> t = current_term node \<and> cstr (voted_for node) = c \<and> c \<noteq> []"

lemma after_vote_request_wf:
  "wf_cbuf 37 (voted_for node) \<Longrightarrow> wf_cbuf 37 (voted_for (after_vote_request now req node))"
  using strncpy_wf [of 36] by (simp add: after_vote_request_def Let_def)

lemma cstr_after_vote:
  "wf_cbuf 37 (voted_for node) \<Longrightarrow> may_vote_for node req \<Longrightarrow>
     cstr (voted_for (after_vote_request now req node)) = take 36 (cstr (rv_candidate_id req))"
  using cstr_strncpy [of 36 "voted_for node"] cstr_strncpy [of 36 "zeros 37"]
  by (simp add: after_vote_request_def Let_def)

lemma grant_binds:
  assumes "wf_cbuf 37 (voted_for node)" and "may_vote_for node req" and "cstr (rv_candidate_id req) \<noteq> []"
  shows "bound_to (rv_term req) (take 36 (cstr (rv_candidate_id req))) (after_vote_request now req node)"
  using assms cstr_after_vote [OF assms(1,2)]
  by (auto simp: bound_to_def may_vote_for_iff after_vote_request_def Let_def)

lemma bound_to_step:
  assumes "wf_cbuf 37 (voted_for node)" and "bound_to t c node"
  shows "bound_to t c (after_vote_request now req node)"
    and "may_vote_for node req \<Longrightarrow> rv_term req = t \<Longrightarrow> take 36 (cstr (rv_candidate_id req)) = c"
proof -
  have same: "take 36 (cstr (rv_candidate_id req)) = c"
    if "may_vote_for node req" "rv_term req = t"
  proof -
    have "cstr (voted_for node) = c" "cstr (rv_candidate_id req) = c"
      using that assms(2) by (auto simp: may_vote_for_iff bound_to_def)
    with length_cstr_wf [OF assms(1)] show ?thesis by simp
  qed
  then show "may_vote_for node req \<Longrightarrow> rv_term req = t \<Longrightarrow> take 36 (cstr (rv_candidate_id req)) = c" .
  show "bound_to t c (after_vote_request now req node)"
  proof (cases "may_vote_for node req \<and> rv_term req = t")
    case True
    then have "cstr (voted_for (after_vote_request now req node)) = c" "current_term node = t"
      using same cstr_after_vote [OF assms(1), of req now] assms(2)
      by (auto simp: bound_to_def may_vote_for_iff)
    then show ?thesis
      using True assms(2) by (simp add: bound_to_def after_vote_request_term)
  next
    case False
    then show ?thesis
      using assms(2) by (auto simp: bound_to_def after_vote_request_def Let_def may_vote_for_iff)
  qed
qed

lemma handle_votes_ConsE:
  assumes "handle_votes cb ((now, req) # reqs) (node, w) = (resps, s)"
  obtains w' resps' where "handle_votes cb reqs (after_vote_request now req node, w') = (resps', s)"
    and "resps = \<lparr>rvr_term = current_term node,
                   rvr_vote_granted = (if may_vote_for node req then 1 else 0)\<rparr> # resps'"
proof -
  obtain w' where "raft_handle_request_vote cb now req (node, w) =
     (\<lparr>rvr_term = current_term node, rvr_vote_granted = (if may_vote_for node req then 1 else 0)\<rparr>,
      after_vote_request now req node, w')"
    using request_vote_run [of cb now req node w] by blast
  with assms that show thesis
    by (cases "handle_votes cb reqs (after_vote_request now req node, w')") auto
qed

lemma handle_votes_bound:
  assumes "handle_votes cb reqs (node, w) = (resps, s)" and "wf_cbuf 37 (voted_for node)" and "bound_to t c node"
    and "j < length reqs" and "rvr_vote_granted (resps ! j) = 1" and "rv_term (snd (reqs ! j)) = t"
  shows "take 36 (cstr (rv_candidate_id (snd (reqs ! j)))) = c"
  using assms
proof (induction reqs arbitrary: node w resps s j)
  case (Cons r reqs)
  obtain now req where r: "r = (now, req)" by force
  obtain w' resps' where rest: "handle_votes cb reqs (after_vote_request now req node, w') = (resps', s)"
    and resps: "resps = \<lparr>rvr_term = current_term node,
                          rvr_vote_granted = (if may_vote_for node req then 1 else 0)\<rparr> # resps'"
    using Cons.prems(1) unfolding r by (rule handle_votes_ConsE)
  note step = bound_to_step [OF Cons.prems(2,3), where req = req]
  show ?case
  proof (cases j)
    case 0
    with Cons.prems(5,6) resps r step(2) show ?thesis by (auto split: if_splits)
  next
    case (Suc k)
    with Cons.prems(4-6) resps show ?thesis
      using Cons.IH [OF rest after_vote_request_wf [OF Cons.prems(2)] step(1), of k] by simp
  qed
qed simp

lemma handle_votes_once:
  assumes "handle_votes cb reqs (node, w) = (resps, s)" and "wf_cbuf 37 (voted_for node)"
    and "\<forall>r \<in> set reqs. cstr (rv_candidate_id (snd r)) \<noteq> []"
    and "i < j" and "j < length reqs" and "rvr_vote_granted (resps ! i) = 1" and "rvr_vote_granted (resps ! j) = 1"
    and "rv_term (snd (reqs ! i)) = rv_term (snd (reqs ! j))"
  shows "take 36 (cstr (rv_candidate_id (snd (reqs ! i)))) = take 36 (cstr (rv_candidate_id (snd (reqs ! j))))"
  using assms
proof (induction reqs arbitrary: node w resps s i j)
  case (Cons r reqs)
  obtain now req where r: "r = (now, req)" by force
  obtain w' resps' where rest: "handle_votes cb reqs (after_vote_request now req node, w') = (resps', s)"
    and resps: "resps = \<lparr>rvr_term = current_term node,
                          rvr_vote_granted = (if may_vote_for node req then 1 else 0)\<rparr> # resps'"
    using Cons.prems(1) unfolding r by (rule handle_votes_ConsE)
  have wf: "wf_cbuf 37 (voted_for (after_vote_request now req node))"
    by (rule after_vote_request_wf [OF Cons.prems(2)])
  obtain k where j: "j = Suc k"
    using Cons.prems(4) by (cases j) auto
  show ?case
  proof (cases i)
    case 0
    with Cons.prems(6) resps have "may_vote_for node req" by (auto split: if_splits)
    from grant_binds [OF Cons.prems(2) this] Cons.prems(3) r
    have "bound_to (rv_term req) (take 36 (cstr (rv_candidate_id req))) (after_vote_request now req node)" by simp
    from handle_votes_bound [OF rest wf this, of k] Cons.prems(5-8) 0 j r resps show ?thesis by simp
  next
    case (Suc l)
    with Cons.prems j resps show ?thesis
      using Cons.IH [OF rest wf _ _ _ _ _ , of l k] by simp
  qed
qed simp


definition ballot :: "u64 \<Rightarrow> u8 \<Rightarrow> RaftRequestVoteReq" where
  "ballot t c = \<lparr>rv_term = t, rv_candidate_id = [c], rv_last_log_index = 9, rv_last_log_term = 9\<rparr>"


section \<open>Counting votes\<close>

text \<open>The new leader's node: every peer starts at the end of the log, which gains a no-op entry.\<close>

definition leader_node :: "nat \<Rightarrow> RaftNode \<Rightarrow> RaftNode" where
  "leader_node cap node =
     node\<lparr>state := RAFT_STATE_LEADER,
          leader_id := strncpy (leader_id node) (node_id node) 36,
          peers := map (\<lambda>p. p\<lparr>next_index := last_log_index node + 1, match_index := 0, inflight_rpcs := 0\<rparr>)
            (peers node),
          log_capacity := cap,
          log := log node @ [\<lparr>le_term = current_term node, le_index = last_log_index node + 1,
                              le_data = [0], le_entry_type = 0\<rparr>],
          last_heartbeat_ms := 0\<rparr>"

lemma become_leader_run:
  assumes "alloc_succeeds al" and "length (log node) \<le> log_capacity node"
  shows "\<exists>cap w'. become_leader cb al (node, w) = (leader_node cap node, w') \<and>
    length (log (leader_node cap node)) \<le> cap"
proof -
  let ?n = "node\<lparr>state := RAFT_STATE_LEADER,
                 leader_id := strncpy (leader_id node) (node_id node) 36,
                 peers := map (\<lambda>p. p\<lparr>next_index := last_log_index node + 1, match_index := 0,
                                     inflight_rpcs := 0\<rparr>) (peers node)\<rparr>"
  define c where "c = log_capacity (ensure_log_capacity al ?n)"
  have grow: "ensure_log_capacity al ?n = ?n\<lparr>log_capacity := c\<rparr>"
    unfolding c_def by (subst ensure_log_capacity_with_log) (simp add: with_log_def)
  have room: "length (log node) < c"
    using ensure_log_capacity_room [of al ?n] assms by (simp add: c_def alloc_succeeds_def)
  have "last_log_index ?n = last_log_index node" "last_log_index (?n\<lparr>log_capacity := c\<rparr>) = last_log_index node"
    by (simp_all add: last_log_index_def)
  then show ?thesis
    using assms(1) grow room
    by (intro exI [of _ c])
      (simp add: become_leader_def raft_submit_def Let_def leader_node_def alloc_succeeds_def)
qed


definition candidate_of_three :: RaftNode where
  "candidate_of_three = (sample_node 2 [entry_of 1 1])
     \<lparr>state := RAFT_STATE_CANDIDATE, votes_received := 1, peer_capacity := 8,
      peers := map (\<lambda>c. \<lparr>peer_node_id = strncpy (zeros 37) [110, c] 36, peer_ip_address = zeros 46, peer_port = 9000,
                         next_index = 0, match_index = 0, last_contact_ms = 0, inflight_rpcs = 0,
                         vote_granted = False\<rparr>) [50, 51]\<rparr>"


text \<open>C25: A vote granted by a node that was in a lower term is lost: the answer carries the
  term the voter had before the request, and the candidate drops answers of lower terms.\<close>

theorem late_voter_ignored:
  assumes "current_term voter < rv_term req" and "rv_term req \<le> current_term cand"
    and "raft_handle_request_vote cb now req (voter, w) = (resp, voter', w')"
  shows "raft_handle_request_vote_response cb' al peer_id resp (cand, w2) = (cand, w2)"
  using assms request_vote_run [of cb now req voter w]
  by (auto simp: raft_handle_request_vote_response_def)

theorem late_voter_ignored_witness:
  "\<exists>resp voter' w'. raft_handle_request_vote no_callbacks 5 (ballot 3 99) (sample_node 2 [], ()) = (resp, voter', w') \<and>
     raft_handle_request_vote_response no_callbacks memory_available [110] resp (sample_node 3 [], ()) = (sample_node 3 [], ())"
proof -
  obtain resp voter' w' where r: "raft_handle_request_vote no_callbacks 5 (ballot 3 99) (sample_node 2 [], ()) = (resp, voter', w')"
    by (metis prod_cases3)
  with late_voter_ignored [OF _ _ r, of "sample_node 3 []" no_callbacks memory_available "[110]" "()"] show ?thesis
    by (auto simp: ballot_def)
qed

section \<open>Starting elections\<close>

lemma random_election_timeout_bounds:
  "150 \<le> random_election_timeout rnd \<and> random_election_timeout rnd < 300"
proof -
  have "rnd mod 150 < 150" by simp
  then have "unat (of_nat (rnd mod 150) :: u64) < 150"
    by (simp add: unat_of_nat_64)
  moreover have "random_election_timeout rnd = 150 + of_nat (rnd mod 150)"
    by (simp add: random_election_timeout_def RAFT_ELECTION_TIMEOUT_MIN_MS_def RAFT_ELECTION_TIMEOUT_MAX_MS_def)
  ultimately show ?thesis
    by (simp add: word_le_nat_alt word_less_nat_alt unat_word_ariths)
qed

text \<open>The election timeout is drawn from 150 to 299 milliseconds.\<close>

lemma election_timeout_range:
  "150 \<le> random_election_timeout rnd \<and> random_election_timeout rnd < 300"
  by (rule random_election_timeout_bounds)

text \<open>A transport that only queues requests: the node is not touched while it sends.\<close>

definition queues_requests :: "'w callbacks \<Rightarrow> (bytes \<Rightarrow> raft_request \<Rightarrow> 'w \<Rightarrow> 'w) \<Rightarrow> bool" where
  "queues_requests cb send \<longleftrightarrow> cb_send_rpc cb = Some (\<lambda>p r (node, w). (node, send p r w))"

lemma fold_frame:
  assumes "\<And>i w. i \<in> set is \<Longrightarrow> f i (node, w) = (node, h i w)"
  shows "fold f is (node, w) = (node, fold h is w)"
  using assms by (induction "is" arbitrary: w) simp_all

lemma fold_positions: "fold (\<lambda>i. g (xs ! i)) [0..<length xs] w = fold g xs w"
proof -
  have "fold (\<lambda>i. g (xs ! i)) [0..<length xs] w = fold g (map ((!) xs) [0..<length xs]) w"
    by (simp add: fold_map comp_def)
  then show ?thesis by (simp add: map_nth)
qed

lemma become_candidate_queued:
  assumes "queues_requests cb send"
  shows "become_candidate cb now rnd (node, w) =
    (let node' = start_candidacy now rnd node
     in (node', fold (\<lambda>p. send (peer_node_id p) (RequestVote (candidate_request node'))) (peers node')
           (persist_state cb node' w)))"
  unfolding become_candidate_def Let_def split
  by (subst fold_frame [where h = "\<lambda>i. send (peer_node_id (peers (start_candidacy now rnd node) ! i))
        (RequestVote (candidate_request (start_candidacy now rnd node)))"])
    (use assms in \<open>auto simp: request_vote_from_def send_rpc_def queues_requests_def
      fold_positions [where g = "\<lambda>p. send (peer_node_id p) (RequestVote (candidate_request (start_candidacy now rnd node)))"]\<close>)

text \<open>C17: A follower or candidate whose election timeout has passed enters the next term as a
  candidate with its own vote, saves that before any request leaves, and asks every peer once, in order;
  before the timeout the node does nothing.\<close>

theorem election_start:
  assumes "queues_requests cb send"
  shows "follower_candidate_tick cb now now' rnd (node, w) =
    (if now - last_heartbeat_ms node < election_timeout_ms node then (node, w)
     else let node' = start_candidacy now' rnd node
          in (node', fold (\<lambda>p. send (peer_node_id p) (RequestVote (candidate_request node'))) (peers node)
                (persist_state cb node' w))) \<and>
    state (start_candidacy now' rnd node) = RAFT_STATE_CANDIDATE \<and>
    current_term (start_candidacy now' rnd node) = current_term node + 1 \<and>
    rv_term (candidate_request (start_candidacy now' rnd node)) = current_term node + 1"
proof -
  have "fold (\<lambda>p. send (peer_node_id p) r) (map (\<lambda>p. p\<lparr>vote_granted := False\<rparr>) ps) w2 =
      fold (\<lambda>p. send (peer_node_id p) r) ps w2" for r w2 and ps :: "RaftPeer list"
    by (simp add: fold_map comp_def)
  then show ?thesis
    by (simp add: follower_candidate_tick_def become_candidate_queued [OF assms] Let_def
        start_candidacy_def candidate_request_def not_le [symmetric] del: not_le)
qed

theorem election_start_witness:
  "follower_candidate_tick \<lparr>cb_apply = None, cb_persist = None,
       cb_send_rpc = Some (\<lambda>p r (node, w). (node, w @ [cstr p]))\<rparr> 1000 1001 7 (candidate_of_three, []) =
     (start_candidacy 1001 7 candidate_of_three, [[110, 50], [110, 51]])"
proof -
  let ?cb = "\<lparr>cb_apply = None, cb_persist = None,
       cb_send_rpc = Some (\<lambda>p r (node, w). (node, w @ [cstr p]))\<rparr> :: bytes list callbacks"
  have "queues_requests ?cb (\<lambda>p r w. w @ [cstr p])"
    by (simp add: queues_requests_def)
  moreover have "\<not> (1000 - last_heartbeat_ms candidate_of_three < election_timeout_ms candidate_of_three)"
    "map (cstr o peer_node_id) (peers candidate_of_three) = [[110, 50], [110, 51]]"
    by code_simp+
  ultimately show ?thesis
    using election_start [of ?cb "\<lambda>p r w. w @ [cstr p]" 1000 1001 7 candidate_of_three "[]"]
    by (simp add: Let_def persist_state_def) (auto simp: candidate_of_three_def)
qed



end
