(* ===== verification/Election.thy ===== *)
theory Election
  imports Raft_Core
begin

text \<open>
  What an election promises, apart from logs, clocks and messages: voters move between the three roles, ask for votes, grant one vote
  in a term, count, win and lead, and may stop and start again with their term and their vote. The histories of what was asked, granted, won and
  led are part of the state. In one term at most one node ever wins. \<^verbatim>\<open>Raft_Election\<close> shows that nodes of the program behave like this.
\<close>

section \<open>Simulations\<close>

text \<open>Steps of a detailed system that match runs of an abstract one, whose invariant may be used.\<close>

locale forward_simulation =
  fixes detailed :: "'c \<Rightarrow> 'c \<Rightarrow> bool" and abstract :: "'e \<Rightarrow> 'e \<Rightarrow> bool"
    and rel :: "'c \<Rightarrow> 'e \<Rightarrow> bool" and inv :: "'e \<Rightarrow> bool"
  assumes matched: "detailed c c' \<Longrightarrow> rel c e \<Longrightarrow> inv e \<Longrightarrow> \<exists>e'. abstract\<^sup>*\<^sup>* e e' \<and> rel c' e'"
    and inv_kept: "abstract e e' \<Longrightarrow> inv e \<Longrightarrow> inv e'"
begin

lemma inv_run: "abstract\<^sup>*\<^sup>* e e' \<Longrightarrow> inv e \<Longrightarrow> inv e'"
  by (induction rule: rtranclp_induct) (auto intro: inv_kept)

lemma run_matched:
  assumes "detailed\<^sup>*\<^sup>* c c'" and "rel c e" and "inv e"
  shows "\<exists>e'. abstract\<^sup>*\<^sup>* e e' \<and> rel c' e' \<and> inv e'"
  using assms(1)
proof (induction rule: rtranclp_induct)
  case base
  then show ?case
    using assms(2,3) by blast
next
  case (step c1 c2)
  then obtain e1 where e1: "abstract\<^sup>*\<^sup>* e e1" "rel c1 e1" "inv e1"
    by blast
  then obtain e2 where "abstract\<^sup>*\<^sup>* e1 e2" "rel c2 e2"
    using matched [OF step(2)] by blast
  then show ?case
    using e1 inv_run rtranclp_trans by metis
qed

end

section \<open>The protocol\<close>

record voter =
  v_role :: RaftState
  v_term :: u64
  v_choice :: "nat option"
  v_tally :: "nat set"

record election =
  voters :: "nat \<Rightarrow> voter"
  asked :: "(nat \<times> u64) set"
  granted :: "(nat \<times> u64 \<times> nat) set"
  won :: "(nat \<times> u64) set"
  led :: "(nat \<times> u64 \<times> nat) set"

definition set_voter :: "nat \<Rightarrow> voter \<Rightarrow> election \<Rightarrow> election" where
  "set_voter i v e = e\<lparr>voters := (voters e)(i := v)\<rparr>"

text \<open>A node that stood in a term and leads in it may be told to follow by a leader of that term; its vote is forgotten then.\<close>

inductive election_step :: "nat \<Rightarrow> election \<Rightarrow> election \<Rightarrow> bool" for N where
  stand: "i < N \<Longrightarrow> v_role (voters e i) \<noteq> RAFT_STATE_LEADER \<Longrightarrow> v_term (voters e i) < t \<Longrightarrow>
     election_step N e
       (set_voter i \<lparr>v_role = RAFT_STATE_CANDIDATE, v_term = t, v_choice = Some i, v_tally = {}\<rparr>
         (e\<lparr>asked := insert (i, t) (asked e)\<rparr>))"
| grant: "i < N \<Longrightarrow> j < N \<Longrightarrow> i \<noteq> j \<Longrightarrow> (j, t) \<in> asked e \<Longrightarrow>
     v_term (voters e i) < t \<or>
       v_term (voters e i) = t \<and> v_role (voters e i) = RAFT_STATE_FOLLOWER \<and> v_choice (voters e i) \<in> {None, Some j} \<Longrightarrow>
     election_step N e
       (set_voter i ((voters e i)\<lparr>v_role := RAFT_STATE_FOLLOWER, v_term := t, v_choice := Some j\<rparr>)
         (e\<lparr>granted := insert (i, t, j) (granted e)\<rparr>))"
| adopt: "i < N \<Longrightarrow> v_term (voters e i) < t \<Longrightarrow>
     election_step N e
       (set_voter i ((voters e i)\<lparr>v_role := RAFT_STATE_FOLLOWER, v_term := t, v_choice := None\<rparr>) e)"
| follow: "i < N \<Longrightarrow> (s, v_term (voters e i), i) \<in> led e \<Longrightarrow> v_role (voters e i) \<noteq> RAFT_STATE_FOLLOWER \<Longrightarrow>
     election_step N e
       (set_voter i ((voters e i)\<lparr>v_role := RAFT_STATE_FOLLOWER, v_choice := None\<rparr>) e)"
| count: "i < N \<Longrightarrow> v_role (voters e i) = RAFT_STATE_CANDIDATE \<Longrightarrow> (k, v_term (voters e i), i) \<in> granted e \<Longrightarrow>
     election_step N e (set_voter i ((voters e i)\<lparr>v_tally := insert k (v_tally (voters e i))\<rparr>) e)"
| win: "i < N \<Longrightarrow> v_role (voters e i) = RAFT_STATE_CANDIDATE \<Longrightarrow> card (v_tally (voters e i)) + 1 > N div 2 \<Longrightarrow>
     election_step N e
       (set_voter i ((voters e i)\<lparr>v_role := RAFT_STATE_LEADER\<rparr>)
         (e\<lparr>won := insert (i, v_term (voters e i)) (won e)\<rparr>))"
| lead: "i < N \<Longrightarrow> k < N \<Longrightarrow> i \<noteq> k \<Longrightarrow> v_role (voters e i) = RAFT_STATE_LEADER \<Longrightarrow>
     election_step N e (e\<lparr>led := insert (i, v_term (voters e i), k) (led e)\<rparr>)"
| restart: "i < N \<Longrightarrow>
     election_step N e (set_voter i ((voters e i)\<lparr>v_role := RAFT_STATE_FOLLOWER\<rparr>) e)"

definition new_election :: "election \<Rightarrow> bool" where
  "new_election e \<longleftrightarrow>
     (\<forall>i. v_role (voters e i) = RAFT_STATE_FOLLOWER) \<and> asked e = {} \<and> granted e = {} \<and> won e = {} \<and> led e = {}"

lemma set_voter_fields [simp]:
  "voters (set_voter i v e) = (voters e)(i := v)" "asked (set_voter i v e) = asked e"
  "granted (set_voter i v e) = granted e" "won (set_voter i v e) = won e" "led (set_voter i v e) = led e"
  by (simp_all add: set_voter_def)

section \<open>Quorums\<close>

definition supporters :: "election \<Rightarrow> nat \<Rightarrow> u64 \<Rightarrow> nat set" where
  "supporters e i t = insert i {k. (k, t, i) \<in> granted e}"

definition quorum :: "nat \<Rightarrow> election \<Rightarrow> nat \<Rightarrow> u64 \<Rightarrow> bool" where
  "quorum N e i t \<longleftrightarrow> (i, t) \<in> asked e \<and> card (supporters e i t) > N div 2"

lemma majorities_meet:
  assumes "A \<subseteq> {..<N}" and "B \<subseteq> {..<N}" and "card A > N div 2" and "card B > N div 2"
  shows "\<exists>x. x \<in> A \<and> x \<in> B"
proof (rule ccontr)
  assume "\<nexists>x. x \<in> A \<and> x \<in> B"
  then have "A \<inter> B = {}"
    by blast
  moreover have fin: "finite A" "finite B"
    using assms(1,2) finite_subset by blast+
  ultimately have "card (A \<union> B) = card A + card B"
    by (simp add: card_Un_disjoint)
  moreover have "card (A \<union> B) \<le> card {..<N}"
    using assms(1,2) by (intro card_mono) auto
  ultimately show False
    using assms(3,4) by simp
qed

section \<open>The invariant\<close>

definition standing :: "nat \<Rightarrow> election \<Rightarrow> bool" where
  "standing N e \<longleftrightarrow>
     (\<forall>i<N. v_role (voters e i) \<noteq> RAFT_STATE_FOLLOWER \<longrightarrow>
        v_choice (voters e i) = Some i \<and> (i, v_term (voters e i)) \<in> asked e \<and>
        v_tally (voters e i) \<subseteq> {k. (k, v_term (voters e i), i) \<in> granted e})"

definition asking :: "nat \<Rightarrow> election \<Rightarrow> bool" where
  "asking N e \<longleftrightarrow>
     (\<forall>(i, t) \<in> asked e. i < N \<and> t \<le> v_term (voters e i) \<and>
        (t = v_term (voters e i) \<longrightarrow> v_role (voters e i) = RAFT_STATE_FOLLOWER \<longrightarrow>
           v_choice (voters e i) = Some i \<or> (\<exists>s. (s, t, i) \<in> led e)))"

definition granting :: "nat \<Rightarrow> election \<Rightarrow> bool" where
  "granting N e \<longleftrightarrow>
     (\<forall>(k, t, j) \<in> granted e. k < N \<and> j < N \<and> k \<noteq> j \<and> t \<le> v_term (voters e k) \<and>
        (t = v_term (voters e k) \<longrightarrow> v_role (voters e k) = RAFT_STATE_FOLLOWER \<and> v_choice (voters e k) = Some j) \<and>
        ((k, t) \<in> asked e \<longrightarrow> (\<exists>s. (s, t, k) \<in> led e)))"

definition single_vote :: "election \<Rightarrow> bool" where
  "single_vote e \<longleftrightarrow> (\<forall>k t i j. (k, t, i) \<in> granted e \<longrightarrow> (k, t, j) \<in> granted e \<longrightarrow> i = j)"

definition leading :: "nat \<Rightarrow> election \<Rightarrow> bool" where
  "leading N e \<longleftrightarrow>
     (\<forall>i<N. v_role (voters e i) = RAFT_STATE_LEADER \<longrightarrow> (i, v_term (voters e i)) \<in> won e) \<and>
     (\<forall>(i, t, k) \<in> led e. i \<noteq> k \<and> (i, t) \<in> won e) \<and>
     (\<forall>(i, t) \<in> won e. i < N \<and> quorum N e i t)"

definition single_winner :: "election \<Rightarrow> bool" where
  "single_winner e \<longleftrightarrow> (\<forall>i j t. (i, t) \<in> won e \<longrightarrow> (j, t) \<in> won e \<longrightarrow> i = j)"

definition election_inv :: "nat \<Rightarrow> election \<Rightarrow> bool" where
  "election_inv N e \<longleftrightarrow> standing N e \<and> asking N e \<and> granting N e \<and> single_vote e \<and> leading N e \<and> single_winner e"

lemma quorum_mono:
  assumes "quorum N e i t" and "asked e \<subseteq> asked e'" and "granted e \<subseteq> granted e'" and "granting N e'" and "i < N"
  shows "quorum N e' i t"
proof -
  have "supporters e i t \<subseteq> supporters e' i t"
    using assms(3) by (auto simp: supporters_def)
  moreover have "supporters e' i t \<subseteq> {..<N}"
    using assms(4,5) by (auto simp: supporters_def granting_def)
  ultimately have "card (supporters e i t) \<le> card (supporters e' i t)"
    by (intro card_mono) (auto intro: finite_subset)
  then show ?thesis
    using assms(1,2) by (auto simp: quorum_def)
qed

text \<open>The heart of it: a candidate whose votes make a quorum in a term that another node has won would share a voter with that node.\<close>

lemma no_second_winner:
  assumes inv: "election_inv N e" and i: "i < N" "v_role (voters e i) = RAFT_STATE_CANDIDATE" and q: "quorum N e i (v_term (voters e i))"
    and j: "(j, v_term (voters e i)) \<in> won e"
  shows "i = j"
proof (rule ccontr)
  assume "i \<noteq> j"
  let ?t = "v_term (voters e i)"
  have parts: "granting N e" "single_vote e" "leading N e" "single_winner e"
    using inv by (simp_all add: election_inv_def)
  have qj: "j < N" "quorum N e j ?t"
    using j parts(3) by (auto simp: leading_def)
  have sub: "supporters e x t \<subseteq> {..<N}" if "x < N" for x t
    using parts(1) that by (auto simp: supporters_def granting_def)
  obtain x where x: "x \<in> supporters e i ?t" "x \<in> supporters e j ?t"
    using majorities_meet [OF sub [OF i(1)] sub [OF qj(1)]] q qj(2) by (auto simp: quorum_def)
  consider "x = i" "(i, ?t, j) \<in> granted e" | "x = j" "(j, ?t, i) \<in> granted e" | "(x, ?t, i) \<in> granted e" "(x, ?t, j) \<in> granted e"
    using x \<open>i \<noteq> j\<close> by (auto simp: supporters_def)
  then show False
  proof cases
    case 1
    then show ?thesis
      using parts(1) i(2) by (auto simp: granting_def)
  next
    case 2
    then obtain s where "(s, ?t, j) \<in> led e"
      using parts(1) qj by (fastforce simp: granting_def quorum_def)
    then show ?thesis
      using parts(3,4) j by (auto simp: leading_def single_winner_def)
  next
    case 3
    then show ?thesis
      using parts(2) \<open>i \<noteq> j\<close> by (auto simp: single_vote_def)
  qed
qed

section \<open>Every step keeps it\<close>

lemma standing_step:
  assumes "election_step N e e'" and "standing N e" and "granting N e"
  shows "standing N e'"
  using assms by cases (auto simp: standing_def granting_def)

lemma asking_step:
  assumes "election_step N e e'" and "asking N e" and "standing N e"
  shows "asking N e'"
  using assms(1) by cases (use assms(2,3) in \<open>fastforce simp: asking_def standing_def\<close>)+

lemma granting_step:
  assumes "election_step N e e'" and "granting N e" and "asking N e"
  shows "granting N e'"
  using assms(1)
proof cases
  case (grant i j t)
  have "\<exists>s. (s, t, i) \<in> led e" if "(i, t) \<in> asked e"
    using that grant assms(3) by (fastforce simp: asking_def)
  then show ?thesis
    using grant assms(2) by (fastforce simp: granting_def)
qed (use assms(2) in \<open>fastforce simp: granting_def\<close>)+

lemma single_vote_step:
  assumes "election_step N e e'" and "single_vote e" and "granting N e"
  shows "single_vote e'"
  using assms(1)
proof cases
  case (grant i j t)
  have "j = j'" if "(i, t, j') \<in> granted e" for j'
    using that grant assms(3) by (fastforce simp: granting_def)
  then show ?thesis
    using grant assms(2) by (auto simp: single_vote_def)
qed (use assms(2) in \<open>auto simp: single_vote_def\<close>)

lemma win_quorum:
  assumes "election_inv N e" and "i < N" "v_role (voters e i) = RAFT_STATE_CANDIDATE" and "card (v_tally (voters e i)) + 1 > N div 2"
  shows "quorum N e i (v_term (voters e i))"
proof -
  let ?t = "v_term (voters e i)"
  have st: "(i, ?t) \<in> asked e" "v_tally (voters e i) \<subseteq> {k. (k, ?t, i) \<in> granted e}" and gr: "granting N e"
    using assms(1-3) by (auto simp: election_inv_def standing_def)
  then have "insert i (v_tally (voters e i)) \<subseteq> supporters e i ?t" and "i \<notin> v_tally (voters e i)" and sub: "supporters e i ?t \<subseteq> {..<N}"
    using assms(2) by (auto simp: supporters_def granting_def)
  then have "card (insert i (v_tally (voters e i))) \<le> card (supporters e i ?t)" and "finite (v_tally (voters e i))"
    by (auto intro!: card_mono intro: finite_subset)
  then show ?thesis
    using st(1) assms(4) \<open>i \<notin> v_tally (voters e i)\<close> by (simp add: quorum_def)
qed

lemma election_history:
  "election_step N e e' \<Longrightarrow> asked e \<subseteq> asked e' \<and> granted e \<subseteq> granted e' \<and> won e \<subseteq> won e' \<and> led e \<subseteq> led e'"
  by (cases rule: election_step.cases) auto

lemma leading_step:
  assumes step: "election_step N e e'" and inv: "election_inv N e" and "granting N e'"
  shows "leading N e'"
proof -
  have old: "leading N e"
    using inv by (simp add: election_inv_def)
  have mono: "quorum N e' i t" if "quorum N e i t" "i < N" for i t
    using quorum_mono [OF that(1) _ _ assms(3) that(2)] election_history [OF step] by blast
  have won: "\<forall>(i, t) \<in> won e. i < N \<and> quorum N e' i t"
    using old mono by (fastforce simp: leading_def)
  show ?thesis
    using step
  proof cases
    case (win i)
    have "quorum N e' i (v_term (voters e i))"
      using mono win_quorum [OF inv] win by blast
    then show ?thesis
      using old won win by (auto simp: leading_def)
  qed (use old won in \<open>auto simp: leading_def\<close>)
qed

lemma single_winner_step:
  assumes "election_step N e e'" and inv: "election_inv N e"
  shows "single_winner e'"
proof -
  have old: "single_winner e"
    using inv by (simp add: election_inv_def)
  show ?thesis
    using assms(1)
  proof cases
    case (win i)
    have "i = j" if "(j, v_term (voters e i)) \<in> won e" for j
      using no_second_winner [OF inv win(2,3) win_quorum [OF inv win(2-4)] that] .
    then show ?thesis
      using old win unfolding single_winner_def by auto
  qed (use old in \<open>auto simp: single_winner_def\<close>)
qed

lemma election_inv_step: "election_step N e e' \<Longrightarrow> election_inv N e \<Longrightarrow> election_inv N e'"
  using standing_step asking_step granting_step single_vote_step leading_step single_winner_step
  unfolding election_inv_def by metis

lemma election_inv_start: "new_election e \<Longrightarrow> election_inv N e"
  by (auto simp: new_election_def election_inv_def standing_def asking_def granting_def single_vote_def leading_def single_winner_def)

lemma election_history_reachable:
  "(election_step N)\<^sup>*\<^sup>* e e' \<Longrightarrow> won e \<subseteq> won e'"
  by (induction rule: rtranclp_induct) (use election_history in blast)+

end
