(* ===== verification/Raft_Steps.thy ===== *)
theory Raft_Steps
  imports Raft_Commit Raft_Vote
begin

text \<open>
  What every operation of the Raft core keeps of a node, whatever transport is plugged in. The transport
  is an interface: \<^verbatim>\<open>send_rpc\<close> may run response handlers on the node before it returns, so its contract is a
  relation between the node before and after, which the loops over the peers then keep too.
\<close>

section \<open>The transport contract\<close>

locale node_transport =
  fixes cb :: "'w callbacks" and rel :: "RaftNode \<Rightarrow> RaftNode \<Rightarrow> bool"
  assumes rel_refl: "rel node node"
    and rel_trans: "rel a b \<Longrightarrow> rel b c \<Longrightarrow> rel a c"
    and rel_send: "cb_send_rpc cb = Some send \<Longrightarrow> rel node (fst (send peer_id req (node, w)))"
begin

lemma send_rpc_rel: "rel (fst s) (fst (send_rpc cb peer_id req s))"
  using rel_send rel_refl by (cases s) (simp add: send_rpc_def split: option.split)

lemma fold_rel:
  assumes "\<And>i s. rel (fst s) (fst (f i s))"
  shows "rel (fst s) (fst (fold f is s))"
proof (induction "is" arbitrary: s)
  case Nil
  show ?case by (simp add: rel_refl)
next
  case (Cons i "is")
  show ?case using rel_trans [OF assms Cons.IH] by simp
qed

lemma request_vote_from_rel: "rel (fst s) (fst (request_vote_from cb req i s))"
  using send_rpc_rel rel_refl by (simp add: request_vote_from_def split_beta)

lemma become_candidate_rel:
  "rel (start_candidacy now rnd node) (fst (become_candidate cb now rnd (node, w)))"
  using fold_rel [of "request_vote_from cb (candidate_request (start_candidacy now rnd node))"
      "(start_candidacy now rnd node, persist_state cb (start_candidacy now rnd node) w)"] request_vote_from_rel
  by (simp add: become_candidate_def Let_def)

lemma send_heartbeat_rel: "rel (fst s) (fst (send_heartbeat cb i s))"
  using send_rpc_rel rel_refl by (simp add: send_heartbeat_def split_beta Let_def)

lemma send_heartbeats_rel:
  "fst (send_heartbeats cb now (node, w)) = node \<or>
   rel (node\<lparr>last_heartbeat_ms := now, heartbeats_sent := heartbeats_sent node + 1\<rparr>)
     (fst (send_heartbeats cb now (node, w)))"
  using fold_rel [of "send_heartbeat cb"
      "(node\<lparr>last_heartbeat_ms := now, heartbeats_sent := heartbeats_sent node + 1\<rparr>, w)"] send_heartbeat_rel
  by (simp add: send_heartbeats_def Let_def)

end

section \<open>Well-formedness and terms\<close>

text \<open>
  The relation of interest: well-formed nodes stay well-formed, with the same identity and the same peers, and
  the term does not decrease. A candidate that wins appends one entry, so the numbers of the log must leave
  room for it: \<open>fits m\<close> says that the log stays within index \<open>m\<close> whatever the responses are.
\<close>

definition pending :: "RaftNode \<Rightarrow> nat" where
  "pending node = (if state node = RAFT_STATE_CANDIDATE then 1 else 0)"

definition fits :: "nat \<Rightarrow> RaftNode \<Rightarrow> bool" where
  "fits m node \<longleftrightarrow> wf_node node \<and> unat (last_log_index node) + pending node \<le> m"

definition keeps :: "nat \<Rightarrow> RaftNode \<Rightarrow> RaftNode \<Rightarrow> bool" where
  "keeps m a b \<longleftrightarrow>
     (fits m a \<longrightarrow> fits m b) \<and> current_term a \<le> current_term b \<and>
     map peer_node_id (peers b) = map peer_node_id (peers a) \<and> node_id b = node_id a"

lemmas fits_defs = fits_def pending_def wf_node_def last_log_index_def
lemmas keeps_defs = keeps_def fits_defs

lemma keeps_refl [simp]: "keeps m a a"
  by (simp add: keeps_def)

lemma keeps_trans: "keeps m a b \<Longrightarrow> keeps m b c \<Longrightarrow> keeps m a c"
  by (auto simp: keeps_def)

text \<open>Changes to fields that well-formedness and terms do not depend on.\<close>

lemma keeps_fields [simp]:
  "keeps m a (b\<lparr>last_heartbeat_ms := x\<rparr>) = keeps m a b" "keeps m (a\<lparr>last_heartbeat_ms := x\<rparr>) b = keeps m a b"
  "keeps m a (b\<lparr>heartbeats_sent := y\<rparr>) = keeps m a b" "keeps m (a\<lparr>heartbeats_sent := y\<rparr>) b = keeps m a b"
  "keeps m a (b\<lparr>commit_index := z\<rparr>) = keeps m a b" "keeps m (a\<lparr>commit_index := z\<rparr>) b = keeps m a b"
  "keeps m a (b\<lparr>last_applied := z\<rparr>) = keeps m a b" "keeps m (a\<lparr>last_applied := z\<rparr>) b = keeps m a b"
  by (simp_all add: keeps_defs)

lemma keeps_become_follower:
  "current_term node \<le> t \<Longrightarrow> keeps m node (fst (become_follower cb t (node, w)))"
  by (simp add: keeps_defs become_follower_def Let_def)

lemma list_all_wf_peer_update:
  "list_all wf_peer ps \<Longrightarrow> peer_node_id p = peer_node_id (ps ! i) \<Longrightarrow> peer_ip_address p = peer_ip_address (ps ! i) \<Longrightarrow>
     i < length ps \<Longrightarrow> list_all wf_peer (ps[i := p])"
  by (auto simp: list_all_length nth_list_update wf_peer_def)

lemma map_peer_ids_update:
  "peer_node_id p = peer_node_id (ps ! i) \<Longrightarrow> map peer_node_id (ps[i := p]) = map peer_node_id ps"
  by (cases "i < length ps") (simp_all add: map_update list_update_beyond list_update_same_conv)

lemma find_peer_from_bound:
  "find_peer_from j ps pid = Some i \<Longrightarrow> j \<le> i \<and> i < j + length ps \<and> streq (peer_node_id (ps ! (i - j))) pid"
  by (induction j ps pid rule: find_peer_from.induct) (auto split: if_splits simp: nth_Cons')

lemma find_peer_bound:
  assumes "find_peer node pid = Some i"
  shows "i < length (peers node)" and "streq (peer_node_id (peers node ! i)) pid"
  using find_peer_from_bound [of 0 "peers node" pid i] assms by (simp_all add: find_peer_def)

lemma keeps_peer_update:
  assumes "i < length (peers node)" "peer_node_id p = peer_node_id (peers node ! i)"
    and "peer_ip_address p = peer_ip_address (peers node ! i)"
  shows "keeps m node (node\<lparr>peers := (peers node)[i := p]\<rparr>)"
    and "keeps m node (node\<lparr>peers := (peers node)[i := p], votes_received := v\<rparr>)"
  using assms by (auto simp: keeps_defs map_peer_ids_update intro!: list_all_wf_peer_update)

lemma keeps_append_entries_response:
  "keeps m node (fst (raft_handle_append_entries_response cb peer_id resp (node, w)))"
  using find_peer_bound [of node peer_id] keeps_become_follower [of node "aer_term resp" m cb w]
  by (auto simp: raft_handle_append_entries_response_def Let_def keeps_peer_update split: option.split)

text \<open>Submitting appends at most one entry, numbered after the last one.\<close>

lemma wf_node_push:
  assumes wf: "wf_node node" and last: "last_log_index node \<noteq> - 1"
    and idx: "le_index e = last_log_index node + 1" and room: "length (log node) < c"
  shows "wf_node (node\<lparr>log := log node @ [e], log_capacity := c\<rparr>)"
    and "unat (last_log_index (node\<lparr>log := log node @ [e], log_capacity := c\<rparr>)) = unat (last_log_index node) + 1"
proof -
  have idx': "unat (le_index e) = unat (last_log_index node) + 1"
    using unat_plus_one [OF last] idx by simp
  then have "contiguous (last_snapshot_index node) (log node @ [e])"
    using unat_last_log_index [OF wf] wf_nodeD(5) [OF wf] by (simp add: contiguous_append)
  with room wf show "wf_node (node\<lparr>log := log node @ [e], log_capacity := c\<rparr>)" by (simp add: wf_node_def)
  show "unat (last_log_index (node\<lparr>log := log node @ [e], log_capacity := c\<rparr>)) = unat (last_log_index node) + 1"
    using idx' by (simp add: last_log_index_def [of "node\<lparr>log := _, log_capacity := _\<rparr>"])
qed


lemma raft_submit_node:
  "\<exists>c \<ge> log_capacity node.
     fst (snd (raft_submit cb al data (node, w))) = node\<lparr>log_capacity := c\<rparr> \<or>
     length (log node) < c \<and>
     fst (snd (raft_submit cb al data (node, w))) =
       node\<lparr>log := log node @ [\<lparr>le_term = current_term node, le_index = last_log_index node + 1,
                               le_data = data, le_entry_type = 0\<rparr>], log_capacity := c\<rparr>"
proof (cases "state node = RAFT_STATE_LEADER")
  case False
  then show ?thesis
    by (intro exI [of _ "log_capacity node"]) (simp add: raft_submit_def)
next
  case True
  obtain c where grow: "ensure_log_capacity al node = node\<lparr>log_capacity := c\<rparr>" and "log_capacity node \<le> c"
    by (rule ensure_log_capacity_cases)
  moreover have "last_log_index (node\<lparr>log_capacity := c\<rparr>) = last_log_index node"
    by (simp add: last_log_index_def)
  ultimately show ?thesis
    using True by (intro exI [of _ c]) (simp add: raft_submit_def Let_def)
qed

lemma keeps_submit:
  assumes "fits m node" and "m + 1 < 2 ^ 64"
  shows "fits (m + 1) (fst (snd (raft_submit cb al data (node, w))))"
proof -
  have wf: "wf_node node" and last: "unat (last_log_index node) + pending node \<le> m"
    using assms(1) by (simp_all add: fits_def)
  have ne: "last_log_index node \<noteq> - 1"
  proof
    assume "last_log_index node = - 1"
    then have "unat (last_log_index node) = 2 ^ 64 - 1"
      by (simp add: unsigned_minus_1_eq_mask mask_eq_exp_minus_1)
    with last assms(2) show False by linarith
  qed
  have grown: "fits (m + 1) (node\<lparr>log_capacity := c\<rparr>)" if "log_capacity node \<le> c" for c
    using assms(1) that by (auto simp: fits_defs)
  have pushed: "fits (m + 1) (node\<lparr>log := log node @ [e], log_capacity := c\<rparr>)"
    if "le_index e = last_log_index node + 1" "length (log node) < c" for e c
    using wf_node_push [OF wf ne that] last by (simp add: fits_def pending_def)
  show ?thesis
    using raft_submit_node [of node cb al data w] grown pushed by fastforce
qed

lemma submit_frame:
  "current_term (fst (snd (raft_submit cb al data (node, w)))) = current_term node"
  "peers (fst (snd (raft_submit cb al data (node, w)))) = peers node"
  "node_id (fst (snd (raft_submit cb al data (node, w)))) = node_id node"
  using raft_submit_node [of node cb al data w] by auto

lemma keeps_become_leader:
  assumes "state node = RAFT_STATE_CANDIDATE" and "m < 2 ^ 64"
  shows "keeps m node (fst (become_leader cb al (node, w)))"
proof -
  let ?n = "node\<lparr>state := RAFT_STATE_LEADER, leader_id := strncpy (leader_id node) (node_id node) 36,
                 peers := map (\<lambda>p. p\<lparr>next_index := last_log_index node + 1, match_index := 0,
                                     inflight_rpcs := 0\<rparr>) (peers node)\<rparr>"
  let ?s = "fst (snd (raft_submit cb al [0] (?n, w)))"
  have "fits m ?s" if "fits m node"
  proof -
    have "wf_node ?n"
      using that strncpy_wf [of 36] by (auto simp: fits_defs list_all_iff wf_peer_def)
    then have "fits (m - 1) ?n" and "m \<ge> 1"
      using that assms(1) log_view(3) [of ?n node] by (auto simp: fits_def pending_def)
    then show ?thesis
      using keeps_submit [of "m - 1" ?n cb al "[0]" w] assms(2) by simp
  qed
  then have "keeps m node ?s"
    using submit_frame [of cb al "[0]" ?n w] by (simp add: keeps_def comp_def)
  then show ?thesis
    by (simp add: become_leader_def Let_def split_beta)
qed

lemma keeps_request_vote_response:
  assumes "m < 2 ^ 64"
  shows "keeps m node (fst (raft_handle_request_vote_response cb al peer_id resp (node, w)))"
proof -
  let ?n = "\<lambda>i. node\<lparr>peers := (peers node)[i := (peers node ! i)\<lparr>vote_granted := True\<rparr>],
                     votes_received := votes_received node + 1\<rparr>"
  have counted: "keeps m node (?n i)" if "i < length (peers node)" for i
    using that by (intro keeps_peer_update) simp_all
  have "keeps m node (fst (become_leader cb al (?n i, w)))"
    if "i < length (peers node)" "state node = RAFT_STATE_CANDIDATE" for i
    by (rule keeps_trans [OF counted keeps_become_leader]) (simp_all add: that assms del: power_numeral)
  with counted show ?thesis
    using find_peer_bound(1) [of node peer_id] keeps_become_follower [of node "rvr_term resp" m cb w]
    by (auto simp: raft_handle_request_vote_response_def Let_def split: option.split)
qed

lemma keeps_start_candidacy:
  "current_term node \<noteq> - 1 \<Longrightarrow> current_term node < current_term (start_candidacy now rnd node)"
  "fits m node \<Longrightarrow> fits (m + 1) (start_candidacy now rnd node)"
  "map peer_node_id (peers (start_candidacy now rnd node)) = map peer_node_id (peers node)"
  "node_id (start_candidacy now rnd node) = node_id node"
proof -
  show "current_term node < current_term (start_candidacy now rnd node)" if "current_term node \<noteq> - 1"
    using unat_plus_one [OF that] by (simp add: start_candidacy_def word_less_nat_alt)
  have "list_all wf_peer (map (\<lambda>p. p\<lparr>vote_granted := b\<rparr>) ps) = list_all wf_peer ps" for ps :: "RaftPeer list" and b
    by (simp add: list_all_iff wf_peer_def)
  moreover have "wf_cbuf 37 (strncpy (voted_for node) (node_id node) 36)" if "wf_cbuf 37 (voted_for node)"
    using strncpy_wf [of 36] that by simp
  ultimately show "fits (m + 1) (start_candidacy now rnd node)" if "fits m node"
    using that by (auto simp: fits_defs start_candidacy_def)
qed (simp_all add: start_candidacy_def comp_def)

lemma keeps_after_vote_request: "keeps m node (after_vote_request now req node)"
  using strncpy_wf [of 36] by (auto simp: keeps_defs after_vote_request_def Let_def)

lemma keeps_request_vote:
  "raft_handle_request_vote cb now req (node, w) = (resp, node', w') \<Longrightarrow> keeps m node node'"
  using request_vote_run [of cb now req node w] keeps_after_vote_request by auto

lemma keeps_apply: "keeps m node (fst (apply_committed_entries cb (node, w)))"
proof (induction cb "(node, w)" arbitrary: node w rule: apply_committed_entries.induct)
  case (1 cb node w)
  show ?case
    using 1 [unfolded keeps_fields] by (subst apply_committed_entries.simps)
      (auto simp: Let_def split: option.split)
qed

lemma keeps_commit_loop:
  assumes "commit_loop n node = Some node'"
  shows "keeps m node node'"
proof (rule commit_loop.raw_induct [where P = "\<lambda>n node node'. keeps m node node'", OF _ assms])
  fix cl n node node'
  assume ih: "\<And>n node node'. cl n node = Some node' \<Longrightarrow> keeps m node node'"
    and run: "(if n \<le> last_log_index node then cl (n + 1) (commit_step n node) else Some node) = Some node'"
  have "keeps m node (commit_step n node)"
    by (simp add: commit_step_def Let_def split: option.split)
  then show "keeps m node node'"
    using ih run by (auto split: if_splits intro: keeps_trans)
qed

text \<open>The commit loop ends for every start value when the last index is not the largest number.\<close>

lemma commit_loop_ends:
  assumes "last_log_index node \<noteq> - 1"
  shows "\<exists>node'. commit_loop n node = Some node'"
  using assms
proof (induction "unat (last_log_index node) + 1 - unat n" arbitrary: n node rule: less_induct)
  case less
  show ?case
  proof (cases "n \<le> last_log_index node")
    case True
    then have "n < - 1"
      using less.prems by (metis le_less_trans word_order.not_eq_extremum)
    then have "unat (n + 1) = unat n + 1"
      by (rule unat_plus_one_less)
    then show ?thesis
      using less.hyps [of "commit_step n node" "n + 1"] less.prems True
      by (subst commit_loop.simps) (simp add: commit_step_eq word_le_nat_alt)
  qed (subst commit_loop.simps, simp)
qed

section \<open>A tick over any transport that keeps well-formedness\<close>

locale keeping_transport = node_transport cb "keeps m" for cb :: "'w callbacks" and m :: nat +
  assumes room: "m + 1 < 2 ^ 64"
begin

lemma fits_last: "fits m node \<Longrightarrow> last_log_index node \<noteq> - 1"
proof
  assume "fits m node" and "last_log_index node = - 1"
  then have "unat (last_log_index node) = 2 ^ 64 - 1" "unat (last_log_index node) \<le> m"
    by (simp_all add: unsigned_minus_1_eq_mask mask_eq_exp_minus_1 fits_def)
  with room show False by linarith
qed

lemma keeps_heartbeats: "keeps m node (fst (send_heartbeats cb now (node, w)))"
  using send_heartbeats_rel [of now node w] by auto

lemma leader_tick_keeps:
  assumes "fits m node"
  shows "\<exists>node' w'. leader_tick cb now (node, w) = Some (node', w') \<and> keeps m node node'"
proof -
  obtain n1 w1 where h: "send_heartbeats cb now (node, w) = (n1, w1)"
    by (metis surj_pair)
  then have k1: "keeps m node n1"
    using keeps_heartbeats [of node now w] by simp
  then have "fits m n1"
    using assms by (simp add: keeps_def)
  then obtain n2 where l: "commit_loop (commit_index n1 + 1) n1 = Some n2"
    using commit_loop_ends [OF fits_last] by blast
  show ?thesis
    using h l keeps_trans [OF k1 keeps_commit_loop [OF l]] by (simp add: leader_tick_def)
qed

lemma candidate_tick_keeps:
  assumes "wf_node node" and "unat (last_log_index node) + 1 \<le> m" and "current_term node \<noteq> - 1"
  shows "fits m (fst (follower_candidate_tick cb now now' rnd (node, w)))"
    and "current_term node \<le> current_term (fst (follower_candidate_tick cb now now' rnd (node, w)))"
    and "map peer_node_id (peers (fst (follower_candidate_tick cb now now' rnd (node, w)))) = map peer_node_id (peers node)"
proof -
  let ?c = "start_candidacy now' rnd node"
  have "fits (m - 1) (node\<lparr>state := RAFT_STATE_FOLLOWER\<rparr>)"
    using assms(1,2) by (auto simp: fits_defs)
  then have "fits m (start_candidacy now' rnd (node\<lparr>state := RAFT_STATE_FOLLOWER\<rparr>))"
    using keeps_start_candidacy(2) [of "m - 1"] assms(2) by fastforce
  then have c: "fits m ?c"
    by (simp add: start_candidacy_def)
  have k: "keeps m ?c (fst (become_candidate cb now' rnd (node, w)))"
    by (rule become_candidate_rel)
  have up: "current_term node < current_term ?c"
    by (rule keeps_start_candidacy(1) [OF assms(3)])
  have same: "fits m node"
    using assms(1,2) by (auto simp: fits_def pending_def)
  show "fits m (fst (follower_candidate_tick cb now now' rnd (node, w)))"
    using c k same by (simp add: follower_candidate_tick_def keeps_def)
  show "current_term node \<le> current_term (fst (follower_candidate_tick cb now now' rnd (node, w)))"
    using up k by (auto simp: follower_candidate_tick_def keeps_def)
  show "map peer_node_id (peers (fst (follower_candidate_tick cb now now' rnd (node, w)))) = map peer_node_id (peers node)"
    using k keeps_start_candidacy(3) [of now' rnd node] by (simp add: follower_candidate_tick_def keeps_def)
qed

lemma tick_keeps:
  assumes "wf_node node" and "unat (last_log_index node) + 1 \<le> m" and "current_term node \<noteq> - 1"
  shows "\<exists>node' w'. raft_tick cb now now' rnd (node, w) = Some (node', w') \<and> wf_node node' \<and>
    current_term node \<le> current_term node' \<and> map peer_node_id (peers node') = map peer_node_id (peers node)"
proof -
  have fit: "fits m node"
    using assms(1,2) by (auto simp: fits_def pending_def)
  obtain n1 w1 where t: "(if state node = RAFT_STATE_LEADER then leader_tick cb now (node, w)
      else Some (follower_candidate_tick cb now now' rnd (node, w))) = Some (n1, w1)"
    and n1: "fits m n1" "current_term node \<le> current_term n1" "map peer_node_id (peers n1) = map peer_node_id (peers node)"
  proof (cases "state node = RAFT_STATE_LEADER")
    case True
    then show ?thesis
      using leader_tick_keeps [OF fit, of now w] that fit by (auto simp: keeps_def)
  next
    case False
    then show ?thesis
      using candidate_tick_keeps [OF assms, of now now' rnd w] that
      by (cases "follower_candidate_tick cb now now' rnd (node, w)") auto
  qed
  obtain n2 w2 where a: "apply_committed_entries cb (n1, w1) = (n2, w2)"
    by (metis surj_pair)
  then have "keeps m n1 n2"
    using keeps_apply [of m n1 cb w1] by simp
  then show ?thesis
    using t n1 a by (auto simp: raft_tick_def keeps_def fits_def)
qed

end

end
