(* ===== verification/Raft_Ballot.thy ===== *)
theory Raft_Ballot
  imports Raft_Steps Raft_Wal
begin

text \<open>
  What each entry point of the Raft core does to the part of a node that elections are about, its ballot, when the
  callbacks are those of a site: requests are queued and leave when the call has returned, the state file is written by \<^verbatim>\<open>raft_persist_state\<close> and
  the writes succeed. Whenever a call returns, the state file has the term and the vote of the node.
\<close>

section \<open>Sites\<close>

text \<open>The world of a site: the queue of requests, the state file, and the state machine.\<close>

type_synonym 'u site = "(bytes \<times> raft_request) list \<times> bytes option \<times> 'u"

definition site_callbacks :: "endian \<Rightarrow> (bytes \<Rightarrow> 'u \<Rightarrow> 'u) \<Rightarrow> 'u site callbacks" where
  "site_callbacks e ap =
     \<lparr>cb_apply = Some (\<lambda>data (out, disk, u). (out, disk, ap data u)),
      cb_persist = Some (\<lambda>node (out, disk, u).
        (out, snd (raft_persist_state e True complete_writer (\<lambda>_. True) (Some node) disk), u)),
      cb_send_rpc = Some (\<lambda>peer_id req (node, out, disk, u). (node, out @ [(peer_id, req)], disk, u))\<rparr>"

lemma persist_site [simp]:
  "persist_state (site_callbacks e ap) node (out, disk, u) = (out, Some (wal_bytes node), u)"
  by (simp add: persist_state_def site_callbacks_def persist_state_complete)

lemma site_queues:
  "queues_requests (site_callbacks e ap) (\<lambda>p r (out, disk, u). (out @ [(p, r)], disk, u))"
  by (auto simp: queues_requests_def site_callbacks_def fun_eq_iff)

lemma send_rpc_site [simp]:
  "send_rpc (site_callbacks e ap) peer_id req (node, out, disk, u) = (node, out @ [(peer_id, req)], disk, u)"
  by (simp add: send_rpc_def site_callbacks_def)

section \<open>Ballots\<close>

text \<open>The names of the peers with the votes they gave.\<close>

definition slips :: "RaftNode \<Rightarrow> (bytes \<times> bool) list" where
  "slips node = map (\<lambda>p. (cstr (peer_node_id p), vote_granted p)) (peers node)"

definition ballot_of ::
  "RaftNode \<Rightarrow> bytes \<times> RaftState \<times> u64 \<times> bytes \<times> u32 \<times> (bytes \<times> bool) list" where
  "ballot_of node = (node_id node, state node, current_term node, voted_for node, votes_received node, slips node)"

lemma ballot_fields:
  assumes "ballot_of a = ballot_of b"
  shows "node_id a = node_id b" "state a = state b" "current_term a = current_term b"
    "voted_for a = voted_for b" "votes_received a = votes_received b" "slips a = slips b"
  using assms by (simp_all add: ballot_of_def)

text \<open>The state file records the term and the vote; without a file the node is as new.\<close>

fun saved :: "bytes option \<Rightarrow> RaftNode \<Rightarrow> bool" where
  "saved None node \<longleftrightarrow> current_term node = 0 \<and> cstr (voted_for node) = []"
| "saved (Some f) node \<longleftrightarrow>
     (\<exists>n. f = wal_bytes n \<and> current_term n = current_term node \<and> cstr (voted_for n) = cstr (voted_for node))"

lemma saved_cong:
  "current_term a = current_term b \<Longrightarrow> voted_for a = voted_for b \<Longrightarrow> saved disk a = saved disk b"
  by (cases disk) simp_all

lemma saved_ballot: "ballot_of a = ballot_of b \<Longrightarrow> saved disk a = saved disk b"
  by (rule saved_cong) (simp_all add: ballot_of_def)

lemma saved_now [simp]:
  "current_term n = current_term node \<Longrightarrow> voted_for n = voted_for node \<Longrightarrow> saved (Some (wal_bytes n)) node"
  by auto

declare saved.simps(2) [simp del]

lemma saved_latest: "ballot_of n = ballot_of node \<Longrightarrow> saved (Some (wal_bytes n)) node"
  by (simp add: ballot_of_def)

section \<open>Calls that leave the ballot alone\<close>

lemma ballot_apply:
  "apply_committed_entries (site_callbacks e ap) (node, out, disk, u) = (node', out', disk', u') \<Longrightarrow>
     ballot_of node' = ballot_of node \<and> out' = out \<and> disk' = disk"
proof (induction "site_callbacks e ap" "(node, out, disk, u)" arbitrary: node u rule: apply_committed_entries.induct)
  case (1 node u)
  let ?n = "node\<lparr>last_applied := last_applied node + 1\<rparr>"
  have same: "ballot_of ?n = ballot_of node"
    by (simp add: ballot_of_def slips_def)
  show ?case
  proof (cases "last_applied node < commit_index node \<and> get_log_entry ?n (last_applied ?n) \<noteq> None")
    case True
    then obtain entry where entry: "get_log_entry ?n (last_applied ?n) = Some entry"
      by blast
    then have "apply_committed_entries (site_callbacks e ap) (?n, out, disk, ap (le_data entry) u) = (node', out', disk', u')"
      using 1(2) True by (subst (asm) apply_committed_entries.simps) (simp add: Let_def site_callbacks_def)
    then show ?thesis
      using 1(1) [of ?n entry] True entry same by (simp add: site_callbacks_def)
  next
    case False
    then show ?thesis
      using 1(2) same by (subst (asm) apply_committed_entries.simps) (auto simp: Let_def split: if_splits)
  qed
qed

lemma ballot_commit_loop:
  assumes "commit_loop n node = Some node'"
  shows "ballot_of node' = ballot_of node"
proof (rule commit_loop.raw_induct [where P = "\<lambda>n node node'. ballot_of node' = ballot_of node", OF _ assms])
  fix loop n node node'
  assume "\<And>n node node'. loop n node = Some node' \<Longrightarrow> ballot_of node' = ballot_of node"
    and "(if n \<le> last_log_index node then loop (n + 1) (commit_step n node) else Some node) = Some node'"
  moreover have "ballot_of (commit_step n node) = ballot_of node"
    by (simp add: commit_step_def ballot_of_def slips_def)
  ultimately show "ballot_of node' = ballot_of node"
    by (auto split: if_splits)
qed

lemma ballot_append_entry: "append_entry al entry node = Inr node' \<Longrightarrow> ballot_of node' = ballot_of node"
  by (auto simp: append_entry_def truncate_conflict_def ensure_log_capacity_def ballot_of_def slips_def Let_def
      split: if_splits option.splits)

lemma ballot_append_loop: "append_loop al entries i left node = Inr node' \<Longrightarrow> ballot_of node' = ballot_of node"
  by (induction al entries i left node rule: append_loop.induct)
    (auto dest: ballot_append_entry split: option.splits sum.splits if_splits)

lemma ballot_submit:
  assumes "raft_submit (site_callbacks e ap) al data (node, out, disk, u) = (rc, node', out', disk', u')"
  shows "ballot_of node' = ballot_of node" and "saved disk node \<Longrightarrow> saved disk' node'"
proof -
  show same: "ballot_of node' = ballot_of node"
    using raft_submit_node [of node "site_callbacks e ap" al data "(out, disk, u)"] assms
    by (auto simp: ballot_of_def slips_def)
  have "disk' = disk \<or> disk' = Some (wal_bytes node')"
    using assms by (auto simp: raft_submit_def Let_def split: if_splits)
  then show "saved disk' node'" if "saved disk node"
    using that saved_ballot [OF same] saved_latest [of node' node'] by blast
qed

section \<open>The effect of each entry point\<close>

lemma ballot_follower:
  assumes "become_follower (site_callbacks e ap) term (node, out, disk, u) = (node', out', disk', u')"
  shows "ballot_of node' = (node_id node, RAFT_STATE_FOLLOWER, term, zeros 37, 0, slips node)"
    and "saved disk' node'"
  using assms by (auto simp: become_follower_def Let_def ballot_of_def slips_def)

lemma ballot_request:
  assumes "raft_handle_request_vote (site_callbacks e ap) now req (node, out, disk, u) = (resp, node', out', disk', u')"
    and "saved disk node"
  shows "resp = \<lparr>rvr_term = current_term node, rvr_vote_granted = (if may_vote_for node req then 1 else 0)\<rparr>"
    and "node' = after_vote_request now req node" and "saved disk' node'"
proof -
  let ?n = "after_vote_request now req node\<lparr>last_heartbeat_ms := last_heartbeat_ms node\<rparr>"
  obtain w1 where run: "resp = \<lparr>rvr_term = current_term node, rvr_vote_granted = (if may_vote_for node req then 1 else 0)\<rparr>"
      "node' = after_vote_request now req node"
    and w1: "may_vote_for node req \<Longrightarrow> (out', disk', u') = persist_state (site_callbacks e ap) ?n w1"
    using request_vote_run [of "site_callbacks e ap" now req node "(out, disk, u)"] assms(1) by auto
  show "resp = \<lparr>rvr_term = current_term node, rvr_vote_granted = (if may_vote_for node req then 1 else 0)\<rparr>"
    and "node' = after_vote_request now req node"
    by (rule run)+
  show "saved disk' node'"
  proof (cases "may_vote_for node req")
    case True
    then show ?thesis
      using w1 run(2) by (cases w1) simp
  next
    case False
    then have "current_term node < rv_term req \<and> disk' = Some (wal_bytes node') \<or> node' = node \<and> disk' = disk"
      using assms(1) run(1)
      by (auto simp: raft_handle_request_vote_def become_follower_def Let_def split: if_splits)
    then show ?thesis
      using assms(2) by auto
  qed
qed

lemma saved_heard:
  "saved disk (node\<lparr>last_heartbeat_ms := a, heartbeats_received := b, leader_id := c\<rparr>) = saved disk node"
  by (rule saved_cong) simp_all

lemma ballot_entries:
  assumes "raft_handle_append_entries (site_callbacks e ap) al now req entries cnt (node, out, disk, u) =
      Inr (resp, node', out', disk', u')"
    and "saved disk node"
  shows "ballot_of node' = (if ae_term req < current_term node then ballot_of node else ballot_of (adopt_leader now req node))"
    and "saved disk' node'"
proof -
  have "ballot_of node' = (if ae_term req < current_term node then ballot_of node else ballot_of (adopt_leader now req node)) \<and> saved disk' node'"
  proof (cases "ae_term req < current_term node")
    case True
    then show ?thesis
      using assms by (simp add: append_entries_stale)
  next
    case False
    obtain out1 disk1 u1 where adopt: "adopt_leader_world (site_callbacks e ap) now req (node, out, disk, u) =
        (adopt_leader now req node, out1, disk1, u1)"
      using fst_adopt_leader_world [of "site_callbacks e ap" now req node "(out, disk, u)"] by (metis prod.collapse)
    have "saved (fst (snd (snd (adopt_leader_world (site_callbacks e ap) now req (node, out, disk, u))))) (adopt_leader now req node)"
      using assms(2)
      by (simp add: saved_heard adopt_leader_world_def adopt_leader_def become_follower_def Let_def)
    then have "saved disk1 (adopt_leader now req node)"
      by (simp add: adopt)
    moreover have "ballot_of (update_commit_index c n) = ballot_of n" for c n
      by (simp add: update_commit_index_def ballot_of_def slips_def Let_def)
    moreover have "saved (Some (wal_bytes n)) (update_commit_index c n)" for c n
      by simp
    ultimately show ?thesis
      using assms(1) False ballot_append_loop [of al entries 0 "unat cnt" "adopt_leader now req node"]
      by (auto simp: append_entries_unfold adopt Let_def split: if_splits sum.splits)
  qed
  then show "ballot_of node' = (if ae_term req < current_term node then ballot_of node else ballot_of (adopt_leader now req node))"
    and "saved disk' node'"
    by blast+
qed

lemma ballot_entries_reply:
  assumes "raft_handle_append_entries_response (site_callbacks e ap) peer_id resp (node, out, disk, u) = (node', out', disk', u')"
    and "saved disk node"
  shows "ballot_of node' =
      (if aer_term resp > current_term node
       then (node_id node, RAFT_STATE_FOLLOWER, aer_term resp, zeros 37, 0, slips node) else ballot_of node)"
    and "saved disk' node'"
proof -
  have slip: "slips (node\<lparr>peers := (peers node)[i := p]\<rparr>) = slips node"
    if "peer_node_id p = peer_node_id (peers node ! i)" "vote_granted p = vote_granted (peers node ! i)" for i p
    using that by (cases "i < length (peers node)") (auto simp: slips_def map_update list_update_same_conv list_update_beyond)
  have same: "ballot_of node' = ballot_of node \<and> disk' = disk" if "\<not> aer_term resp > current_term node"
    using assms(1) that
    by (auto simp: raft_handle_append_entries_response_def Let_def ballot_of_def slip split: if_splits option.splits)
  have other: "become_follower (site_callbacks e ap) (aer_term resp) (node, out, disk, u) = (node', out', disk', u')"
    if "aer_term resp > current_term node"
    using assms(1) that by (simp add: raft_handle_append_entries_response_def)
  show "ballot_of node' =
      (if aer_term resp > current_term node
       then (node_id node, RAFT_STATE_FOLLOWER, aer_term resp, zeros 37, 0, slips node) else ballot_of node)"
    using same ballot_follower(1) [OF other] by simp
  show "saved disk' node'"
    using same ballot_follower(2) [OF other] saved_ballot [of node' node] assms(2) by blast
qed

text \<open>A granted vote of the current term, counted once; \<open>counted\<close> is the node before it wins.\<close>

definition counted :: "nat \<Rightarrow> RaftNode \<Rightarrow> RaftNode" where
  "counted i node =
     node\<lparr>peers := (peers node)[i := (peers node ! i)\<lparr>vote_granted := True\<rparr>],
          votes_received := votes_received node + 1\<rparr>"

definition counts :: "bytes \<Rightarrow> RaftRequestVoteResp \<Rightarrow> RaftNode \<Rightarrow> nat \<Rightarrow> bool" where
  "counts peer_id resp node i \<longleftrightarrow>
     state node = RAFT_STATE_CANDIDATE \<and> rvr_term resp = current_term node \<and> rvr_vote_granted resp \<noteq> 0 \<and>
     find_peer node peer_id = Some i \<and> \<not> vote_granted (peers node ! i)"

definition wins :: "RaftNode \<Rightarrow> bool" where
  "wins node \<longleftrightarrow> unat (votes_received node) > (length (peers node) + 1) div 2"

lemma ballot_leader:
  assumes "become_leader (site_callbacks e ap) al (node, out, disk, u) = (node', out', disk', u')" and "saved disk node"
  shows "ballot_of node' = ballot_of (node\<lparr>state := RAFT_STATE_LEADER\<rparr>)" and "saved disk' node'"
proof -
  let ?n = "node\<lparr>state := RAFT_STATE_LEADER, leader_id := strncpy (leader_id node) (node_id node) 36,
                 peers := map (\<lambda>p. p\<lparr>next_index := last_log_index node + 1, match_index := 0,
                                     inflight_rpcs := 0\<rparr>) (peers node)\<rparr>"
  obtain rc node1 where sub: "raft_submit (site_callbacks e ap) al [0] (?n, out, disk, u) = (rc, node1, out', disk', u')"
    and node': "node' = node1\<lparr>last_heartbeat_ms := 0\<rparr>"
    using assms(1) by (auto simp: become_leader_def Let_def split: prod.splits)
  have n: "ballot_of ?n = ballot_of (node\<lparr>state := RAFT_STATE_LEADER\<rparr>)" "ballot_of node' = ballot_of node1"
    by (simp_all add: ballot_of_def slips_def node')
  then show "ballot_of node' = ballot_of (node\<lparr>state := RAFT_STATE_LEADER\<rparr>)"
    using ballot_submit(1) [OF sub] by simp
  have "saved disk ?n"
    using assms(2) saved_cong [of ?n node disk] by simp
  then show "saved disk' node'"
    using ballot_submit(2) [OF sub] saved_ballot [OF n(2)] by simp
qed

lemma ballot_reply:
  assumes run: "raft_handle_request_vote_response (site_callbacks e ap) al peer_id resp (node, out, disk, u) = (node', out', disk', u')"
    and "saved disk node"
  shows "saved disk' node' \<and>
    (rvr_term resp > current_term node \<and>
       ballot_of node' = (node_id node, RAFT_STATE_FOLLOWER, rvr_term resp, zeros 37, 0, slips node) \<or>
     ballot_of node' = ballot_of node \<or>
     (\<exists>i. counts peer_id resp node i \<and>
       ballot_of node' = ballot_of (if wins (counted i node) then (counted i node)\<lparr>state := RAFT_STATE_LEADER\<rparr> else counted i node)))"
proof (cases "rvr_term resp > current_term node")
  case True
  then have "become_follower (site_callbacks e ap) (rvr_term resp) (node, out, disk, u) = (node', out', disk', u')"
    using run by (simp add: raft_handle_request_vote_response_def)
  from ballot_follower [OF this] True show ?thesis
    by blast
next
  case False
  show ?thesis
  proof (cases "\<exists>i. counts peer_id resp node i")
    case True
    then obtain i where i: "counts peer_id resp node i" ..
    then have "(if wins (counted i node) then become_leader (site_callbacks e ap) al (counted i node, out, disk, u)
        else (counted i node, out, disk, u)) = (node', out', disk', u')"
      using run by (auto simp: raft_handle_request_vote_response_def counts_def wins_def counted_def Let_def)
    moreover have "saved disk (counted i node)"
      using assms(2) saved_cong [of "counted i node" node disk] by (simp add: counted_def)
    ultimately show ?thesis
      using i ballot_leader [of e ap al "counted i node" out disk u node' out' disk' u'] by (auto split: if_splits)
  next
    case no: False
    then have "node' = node" "disk' = disk"
      using run False by (auto simp: raft_handle_request_vote_response_def counts_def Let_def split: if_splits option.splits)
    then show ?thesis
      using assms(2) by simp
  qed
qed

text \<open>One tick: a leader sends heartbeats of its term, a node that has waited stands for election, and nothing else happens to the ballot.\<close>

lemma fold_post:
  "fold (\<lambda>p (out, y). (out @ [(f p, g p)], y)) ps (out, y) = (out @ map (\<lambda>p. (f p, g p)) ps, y)"
  by (induction ps arbitrary: out) auto

lemma heartbeats_site:
  assumes "send_heartbeats (site_callbacks e ap) now (node, [], disk, u) = (node', out', disk', u')"
  shows "ballot_of node' = ballot_of node \<and> disk' = disk \<and>
    (\<forall>(p, r) \<in> set out'. cstr p \<in> fst ` set (slips node) \<and> (\<exists>req. r = AppendEntries req \<and> ae_term req = current_term node))"
proof (cases "now - last_heartbeat_ms node \<ge> RAFT_HEARTBEAT_INTERVAL_MS")
  case True
  define n where "n = node\<lparr>last_heartbeat_ms := now, heartbeats_sent := heartbeats_sent node + 1\<rparr>"
  let ?h = "\<lambda>p (out, y). (out @ [(peer_node_id p, AppendEntries (heartbeat_request n p))], y)"
  have "send_heartbeats (site_callbacks e ap) now (node, [], disk, u) =
      fold (send_heartbeat (site_callbacks e ap)) [0..<length (peers n)] (n, [], disk, u)"
    using True by (simp add: send_heartbeats_def n_def)
  also have "\<dots> = (n, fold (\<lambda>i. ?h (peers n ! i)) [0..<length (peers n)] ([], disk, u))"
    by (rule fold_frame) (auto simp: send_heartbeat_def Let_def)
  finally have "(node', out', disk', u') = (n, fold ?h (peers n) ([], disk, u))"
    using assms fold_positions [of ?h "peers n"] by simp
  then show ?thesis
    by (auto simp: fold_post ballot_of_def slips_def heartbeat_request_def n_def image_image)
next
  case False
  then show ?thesis
    using assms by (auto simp: send_heartbeats_def)
qed

lemma become_candidate_site:
  "become_candidate (site_callbacks e ap) now rnd (node, [], disk, u) =
     (let node' = start_candidacy now rnd node
      in (node', map (\<lambda>p. (peer_node_id p, RequestVote (candidate_request node'))) (peers node'), Some (wal_bytes node'), u))"
  using become_candidate_queued [OF site_queues, of e ap now rnd node "([], disk, u)"]
  by (simp add: Let_def fold_post)

lemma ballot_tick:
  assumes run: "raft_tick (site_callbacks e ap) now now' rnd (node, [], disk, u) = Some (node', out, disk', u')"
  shows "ballot_of node' = ballot_of node \<and> disk' = disk \<and>
      (\<forall>(p, r) \<in> set out. state node = RAFT_STATE_LEADER \<and> cstr p \<in> fst ` set (slips node) \<and>
        (\<exists>req. r = AppendEntries req \<and> ae_term req = current_term node)) \<or>
    state node \<noteq> RAFT_STATE_LEADER \<and> ballot_of node' = ballot_of (start_candidacy now' rnd node) \<and>
      disk' = Some (wal_bytes (start_candidacy now' rnd node)) \<and>
      (\<forall>(p, r) \<in> set out. cstr p \<in> fst ` set (slips node) \<and> r = RequestVote (candidate_request (start_candidacy now' rnd node)))"
proof (cases "state node = RAFT_STATE_LEADER")
  case True
  then obtain n1 n2 out1 disk1 u1 where
    beat: "send_heartbeats (site_callbacks e ap) now (node, [], disk, u) = (n1, out1, disk1, u1)"
    and loop: "commit_loop (commit_index n1 + 1) n1 = Some n2"
    and app: "apply_committed_entries (site_callbacks e ap) (n2, out1, disk1, u1) = (node', out, disk', u')"
    using run by (auto simp: raft_tick_def leader_tick_def split: prod.splits)
  show ?thesis
    using heartbeats_site [OF beat] ballot_commit_loop [OF loop] ballot_apply [OF app] True by auto
next
  case False
  let ?c = "start_candidacy now' rnd node"
  have names: "\<forall>p \<in> set (peers ?c). cstr (peer_node_id p) \<in> fst ` set (slips node)"
    by (force simp: start_candidacy_def slips_def)
  show ?thesis
    using run False ballot_apply [of e ap _ _ _ _ node' out disk' u'] names
    by (fastforce simp: raft_tick_def follower_candidate_tick_def become_candidate_site Let_def split: if_splits)
qed

section \<open>Starting and restarting\<close>

lemma restore_entries_step:
  assumes "restore_entries e mem buf_mem i f node = Inr node'"
  shows "node' = node \<or> (\<exists>f' es. length f' < length f \<and>
    restore_entries e mem buf_mem (Suc i) f' (ensure_log_capacity (mem i) node\<lparr>log := es\<rparr>) = Inr node')"
  using assms
  by (subst (asm) restore_entries.simps) (fastforce simp: Let_def wal_sizes split: if_splits)

lemma ballot_restore_entries:
  "restore_entries e mem buf_mem i f node = Inr node' \<Longrightarrow> ballot_of node' = ballot_of node"
proof (induction f arbitrary: i node rule: length_induct)
  case (1 f)
  have "ballot_of (ensure_log_capacity al node\<lparr>log := es\<rparr>) = ballot_of node" for al es
    by (simp add: ensure_log_capacity_def ballot_of_def slips_def Let_def)
  then show ?case
    using restore_entries_step [OF 1(2)] 1(1) by metis
qed

definition opened :: "bytes option \<Rightarrow> open_result" where
  "opened disk = (case disk of None \<Rightarrow> NotFound | Some f \<Rightarrow> Opened f)"

lemma ballot_restore:
  assumes run: "raft_restore_state d mem buf_mem (opened disk) (Some n0) = Inr (0, Some node')"
    and "saved disk node" and "wf_cbuf 37 (voted_for node)"
    and n0: "current_term n0 = 0" "wf_cbuf 37 (voted_for n0)" "cstr (voted_for n0) = []"
  shows "node_id node' = node_id n0 \<and> state node' = state n0 \<and> slips node' = slips n0 \<and>
    current_term node' = current_term node \<and> cstr (voted_for node') = cstr (voted_for node) \<and>
    wf_cbuf 37 (voted_for node') \<and> saved disk node'"
proof (cases disk)
  case None
  then show ?thesis
    using run assms(2) n0 by (auto simp: opened_def raft_restore_state_def)
next
  case (Some f)
  then obtain n where n: "f = wal_bytes n" "current_term n = current_term node" "cstr (voted_for n) = cstr (voted_for node)"
    using assms(2) by (auto simp: saved.simps)
  let ?n = "n0\<lparr>current_term := current_term n,
               voted_for := strncpy (voted_for n0) (strncpy (zeros 37) (voted_for n) 36) 36\<rparr>"
  have split: "take sizeof_WalHeader f = header_bytes n" "drop sizeof_WalHeader f = concat (map entry_frame (log n))"
    by (simp_all add: n wal_bytes_def wal_sizes)
  have "raft_restore_state d mem buf_mem (Opened f) (Some n0) =
      (case restore_entries d mem buf_mem 0 (concat (map entry_frame (log n))) ?n of
         Inl fault \<Rightarrow> Inl fault | Inr node \<Rightarrow> Inr (0, Some node))"
    unfolding raft_restore_state_def option.case open_result.case Let_def split header_fields
    by (simp add: wal_sizes)
  then have same: "ballot_of node' = ballot_of ?n"
    using run Some ballot_restore_entries by (auto simp: opened_def split: sum.splits)
  have "cstr (voted_for ?n) = cstr (voted_for node)" and "wf_cbuf 37 (voted_for ?n)"
    using n0(2) cstr_strncpy [of 36 "voted_for n0"] cstr_strncpy [of 36 "zeros 37"] cstr_vote [OF assms(3)] n(3)
      strncpy_wf [of 36 "voted_for n0"] by simp_all
  then show ?thesis
    using ballot_fields [OF same] n Some by (auto simp: slips_def saved.simps)
qed

text \<open>A node as the program builds it: \<^verbatim>\<open>raft_init\<close>, then \<^verbatim>\<open>raft_add_peer\<close> for every other member.\<close>

definition fresh_node :: "(nat \<Rightarrow> bytes) \<Rightarrow> (nat \<Rightarrow> bytes \<times> u16) \<Rightarrow> nat \<Rightarrow> nat \<Rightarrow> nat \<Rightarrow> RaftNode" where
  "fresh_node ids addr N i rnd =
     fold (\<lambda>k node. snd (raft_add_peer memory_available node (ids k) (fst (addr k)) (snd (addr k))))
       (filter (\<lambda>k. k \<noteq> i) [0..<N]) (the (raft_init True rnd (ids i)))"

lemma find_peer_None: "find_peer node pid = None \<longleftrightarrow> cstr pid \<notin> fst ` set (slips node)"
proof -
  have "find_peer_from i ps pid = None \<longleftrightarrow> cstr pid \<notin> (cstr \<circ> peer_node_id) ` set ps" for i ps
    by (induction ps arbitrary: i) (auto simp: streq_def)
  then show ?thesis
    by (simp add: find_peer_def slips_def image_image comp_def)
qed

lemma add_peer_slips:
  assumes "cstr (ids k) \<notin> fst ` set (slips node)" and "length (cstr (ids k)) \<le> 36"
  shows "ballot_of (snd (raft_add_peer memory_available node (ids k) ip port)) =
    (node_id node, state node, current_term node, voted_for node, votes_received node, slips node @ [(cstr (ids k), False)])"
proof -
  have "find_peer node (ids k) = None"
    using assms(1) find_peer_None by blast
  then show ?thesis
    using assms(2) cstr_strncpy [of 36 "zeros 37" "ids k"]
    by (simp add: raft_add_peer_def ballot_of_def slips_def Let_def memory_available_def)
qed

lemma add_peers_slips:
  assumes "distinct (map fst (slips node) @ map (\<lambda>k. cstr (ids k)) ks)" and "\<forall>k \<in> set ks. length (cstr (ids k)) \<le> 36"
  shows "ballot_of (fold (\<lambda>k node. snd (raft_add_peer memory_available node (ids k) (fst (addr k)) (snd (addr k)))) ks node) =
    (node_id node, state node, current_term node, voted_for node, votes_received node,
     slips node @ map (\<lambda>k. (cstr (ids k), False)) ks)"
  using assms
proof (induction ks arbitrary: node)
  case (Cons k ks)
  let ?n = "snd (raft_add_peer memory_available node (ids k) (fst (addr k)) (snd (addr k)))"
  have "ballot_of ?n =
      (node_id node, state node, current_term node, voted_for node, votes_received node, slips node @ [(cstr (ids k), False)])"
    using Cons.prems by (intro add_peer_slips) auto
  then show ?case
    using Cons.IH [of ?n] Cons.prems by (simp add: ballot_of_def)
qed (simp add: ballot_of_def)

end
