(* ===== verification/Raft_Election.thy ===== *)
theory Raft_Election
  imports Election Raft_Ballot
begin

text \<open>
  A cluster of Raft nodes: the entry points of \<^verbatim>\<open>raft_core.c\<close> run on the nodes in any order, what they send may be lost, delayed, repeated and reordered,
  and a node may stop between two calls and restart from its state file. Every such run is a run of the protocol of
  \<^verbatim>\<open>Election\<close>, so two nodes never lead in the same term, however far apart in time.
\<close>

section \<open>The cluster\<close>

datatype packet =
    Vote_Request nat nat RaftRequestVoteReq
  | Vote_Reply nat nat RaftRequestVoteResp
  | Entries_Request nat nat RaftAppendEntriesReq
  | Entries_Reply nat nat RaftAppendEntriesResp

record cluster =
  site_node :: "nat \<Rightarrow> RaftNode"
  site_disk :: "nat \<Rightarrow> bytes option"
  packets :: "packet set"

definition put_site :: "nat \<Rightarrow> RaftNode \<Rightarrow> bytes option \<Rightarrow> packet set \<Rightarrow> cluster \<Rightarrow> cluster" where
  "put_site i node disk ps c =
     \<lparr>site_node = (site_node c)(i := node), site_disk = (site_disk c)(i := disk), packets = packets c \<union> ps\<rparr>"

text \<open>The queue of a site holds names; a packet goes to the member of that name.\<close>

definition addressed :: "(nat \<Rightarrow> bytes) \<Rightarrow> nat \<Rightarrow> nat \<Rightarrow> (bytes \<times> raft_request) list \<Rightarrow> packet set" where
  "addressed ids N i out =
     {Vote_Request i k req |k req. k < N \<and> (\<exists>p. (p, RequestVote req) \<in> set out \<and> streq p (ids k))} \<union>
     {Entries_Request i k req |k req. k < N \<and> (\<exists>p. (p, AppendEntries req) \<in> set out \<and> streq p (ids k))}"

text \<open>
  The term does not wrap: a node in the last of the \<open>2 ^ 64\<close> terms stands no more. A packet that was sent stays in \<open>packets\<close> and may be delivered
  at any time, several times or never.
\<close>

inductive cluster_step ::
  "(nat \<Rightarrow> bytes) \<Rightarrow> (nat \<Rightarrow> bytes \<times> u16) \<Rightarrow> endian \<Rightarrow> (bytes \<Rightarrow> 'u \<Rightarrow> 'u) \<Rightarrow> nat \<Rightarrow> cluster \<Rightarrow> cluster \<Rightarrow> bool"
  for ids addr e ap N where
  tick: "i < N \<Longrightarrow> current_term (site_node c i) \<noteq> - 1 \<Longrightarrow>
     raft_tick (site_callbacks e ap) now now' rnd (site_node c i, [], site_disk c i, u) = Some (node', out, disk', u') \<Longrightarrow>
     cluster_step ids addr e ap N c (put_site i node' disk' (addressed ids N i out) c)"
| request: "Vote_Request j i req \<in> packets c \<Longrightarrow>
     raft_handle_request_vote (site_callbacks e ap) now req (site_node c i, [], site_disk c i, u) = (resp, node', out, disk', u') \<Longrightarrow>
     cluster_step ids addr e ap N c (put_site i node' disk' {Vote_Reply i j resp} c)"
| reply: "Vote_Reply k i resp \<in> packets c \<Longrightarrow>
     raft_handle_request_vote_response (site_callbacks e ap) al (ids k) resp (site_node c i, [], site_disk c i, u) =
       (node', out, disk', u') \<Longrightarrow>
     cluster_step ids addr e ap N c (put_site i node' disk' {} c)"
| entries: "Entries_Request s i req \<in> packets c \<Longrightarrow>
     raft_handle_append_entries (site_callbacks e ap) als now req es cnt (site_node c i, [], site_disk c i, u) =
       Inr (resp, node', out, disk', u') \<Longrightarrow>
     cluster_step ids addr e ap N c (put_site i node' disk' {Entries_Reply i s resp} c)"
| entries_reply: "Entries_Reply k i resp \<in> packets c \<Longrightarrow>
     raft_handle_append_entries_response (site_callbacks e ap) (ids k) resp (site_node c i, [], site_disk c i, u) =
       (node', out, disk', u') \<Longrightarrow>
     cluster_step ids addr e ap N c (put_site i node' disk' {} c)"
| submit: "i < N \<Longrightarrow>
     raft_submit (site_callbacks e ap) al data (site_node c i, [], site_disk c i, u) = (rc, node', out, disk', u') \<Longrightarrow>
     cluster_step ids addr e ap N c (put_site i node' disk' {} c)"
| restart: "i < N \<Longrightarrow>
     raft_restore_state e mem buf_mem (opened (site_disk c i)) (Some (fresh_node ids addr N i rnd)) = Inr (0, Some node') \<Longrightarrow>
     cluster_step ids addr e ap N c (put_site i node' (site_disk c i) {} c)"

definition start_cluster :: "(nat \<Rightarrow> bytes) \<Rightarrow> (nat \<Rightarrow> bytes \<times> u16) \<Rightarrow> nat \<Rightarrow> cluster \<Rightarrow> bool" where
  "start_cluster ids addr N c \<longleftrightarrow>
     (\<forall>i<N. \<exists>rnd. site_node c i = fresh_node ids addr N i rnd) \<and> (\<forall>i<N. site_disk c i = None) \<and> packets c = {}"

text \<open>The members have different names, which fit the 36 bytes the code keeps of them.\<close>

definition distinct_names :: "(nat \<Rightarrow> bytes) \<Rightarrow> nat \<Rightarrow> bool" where
  "distinct_names ids N \<longleftrightarrow>
     N + 1 < 2 ^ 32 \<and> inj_on (\<lambda>k. cstr (ids k)) {..<N} \<and>
     (\<forall>k<N. cstr (ids k) \<noteq> [] \<and> length (cstr (ids k)) \<le> 36)"

section \<open>How a node mirrors a voter\<close>

definition member :: "(nat \<Rightarrow> bytes) \<Rightarrow> nat \<Rightarrow> nat \<Rightarrow> RaftNode \<Rightarrow> bool" where
  "member ids N i node \<longleftrightarrow>
     cstr (node_id node) = cstr (ids i) \<and> wf_cbuf 37 (voted_for node) \<and>
     distinct (map fst (slips node)) \<and> fst ` set (slips node) = (\<lambda>k. cstr (ids k)) ` ({..<N} - {i})"

definition votes :: "(nat \<Rightarrow> bytes) \<Rightarrow> nat \<Rightarrow> RaftNode \<Rightarrow> nat set" where
  "votes ids N node = {k. k < N \<and> (cstr (ids k), True) \<in> set (slips node)}"

definition choice :: "(nat \<Rightarrow> bytes) \<Rightarrow> nat \<Rightarrow> RaftNode \<Rightarrow> nat option \<Rightarrow> bool" where
  "choice ids N node ch \<longleftrightarrow>
     (case ch of None \<Rightarrow> cstr (voted_for node) = []
      | Some j \<Rightarrow> j < N \<and> cstr (voted_for node) = cstr (ids j))"

definition mirrors_voter :: "(nat \<Rightarrow> bytes) \<Rightarrow> nat \<Rightarrow> RaftNode \<Rightarrow> voter \<Rightarrow> bool" where
  "mirrors_voter ids N node v \<longleftrightarrow>
     v_role v = state node \<and> v_term v = current_term node \<and> choice ids N node (v_choice v) \<and>
     (state node = RAFT_STATE_CANDIDATE \<longrightarrow>
        v_tally v = votes ids N node \<and> unat (votes_received node) = card (v_tally v) + 1)"

text \<open>A packet is backed by the history of the election.\<close>

fun backed :: "(nat \<Rightarrow> bytes) \<Rightarrow> nat \<Rightarrow> election \<Rightarrow> packet \<Rightarrow> bool" where
  "backed ids N e (Vote_Request j i req) \<longleftrightarrow>
     j < N \<and> i < N \<and> i \<noteq> j \<and> (j, rv_term req) \<in> asked e \<and> cstr (rv_candidate_id req) = cstr (ids j)"
| "backed ids N e (Vote_Reply k i resp) \<longleftrightarrow>
     k < N \<and> i < N \<and> k \<noteq> i \<and>
     (rvr_vote_granted resp \<noteq> 0 \<longrightarrow> (\<exists>t \<ge> rvr_term resp. (k, t, i) \<in> granted e \<and> (i, t) \<in> asked e))"
| "backed ids N e (Entries_Request s i req) \<longleftrightarrow> s < N \<and> i < N \<and> (s, ae_term req, i) \<in> led e"
| "backed ids N e (Entries_Reply s i resp) \<longleftrightarrow> i < N"

definition mirrors :: "(nat \<Rightarrow> bytes) \<Rightarrow> nat \<Rightarrow> cluster \<Rightarrow> election \<Rightarrow> bool" where
  "mirrors ids N c e \<longleftrightarrow>
     (\<forall>i<N. member ids N i (site_node c i) \<and> saved (site_disk c i) (site_node c i) \<and>
        mirrors_voter ids N (site_node c i) (voters e i)) \<and>
     (\<forall>p \<in> packets c. backed ids N e p)"

lemma member_ballot: "ballot_of a = ballot_of b \<Longrightarrow> member ids N i a = member ids N i b"
  by (simp add: ballot_of_def member_def)

lemma mirrors_ballot: "ballot_of a = ballot_of b \<Longrightarrow> mirrors_voter ids N a v = mirrors_voter ids N b v"
  by (simp add: ballot_of_def mirrors_voter_def choice_def votes_def split: option.split)

lemma backed_mono:
  assumes "asked e \<subseteq> asked e'" "granted e \<subseteq> granted e'" "led e \<subseteq> led e'"
  shows "backed ids N e p \<Longrightarrow> backed ids N e' p"
  using assms by (cases p) auto

text \<open>Replacing one node: the other nodes and the packets on their way are not concerned.\<close>

lemma mirrors_put:
  assumes "mirrors ids N c e" and "voters e' = (voters e)(i := v)"
    and "asked e \<subseteq> asked e'" "granted e \<subseteq> granted e'" "led e \<subseteq> led e'"
    and "member ids N i node'" and "saved disk' node'" and "mirrors_voter ids N node' v" and "\<forall>p \<in> ps. backed ids N e' p"
  shows "mirrors ids N (put_site i node' disk' ps c) e'"
  using assms backed_mono [OF assms(3-5)] by (auto simp: mirrors_def put_site_def)

lemma mirrors_same:
  assumes "mirrors ids N c e" and "i < N" and "ballot_of node' = ballot_of (site_node c i)" and "saved disk' node'"
    and "\<forall>p \<in> ps. backed ids N e p"
  shows "mirrors ids N (put_site i node' disk' ps c) e"
  using assms
  by (intro mirrors_put [where v = "voters e i" and e = e])
    (auto simp: mirrors_def member_ballot [OF assms(3)] mirrors_ballot [OF assms(3)])

section \<open>Steps of a node are steps of its voter\<close>

text \<open>A node that adopts a later term.\<close>

lemma mirrors_adopt:
  assumes "mirrors ids N c e" and "i < N" and "current_term (site_node c i) < t"
    and node': "ballot_of node' = (node_id (site_node c i), RAFT_STATE_FOLLOWER, t, zeros 37, 0, slips (site_node c i))"
    and "saved disk' node'" and ps: "\<forall>p \<in> ps. backed ids N e p"
  shows "\<exists>e'. (election_step N)\<^sup>*\<^sup>* e e' \<and> mirrors ids N (put_site i node' disk' ps c) e'"
proof (intro exI conjI)
  let ?v = "(voters e i)\<lparr>v_role := RAFT_STATE_FOLLOWER, v_term := t, v_choice := None\<rparr>"
  have old: "member ids N i (site_node c i)" "mirrors_voter ids N (site_node c i) (voters e i)"
    using assms(1,2) by (auto simp: mirrors_def)
  show "(election_step N)\<^sup>*\<^sup>* e (set_voter i ?v e)"
    using assms(2,3) old(2) by (intro r_into_rtranclp adopt) (auto simp: mirrors_voter_def)
  show "mirrors ids N (put_site i node' disk' ps c) (set_voter i ?v e)"
  proof (rule mirrors_put [OF assms(1)])
    show "member ids N i node'" and "mirrors_voter ids N node' ?v"
      using old node' by (auto simp: member_def ballot_of_def mirrors_voter_def choice_def)
    show "\<forall>p \<in> ps. backed ids N (set_voter i ?v e) p"
      using ps backed_mono [of e "set_voter i ?v e"] by auto
  qed (use assms(5) in auto)
qed

text \<open>A node that stands for election.\<close>

lemma addressed_backed:
  assumes "p \<in> addressed ids N i out" and "distinct_names ids N" and "i < N"
    and "\<forall>(p, r) \<in> set out. cstr p \<in> (\<lambda>k. cstr (ids k)) ` ({..<N} - {i}) \<and> good r"
  shows "\<exists>k. k < N \<and> k \<noteq> i \<and>
    ((\<exists>req. p = Vote_Request i k req \<and> good (RequestVote req)) \<or> (\<exists>req. p = Entries_Request i k req \<and> good (AppendEntries req)))"
proof -
  have other: "k \<noteq> i" if "streq q (ids k)" "(q, r) \<in> set out" for q r k
    using that assms(2-4) by (force simp: streq_def distinct_names_def inj_on_def)
  show ?thesis
    using assms(1,4) other by (fastforce simp: addressed_def)
qed

lemma mirrors_stand:
  assumes "mirrors ids N c e" and "distinct_names ids N" and "i < N"
    and "state (site_node c i) \<noteq> RAFT_STATE_LEADER" and "current_term (site_node c i) \<noteq> - 1"
    and n: "n = start_candidacy now rnd (site_node c i)" and "ballot_of node' = ballot_of n"
    and ps: "\<forall>p \<in> ps. \<exists>k. k < N \<and> k \<noteq> i \<and> p = Vote_Request i k (candidate_request n)"
  shows "\<exists>e'. (election_step N)\<^sup>*\<^sup>* e e' \<and> mirrors ids N (put_site i node' (Some (wal_bytes n)) ps c) e'"
proof (intro exI conjI)
  let ?t = "current_term (site_node c i) + 1"
  let ?v = "\<lparr>v_role = RAFT_STATE_CANDIDATE, v_term = ?t, v_choice = Some i, v_tally = {}\<rparr>"
  let ?e = "set_voter i ?v (e\<lparr>asked := insert (i, ?t) (asked e)\<rparr>)"
  have old: "member ids N i (site_node c i)" "mirrors_voter ids N (site_node c i) (voters e i)"
    using assms(1,3) by (auto simp: mirrors_def)
  have fits: "length (cstr (ids i)) \<le> 36"
    using assms(2,3) by (simp add: distinct_names_def)
  have lt: "current_term (site_node c i) < ?t"
    using keeps_start_candidacy(1) [OF assms(5), of now rnd] by (simp add: start_candidacy_def)
  show "(election_step N)\<^sup>*\<^sup>* e ?e"
    using assms(3,4) old(2) lt by (intro r_into_rtranclp stand) (auto simp: mirrors_voter_def)
  show "mirrors ids N (put_site i node' (Some (wal_bytes n)) ps c) ?e"
  proof (rule mirrors_put [OF assms(1)])
    have slip: "slips n = map (\<lambda>(name, _). (name, False)) (slips (site_node c i))"
      by (simp add: n start_candidacy_def slips_def)
    have "member ids N i n"
      using old(1) strncpy_wf [of 36] slip by (auto simp: member_def n start_candidacy_def comp_def split_beta image_image)
    then show "member ids N i node'"
      by (simp add: member_ballot [OF assms(7)])
    have "cstr (voted_for n) = cstr (ids i)"
      using old(1) fits cstr_strncpy [of 36] by (simp add: n start_candidacy_def member_def)
    moreover have "votes ids N n = {}"
      by (auto simp: votes_def slip)
    ultimately have "mirrors_voter ids N n ?v"
      using assms(3) by (simp add: mirrors_voter_def choice_def) (simp add: n start_candidacy_def)
    then show "mirrors_voter ids N node' ?v"
      by (simp add: mirrors_ballot [OF assms(7)])
    have "cstr (rv_candidate_id (candidate_request n)) = cstr (ids i)" "rv_term (candidate_request n) = ?t"
      using old(1) fits cstr_strncpy [of 36 "zeros 37"]
      by (simp_all add: candidate_request_def member_def n start_candidacy_def)
    then show "\<forall>p \<in> ps. backed ids N ?e p"
      using ps assms(3) by fastforce
    show "saved (Some (wal_bytes n)) node'"
      by (rule saved_latest) (simp add: assms(7))
  qed auto
qed

text \<open>A leader that sends heartbeats.\<close>

lemma lead_all:
  assumes "i < N" and "v_role (voters e i) = RAFT_STATE_LEADER" and "finite K"
  shows "K \<subseteq> {..<N} - {i} \<Longrightarrow>
    (election_step N)\<^sup>*\<^sup>* e (e\<lparr>led := led e \<union> (\<lambda>k. (i, v_term (voters e i), k)) ` K\<rparr>)"
  using assms(3)
proof (induction K rule: finite_induct)
  case (insert k K)
  let ?e = "e\<lparr>led := led e \<union> (\<lambda>k. (i, v_term (voters e i), k)) ` K\<rparr>"
  have "election_step N ?e (?e\<lparr>led := insert (i, v_term (voters ?e i), k) (led ?e)\<rparr>)"
    using assms(1,2) insert.prems by (intro lead) auto
  then show ?case
    using insert by (simp add: rtranclp.rtrancl_into_rtrancl)
qed simp

lemma mirrors_lead:
  assumes "mirrors ids N c e" and "i < N" and "state (site_node c i) = RAFT_STATE_LEADER"
    and "ballot_of node' = ballot_of (site_node c i)" and "saved disk' node'"
    and ps: "\<forall>p \<in> ps. \<exists>k req. k < N \<and> k \<noteq> i \<and> p = Entries_Request i k req \<and> ae_term req = current_term (site_node c i)"
  shows "\<exists>e'. (election_step N)\<^sup>*\<^sup>* e e' \<and> mirrors ids N (put_site i node' disk' ps c) e'"
proof (intro exI conjI)
  let ?e = "e\<lparr>led := led e \<union> (\<lambda>k. (i, v_term (voters e i), k)) ` ({..<N} - {i})\<rparr>"
  have old: "member ids N i (site_node c i)" "mirrors_voter ids N (site_node c i) (voters e i)"
    using assms(1,2) by (auto simp: mirrors_def)
  show "(election_step N)\<^sup>*\<^sup>* e ?e"
    using assms(2,3) old(2) by (intro lead_all) (auto simp: mirrors_voter_def)
  show "mirrors ids N (put_site i node' disk' ps c) ?e"
  proof (rule mirrors_put [OF assms(1), where v = "voters e i"])
    show "member ids N i node'" "mirrors_voter ids N node' (voters e i)"
      using old by (simp_all add: member_ballot [OF assms(4)] mirrors_ballot [OF assms(4)])
    show "\<forall>p \<in> ps. backed ids N ?e p"
      using ps old(2) assms(2) by (fastforce simp: mirrors_voter_def)
  qed (use assms(5) in auto)
qed

text \<open>A node that is asked for its vote.\<close>

lemma same_name: "distinct_names ids N \<Longrightarrow> i < N \<Longrightarrow> j < N \<Longrightarrow> cstr (ids i) = cstr (ids j) \<Longrightarrow> i = j"
  by (auto simp: distinct_names_def inj_on_def)

lemma may_vote_free:
  assumes inv: "election_inv N e" and names: "distinct_names ids N" and m: "mirrors_voter ids N node (voters e i)"
    and "i < N" "j < N" "i \<noteq> j" and "may_vote_for node req" and cand: "cstr (rv_candidate_id req) = cstr (ids j)"
    and eq: "current_term node = rv_term req"
  shows "state node = RAFT_STATE_FOLLOWER" and "v_choice (voters e i) \<in> {None, Some j}"
proof -
  have free: "cstr (voted_for node) = [] \<or> cstr (voted_for node) = cstr (ids j)"
    using assms(7) cand eq by (auto simp: may_vote_for_iff)
  show ch: "v_choice (voters e i) \<in> {None, Some j}"
  proof (cases "v_choice (voters e i)")
    case (Some k)
    then have "k < N" "cstr (voted_for node) = cstr (ids k)"
      using m by (auto simp: mirrors_voter_def choice_def)
    then show ?thesis
      using free names same_name [OF names _ \<open>j < N\<close>] Some by (auto simp: distinct_names_def)
  qed simp
  show "state node = RAFT_STATE_FOLLOWER"
  proof (rule ccontr)
    assume "state node \<noteq> RAFT_STATE_FOLLOWER"
    then have "v_choice (voters e i) = Some i"
      using inv m \<open>i < N\<close> by (auto simp: election_inv_def standing_def mirrors_voter_def)
    then show False
      using ch \<open>i \<noteq> j\<close> by simp
  qed
qed

lemma mirrors_grant:
  assumes mir: "mirrors ids N c e" and inv: "election_inv N e" and names: "distinct_names ids N"
    and packet: "backed ids N e (Vote_Request j i req)" and may: "may_vote_for (site_node c i) req"
    and "saved disk' (after_vote_request now req (site_node c i))"
    and resp: "rvr_term resp = current_term (site_node c i)"
  shows "\<exists>e'. (election_step N)\<^sup>*\<^sup>* e e' \<and>
    mirrors ids N (put_site i (after_vote_request now req (site_node c i)) disk' {Vote_Reply i j resp} c) e'"
proof (intro exI conjI)
  let ?n = "site_node c i"
  let ?v = "(voters e i)\<lparr>v_role := RAFT_STATE_FOLLOWER, v_term := rv_term req, v_choice := Some j\<rparr>"
  let ?e = "set_voter i ?v (e\<lparr>granted := insert (i, rv_term req, j) (granted e)\<rparr>)"
  have ij: "i < N" "j < N" "i \<noteq> j" "(j, rv_term req) \<in> asked e" "cstr (rv_candidate_id req) = cstr (ids j)"
    using packet by simp_all
  have old: "member ids N i ?n" "mirrors_voter ids N ?n (voters e i)"
    using mir ij(1) by (auto simp: mirrors_def)
  have le: "current_term ?n \<le> rv_term req"
    using may by (simp add: may_vote_for_iff)
  note free = may_vote_free [OF inv names old(2) ij(1-3) may ij(5)]
  show "(election_step N)\<^sup>*\<^sup>* e ?e"
    using le free old(2) ij by (intro r_into_rtranclp grant) (auto simp: mirrors_voter_def)
  show "mirrors ids N (put_site i (after_vote_request now req ?n) disk' {Vote_Reply i j resp} c) ?e"
  proof (rule mirrors_put [OF mir])
    have wf: "wf_cbuf 37 (voted_for ?n)"
      using old(1) by (simp add: member_def)
    show "member ids N i (after_vote_request now req ?n)"
      using old(1) after_vote_request_wf [OF wf] by (simp add: member_def) (simp add: after_vote_request_def Let_def slips_def)
    have "cstr (voted_for (after_vote_request now req ?n)) = cstr (ids j)"
      using cstr_after_vote [OF wf may] ij(2,5) names by (simp add: distinct_names_def)
    moreover have "state (after_vote_request now req ?n) = RAFT_STATE_FOLLOWER"
      using le free(1) by (auto simp: after_vote_request_def Let_def)
    ultimately show "mirrors_voter ids N (after_vote_request now req ?n) ?v"
      using le ij(2) by (simp add: mirrors_voter_def choice_def after_vote_request_term max_def)
    show "\<forall>p \<in> {Vote_Reply i j resp}. backed ids N ?e p"
      using ij le resp by auto
  qed (use assms(6) in auto)
qed

text \<open>A candidate that counts a vote.\<close>

lemma counted_slips:
  assumes "counts pid resp node p"
  shows "p < length (slips node)" and "slips node ! p = (cstr pid, False)"
    and "slips (counted p node) = (slips node)[p := (cstr pid, True)]"
  using assms find_peer_bound [of node pid p] by (auto simp: counts_def counted_def slips_def map_update streq_def)

lemma counted_votes:
  assumes "counts (ids k) resp node p" and m: "member ids N i node" and names: "distinct_names ids N" and "k < N"
  shows "votes ids N (counted p node) = insert k (votes ids N node)" and "k \<notin> votes ids N node"
proof -
  note sl = counted_slips [OF assms(1)]
  have "(x, True) \<in> set (slips (counted p node)) \<longleftrightarrow> x = cstr (ids k) \<or> (x, True) \<in> set (slips node)" for x
  proof
    assume "(x, True) \<in> set (slips (counted p node))"
    then show "x = cstr (ids k) \<or> (x, True) \<in> set (slips node)"
      using sl(3) set_update_subset_insert [of "slips node" p] by auto
  next
    assume "x = cstr (ids k) \<or> (x, True) \<in> set (slips node)"
    then show "(x, True) \<in> set (slips (counted p node))"
    proof
      assume "x = cstr (ids k)"
      then show ?thesis
        using sl(1,3) by (simp add: set_update_memI)
    next
      assume "(x, True) \<in> set (slips node)"
      then obtain q where "q < length (slips node)" "slips node ! q = (x, True)"
        by (auto simp: in_set_conv_nth)
      then show ?thesis
        using sl by (auto simp: in_set_conv_nth nth_list_update intro!: exI [of _ q])
    qed
  qed
  then show "votes ids N (counted p node) = insert k (votes ids N node)"
    using same_name [OF names _ \<open>k < N\<close>] \<open>k < N\<close> by (auto simp: votes_def)
  have "(cstr (ids k), False) \<in> set (slips node)"
    using sl(1,2) nth_mem by metis
  then show "k \<notin> votes ids N node"
    using m by (auto simp: votes_def member_def dest: eq_key_imp_eq_value)
qed

lemma votes_bound: "finite (votes ids N node)" "card (votes ids N node) \<le> N"
proof -
  have "votes ids N node \<subseteq> {..<N}"
    by (auto simp: votes_def)
  then show "finite (votes ids N node)" "card (votes ids N node) \<le> N"
    using card_mono [of "{..<N}" "votes ids N node"] by (auto intro: finite_subset)
qed

lemma wins_iff:
  assumes "member ids N i node" and "distinct_names ids N" and "i < N"
  shows "wins node \<longleftrightarrow> unat (votes_received node) > N div 2"
proof -
  have "length (slips node) = card (fst ` set (slips node))"
    using assms(1) distinct_card [of "map fst (slips node)"] by (simp add: member_def)
  also have "\<dots> = card ({..<N} - {i})"
    using assms(1,2) inj_on_subset by (fastforce simp: member_def distinct_names_def intro!: card_image)
  finally have "length (peers node) + 1 = N"
    using assms(3) by (simp add: slips_def)
  then show ?thesis
    by (simp add: wins_def)
qed

lemma counted_mirrors:
  assumes "counts (ids k) resp node p" and m: "member ids N i node" and names: "distinct_names ids N" and "k < N" and "i < N"
    and mv: "mirrors_voter ids N node v"
  shows "member ids N i (counted p node)"
    and "mirrors_voter ids N (counted p node) (v\<lparr>v_tally := insert k (v_tally v)\<rparr>)"
proof -
  note sl = counted_slips [OF assms(1)] and vo = counted_votes [OF assms(1) m names assms(4)]
  have cand: "state node = RAFT_STATE_CANDIDATE"
    using assms(1) by (simp add: counts_def)
  have "map fst (slips (counted p node)) = map fst (slips node)"
    using sl by (simp add: map_update list_update_same_conv)
  then have "fst ` set (slips (counted p node)) = fst ` set (slips node)" "distinct (map fst (slips (counted p node)))"
    using m by (metis list.set_map, simp add: member_def)
  then show "member ids N i (counted p node)"
    using m by (simp add: member_def) (simp add: counted_def)
  have tally: "v_tally v = votes ids N node" and "unat (votes_received node) = card (votes ids N node) + 1"
    using mv cand by (auto simp: mirrors_voter_def)
  moreover have "votes_received node \<noteq> - 1"
  proof
    assume "votes_received node = - 1"
    then have "unat (votes_received node) = 2 ^ 32 - 1"
      by (simp add: unsigned_minus_1_eq_mask mask_eq_exp_minus_1)
    then show False
      using calculation(2) votes_bound(2) [of ids N "counted p node"] votes_bound(1) [of ids N node] vo names
      by (simp add: distinct_names_def)
  qed
  ultimately have "unat (votes_received node + 1) = card (insert k (votes ids N node)) + 1"
    using votes_bound(1) [of ids N node] vo(2) by (simp add: unat_plus_one)
  then show "mirrors_voter ids N (counted p node) (v\<lparr>v_tally := insert k (v_tally v)\<rparr>)"
    using mv cand vo(1) tally by (simp add: mirrors_voter_def choice_def) (simp add: counted_def split: option.splits)
qed

lemma counted_backed:
  assumes "mirrors ids N c e" and "election_inv N e" and "backed ids N e (Vote_Reply k i resp)" and "counts pid resp (site_node c i) p"
  shows "k < N" "i < N" "v_role (voters e i) = RAFT_STATE_CANDIDATE" "(k, v_term (voters e i), i) \<in> granted e"
proof -
  obtain t where ik: "k < N" "i < N" and t: "rvr_term resp \<le> t" "(k, t, i) \<in> granted e" "(i, t) \<in> asked e"
    using assms(3,4) by (auto simp: counts_def)
  then have cand: "v_role (voters e i) = RAFT_STATE_CANDIDATE" "v_term (voters e i) = rvr_term resp"
    using assms(1,4) by (auto simp: counts_def mirrors_def mirrors_voter_def)
  moreover have "t \<le> v_term (voters e i)"
    using assms(2) t(3) by (auto simp: election_inv_def asking_def)
  ultimately show "k < N" "i < N" "v_role (voters e i) = RAFT_STATE_CANDIDATE" "(k, v_term (voters e i), i) \<in> granted e"
    using ik t by auto
qed

lemma mirrors_count:
  assumes mir: "mirrors ids N c e" and inv: "election_inv N e" and names: "distinct_names ids N"
    and packet: "backed ids N e (Vote_Reply k i resp)" and co: "counts (ids k) resp (site_node c i) p"
    and node': "ballot_of node' = ballot_of (if wins (counted p (site_node c i)) then (counted p (site_node c i))\<lparr>state := RAFT_STATE_LEADER\<rparr>
        else counted p (site_node c i))" and "saved disk' node'"
  shows "\<exists>e'. (election_step N)\<^sup>*\<^sup>* e e' \<and> mirrors ids N (put_site i node' disk' {} c) e'"
proof -
  let ?n = "counted p (site_node c i)"
  let ?v = "(voters e i)\<lparr>v_tally := insert k (v_tally (voters e i))\<rparr>"
  let ?e = "set_voter i ?v e"
  let ?w = "set_voter i (?v\<lparr>v_role := RAFT_STATE_LEADER\<rparr>) (?e\<lparr>won := insert (i, v_term ?v) (won ?e)\<rparr>)"
  note bk = counted_backed [OF mir inv packet co] and ik = counted_backed(1,2) [OF mir inv packet co]
  have old: "member ids N i (site_node c i)" "mirrors_voter ids N (site_node c i) (voters e i)"
    using mir ik(2) by (auto simp: mirrors_def)
  have step: "election_step N e ?e"
    using bk by (intro count) auto
  note new = counted_mirrors [OF co old(1) names ik old(2)]
  show ?thesis
  proof (cases "wins ?n")
    case True
    have "state ?n = RAFT_STATE_CANDIDATE"
      using co by (simp add: counts_def counted_def)
    then have "unat (votes_received ?n) = card (v_tally ?v) + 1"
      using new(2) by (simp add: mirrors_voter_def)
    then have "election_step N ?e ?w"
      using win [of i N ?e] bk True wins_iff [OF new(1) names ik(2)] by simp
    then have "(election_step N)\<^sup>*\<^sup>* e ?w"
      using step by simp
    moreover have "mirrors ids N (put_site i node' disk' {} c) ?w"
    proof (rule mirrors_put [OF mir])
      show "member ids N i node'"
        using new(1) node' True by (simp add: member_def ballot_of_def slips_def)
      show "mirrors_voter ids N node' (?v\<lparr>v_role := RAFT_STATE_LEADER\<rparr>)"
        using new(2) node' True by (simp add: mirrors_voter_def ballot_of_def choice_def split: option.splits)
    qed (use assms(7) in auto)
    ultimately show ?thesis
      by blast
  next
    case False
    then have "mirrors ids N (put_site i node' disk' {} c) ?e"
      using new node' assms(7) member_ballot [of node' ?n] mirrors_ballot [of node' ?n] by (intro mirrors_put [OF mir]) auto
    then show ?thesis
      using step by blast
  qed
qed

text \<open>A node that hears from a leader.\<close>

lemma mirrors_entries:
  assumes mir: "mirrors ids N c e" and packet: "backed ids N e (Entries_Request s i req)"
    and node': "ballot_of node' = (if ae_term req < current_term (site_node c i) then ballot_of (site_node c i) else ballot_of (adopt_leader now req (site_node c i)))"
    and disk: "saved disk' node'"
  shows "\<exists>e'. (election_step N)\<^sup>*\<^sup>* e e' \<and> mirrors ids N (put_site i node' disk' {Entries_Reply i s resp} c) e'"
proof -
  let ?n = "site_node c i"
  have i: "s < N" "i < N" "(s, ae_term req, i) \<in> led e"
    using packet by simp_all
  have old: "member ids N i ?n" "mirrors_voter ids N ?n (voters e i)"
    using mir i(2) by (auto simp: mirrors_def)
  have adopted: "ballot_of (adopt_leader now req ?n) = (node_id ?n, RAFT_STATE_FOLLOWER, ae_term req, zeros 37, 0, slips ?n)"
    if "ae_term req > current_term ?n \<or> ae_term req = current_term ?n \<and> state ?n \<noteq> RAFT_STATE_FOLLOWER"
    using that by (auto simp: adopt_leader_def ballot_of_def slips_def Let_def)
  consider "ballot_of node' = ballot_of ?n" | "current_term ?n < ae_term req" | "ae_term req = current_term ?n" "state ?n \<noteq> RAFT_STATE_FOLLOWER"
    using node' by (fastforce simp: adopt_leader_def ballot_of_def slips_def Let_def not_less_iff_gr_or_eq split: if_splits)
  then show ?thesis
  proof cases
    case 1
    then show ?thesis
      using mirrors_same [OF mir i(2) 1 disk] i by auto
  next
    case 2
    then have "ballot_of node' = (node_id ?n, RAFT_STATE_FOLLOWER, ae_term req, zeros 37, 0, slips ?n)"
      using adopted node' by (metis less_not_sym)
    from mirrors_adopt [OF mir i(2) 2 this disk] i show ?thesis
      by simp
  next
    case 3
    let ?v = "(voters e i)\<lparr>v_role := RAFT_STATE_FOLLOWER, v_choice := None\<rparr>"
    have "election_step N e (set_voter i ?v e)"
      using i 3 old(2) by (intro follow [of i N s]) (auto simp: mirrors_voter_def)
    moreover have "mirrors ids N (put_site i node' disk' {Entries_Reply i s resp} c) (set_voter i ?v e)"
      using old adopted node' 3 i disk
      by (intro mirrors_put [OF mir, where v = ?v]) (auto simp: member_def ballot_of_def mirrors_voter_def choice_def)
    ultimately show ?thesis
      by blast
  qed
qed

section \<open>Every run is an election\<close>

lemma fresh_node_ballot:
  assumes "distinct_names ids N" and "i < N"
  shows "\<exists>name. cstr name = cstr (ids i) \<and>
    ballot_of (fresh_node ids addr N i rnd) =
      (name, RAFT_STATE_FOLLOWER, 0, zeros 37, 0, map (\<lambda>k. (cstr (ids k), False)) (filter (\<lambda>k. k \<noteq> i) [0..<N]))"
proof -
  let ?n = "the (raft_init True rnd (ids i))"
  have "distinct (map (\<lambda>k. cstr (ids k)) (filter (\<lambda>k. k \<noteq> i) [0..<N]))"
    using assms(1) by (auto simp: distinct_map distinct_names_def inj_on_def)
  then have "ballot_of (fresh_node ids addr N i rnd) =
      (node_id ?n, state ?n, current_term ?n, voted_for ?n, votes_received ?n,
       slips ?n @ map (\<lambda>k. (cstr (ids k), False)) (filter (\<lambda>k. k \<noteq> i) [0..<N]))"
    unfolding fresh_node_def using assms(1)
    by (intro add_peers_slips) (auto simp: raft_init_def slips_def distinct_names_def)
  then show ?thesis
    using assms cstr_strncpy [of 36 "zeros 37" "ids i"]
    by (intro exI [of _ "node_id ?n"]) (simp add: raft_init_def slips_def distinct_names_def)
qed

lemma fresh_member:
  assumes "distinct_names ids N" and "i < N"
  shows "member ids N i (fresh_node ids addr N i rnd)"
proof -
  obtain name where "cstr name = cstr (ids i)" and b: "ballot_of (fresh_node ids addr N i rnd) =
      (name, RAFT_STATE_FOLLOWER, 0, zeros 37, 0, map (\<lambda>k. (cstr (ids k), False)) (filter (\<lambda>k. k \<noteq> i) [0..<N]))"
    using fresh_node_ballot [OF assms] by blast
  moreover have "distinct (map (\<lambda>k. cstr (ids k)) (filter (\<lambda>k. k \<noteq> i) [0..<N]))"
    using assms(1) by (auto simp: distinct_map distinct_names_def inj_on_def)
  ultimately show ?thesis
    by (auto simp: member_def ballot_of_def comp_def image_image)
qed

lemma mirrors_restart:
  assumes mir: "mirrors ids N c e" and names: "distinct_names ids N" and "i < N"
    and run: "raft_restore_state d mem buf_mem (opened (site_disk c i)) (Some (fresh_node ids addr N i rnd)) = Inr (0, Some node')"
  shows "\<exists>e'. (election_step N)\<^sup>*\<^sup>* e e' \<and> mirrors ids N (put_site i node' (site_disk c i) {} c) e'"
proof -
  let ?v = "(voters e i)\<lparr>v_role := RAFT_STATE_FOLLOWER\<rparr>"
  have old: "member ids N i (site_node c i)" "saved (site_disk c i) (site_node c i)" "mirrors_voter ids N (site_node c i) (voters e i)"
    using mir \<open>i < N\<close> by (auto simp: mirrors_def)
  have fresh: "current_term (fresh_node ids addr N i rnd) = 0" "voted_for (fresh_node ids addr N i rnd) = zeros 37"
    "state (fresh_node ids addr N i rnd) = RAFT_STATE_FOLLOWER"
    using fresh_node_ballot [OF names \<open>i < N\<close>, of addr rnd] by (auto simp: ballot_of_def)
  have new: "node_id node' = node_id (fresh_node ids addr N i rnd)" "state node' = RAFT_STATE_FOLLOWER"
    "slips node' = slips (fresh_node ids addr N i rnd)" "current_term node' = current_term (site_node c i)"
    "cstr (voted_for node') = cstr (voted_for (site_node c i))" "wf_cbuf 37 (voted_for node')" "saved (site_disk c i) node'"
    using ballot_restore [OF run old(2)] old(1) fresh by (auto simp: member_def)
  have "election_step N e (set_voter i ?v e)"
    by (rule election_step.restart) (rule \<open>i < N\<close>)
  moreover have "mirrors ids N (put_site i node' (site_disk c i) {} c) (set_voter i ?v e)"
  proof (rule mirrors_put [OF mir])
    show "member ids N i node'"
      using fresh_member [OF names \<open>i < N\<close>, of addr rnd] new by (simp add: member_def)
    show "mirrors_voter ids N node' ?v"
      using old(3) new by (simp add: mirrors_voter_def choice_def split: option.splits)
  qed (use new in auto)
  ultimately show ?thesis
    by blast
qed

lemma tick_run:
  assumes mir: "mirrors ids N c e" and names: "distinct_names ids N" and i: "i < N" "current_term (site_node c i) \<noteq> - 1"
    and run: "raft_tick (site_callbacks d ap) now now' rnd (site_node c i, [], site_disk c i, u) = Some (node', out, disk', u')"
  shows "\<exists>e'. (election_step N)\<^sup>*\<^sup>* e e' \<and> mirrors ids N (put_site i node' disk' (addressed ids N i out) c) e'"
proof -
  let ?n = "site_node c i" and ?c = "start_candidacy now' rnd (site_node c i)"
  have m: "saved (site_disk c i) ?n" "fst ` set (slips ?n) = (\<lambda>k. cstr (ids k)) ` ({..<N} - {i})"
    using mir i(1) by (auto simp: mirrors_def member_def)
  consider "ballot_of node' = ballot_of ?n" "disk' = site_disk c i" "out = []"
    | "ballot_of node' = ballot_of ?n" "disk' = site_disk c i" "state ?n = RAFT_STATE_LEADER"
      "\<forall>(p, r) \<in> set out. cstr p \<in> fst ` set (slips ?n) \<and> (\<exists>req. r = AppendEntries req \<and> ae_term req = current_term ?n)"
    | "state ?n \<noteq> RAFT_STATE_LEADER" "ballot_of node' = ballot_of ?c" "disk' = Some (wal_bytes ?c)"
      "\<forall>(p, r) \<in> set out. cstr p \<in> fst ` set (slips ?n) \<and> r = RequestVote (candidate_request ?c)"
    using ballot_tick [OF run] by (cases "out = []") (blast, fastforce dest: hd_in_set)
  then show ?thesis
  proof cases
    case 1
    then have "mirrors ids N (put_site i node' disk' (addressed ids N i out) c) e"
      using m(1) saved_ballot [OF 1(1)] by (intro mirrors_same [OF mir i(1)]) (auto simp: addressed_def)
    then show ?thesis
      by blast
  next
    case 2
    then have "\<forall>p \<in> addressed ids N i out. \<exists>k req. k < N \<and> k \<noteq> i \<and> p = Entries_Request i k req \<and> ae_term req = current_term ?n"
      using addressed_backed [OF _ names i(1), of _ out "\<lambda>r. \<exists>req. r = AppendEntries req \<and> ae_term req = current_term ?n"] m(2) by fastforce
    then show ?thesis
      using mirrors_lead [OF mir i(1) 2(3,1)] m(1) 2 saved_ballot [OF 2(1)] by simp
  next
    case 3
    then have "\<forall>p \<in> addressed ids N i out. \<exists>k. k < N \<and> k \<noteq> i \<and> p = Vote_Request i k (candidate_request ?c)"
      using addressed_backed [OF _ names i(1), of _ out "\<lambda>r. r = RequestVote (candidate_request ?c)"] m(2) by fastforce
    then show ?thesis
      using mirrors_stand [OF mir names i(1) 3(1) i(2) refl 3(2)] 3(3) by simp
  qed
qed

lemma request_run:
  assumes mir: "mirrors ids N c e" and inv: "election_inv N e" and names: "distinct_names ids N" and packet: "Vote_Request j i req \<in> packets c"
    and run: "raft_handle_request_vote (site_callbacks d ap) now req (site_node c i, [], site_disk c i, u) = (resp, node', out, disk', u')"
  shows "\<exists>e'. (election_step N)\<^sup>*\<^sup>* e e' \<and> mirrors ids N (put_site i node' disk' {Vote_Reply i j resp} c) e'"
proof -
  let ?n = "site_node c i"
  have p: "backed ids N e (Vote_Request j i req)"
    using mir packet by (auto simp: mirrors_def)
  then have i: "i < N" "j < N" "i \<noteq> j" and m: "saved (site_disk c i) ?n"
    using mir by (auto simp: mirrors_def)
  note r = ballot_request [OF run m]
  show ?thesis
  proof (cases "may_vote_for ?n req")
    case True
    then show ?thesis
      using mirrors_grant [OF mir inv names p True] r by simp
  next
    case no: False
    then have ps: "\<forall>p \<in> {Vote_Reply i j resp}. backed ids N e p"
      using r(1) i by simp
    show ?thesis
    proof (cases "current_term ?n < rv_term req")
      case True
      then have "ballot_of node' = (node_id ?n, RAFT_STATE_FOLLOWER, rv_term req, zeros 37, 0, slips ?n)"
        using r(2) no by (simp add: after_vote_request_def ballot_of_def slips_def Let_def)
      then show ?thesis
        using mirrors_adopt [OF mir i(1) True _ r(3) ps] by simp
    next
      case False
      then have "ballot_of node' = ballot_of ?n"
        using r(2) no by (simp add: after_vote_request_def Let_def)
      then show ?thesis
        using mirrors_same [OF mir i(1) _ r(3) ps] by blast
    qed
  qed
qed

lemma reply_run:
  assumes mir: "mirrors ids N c e" and inv: "election_inv N e" and names: "distinct_names ids N" and packet: "Vote_Reply k i resp \<in> packets c"
    and run: "raft_handle_request_vote_response (site_callbacks d ap) al (ids k) resp (site_node c i, [], site_disk c i, u) = (node', out, disk', u')"
  shows "\<exists>e'. (election_step N)\<^sup>*\<^sup>* e e' \<and> mirrors ids N (put_site i node' disk' {} c) e'"
proof -
  let ?n = "site_node c i"
  have p: "backed ids N e (Vote_Reply k i resp)"
    using mir packet by (auto simp: mirrors_def)
  then have i: "i < N" and m: "saved (site_disk c i) ?n"
    using mir by (auto simp: mirrors_def)
  from ballot_reply [OF run m] have d: "saved disk' node'" and
    "rvr_term resp > current_term ?n \<and>
       ballot_of node' = (node_id ?n, RAFT_STATE_FOLLOWER, rvr_term resp, zeros 37, 0, slips ?n) \<or>
     ballot_of node' = ballot_of ?n \<or>
     (\<exists>q. counts (ids k) resp ?n q \<and>
       ballot_of node' = ballot_of (if wins (counted q ?n) then (counted q ?n)\<lparr>state := RAFT_STATE_LEADER\<rparr> else counted q ?n))"
    by auto
  then show ?thesis
    using mirrors_adopt [OF mir i _ _ d, of "rvr_term resp" "{}"] mirrors_same [OF mir i _ d, of "{}"]
      mirrors_count [OF mir inv names p _ _ d] by blast
qed

lemma simulation:
  assumes "cluster_step ids addr d ap N c c'" and mir: "mirrors ids N c e" and inv: "election_inv N e" and names: "distinct_names ids N"
  shows "\<exists>e'. (election_step N)\<^sup>*\<^sup>* e e' \<and> mirrors ids N c' e'"
  using assms(1)
proof cases
  case (tick i now now' rnd u node' out disk' u')
  then show ?thesis
    using tick_run [OF mir names tick(2,3,4)] tick(1) by simp
next
  case (request j i req now u resp node' out disk' u')
  then show ?thesis
    using request_run [OF mir inv names request(2,3)] by simp
next
  case (reply k i resp al u node' out disk' u')
  then show ?thesis
    using reply_run [OF mir inv names reply(2,3)] by simp
next
  case (entries s i req als now es cnt u resp node' out disk' u')
  then have "backed ids N e (Entries_Request s i req)" "saved (site_disk c i) (site_node c i)"
    using mir by (force simp: mirrors_def)+
  then show ?thesis
    using mirrors_entries [OF mir] ballot_entries [OF entries(3)] entries(1) by blast
next
  case (entries_reply k i resp u node' out disk' u')
  then have i: "i < N" "saved (site_disk c i) (site_node c i)"
    using mir by (force simp: mirrors_def)+
  note b = ballot_entries_reply [OF entries_reply(3) i(2)]
  show ?thesis
    using mirrors_adopt [OF mir i(1) _ _ b(2), of "aer_term resp" "{}"] mirrors_same [OF mir i(1) _ b(2), of "{}"] b(1) entries_reply(1)
    by (cases "current_term (site_node c i) < aer_term resp") auto
next
  case (submit i al data u rc node' out disk' u')
  then have "saved (site_disk c i) (site_node c i)"
    using mir by (simp add: mirrors_def)
  then show ?thesis
    using mirrors_same [OF mir submit(2) ballot_submit(1) [OF submit(3)] ballot_submit(2) [OF submit(3)], of "{}"] submit(1) by auto
next
  case (restart i mem buf_mem rnd node')
  then show ?thesis
    using mirrors_restart [OF mir names restart(2,3)] by simp
qed

interpretation cluster: forward_simulation "cluster_step ids addr d ap N" "election_step N"
    "\<lambda>c e. distinct_names ids N \<and> mirrors ids N c e" "election_inv N" for ids addr d ap N
proof unfold_locales
  fix c c' e
  assume "cluster_step ids addr d ap N c c'" "distinct_names ids N \<and> mirrors ids N c e" "election_inv N e"
  then show "\<exists>e'. (election_step N)\<^sup>*\<^sup>* e e' \<and> distinct_names ids N \<and> mirrors ids N c' e'"
    using simulation by blast
qed (rule election_inv_step)

definition idle :: election where
  "idle = \<lparr>voters = (\<lambda>_. \<lparr>v_role = RAFT_STATE_FOLLOWER, v_term = 0, v_choice = None, v_tally = {}\<rparr>),
           asked = {}, granted = {}, won = {}, led = {}\<rparr>"

lemma idle_start: "new_election idle"
  by (simp add: new_election_def idle_def)

lemma idle_mirrors:
  assumes "start_cluster ids addr N c" and "distinct_names ids N"
  shows "mirrors ids N c idle"
  unfolding mirrors_def
proof (intro conjI allI impI)
  fix i
  assume i: "i < N"
  obtain rnd where n: "site_node c i = fresh_node ids addr N i rnd" and "site_disk c i = None"
    using assms(1) i by (auto simp: start_cluster_def)
  then show "member ids N i (site_node c i)" "saved (site_disk c i) (site_node c i)" "mirrors_voter ids N (site_node c i) (voters idle i)"
    using fresh_member [OF assms(2) i, of addr rnd] fresh_node_ballot [OF assms(2) i, of addr rnd]
    by (auto simp: ballot_of_def mirrors_voter_def choice_def idle_def)
qed (use assms(1) in \<open>simp add: start_cluster_def\<close>)

section \<open>Election safety\<close>

text \<open>A node acts as the leader of a term while it is in that role, and in every AppendEntries request it has sent.\<close>

definition acts_as_leader :: "cluster \<Rightarrow> nat \<Rightarrow> u64 \<Rightarrow> bool" where
  "acts_as_leader c i t \<longleftrightarrow>
     state (site_node c i) = RAFT_STATE_LEADER \<and> current_term (site_node c i) = t \<or>
     (\<exists>k req. Entries_Request i k req \<in> packets c \<and> ae_term req = t)"

lemma leader_has_won:
  assumes "mirrors ids N c e" and "election_inv N e" and "i < N" and "acts_as_leader c i t"
  shows "(i, t) \<in> won e"
proof -
  have lead: "leading N e"
    using assms(2) by (simp add: election_inv_def)
  consider "state (site_node c i) = RAFT_STATE_LEADER" "current_term (site_node c i) = t"
    | k req where "backed ids N e (Entries_Request i k req)" "ae_term req = t"
    using assms(1,4) unfolding acts_as_leader_def mirrors_def by blast
  then show ?thesis
    using lead assms(1,3) by cases (auto simp: leading_def mirrors_def mirrors_voter_def)
qed

text \<open>A cluster of three in which the first node stands, the second votes for it, and the first wins.\<close>

definition three :: "nat \<Rightarrow> bytes" where
  "three k = [110, of_nat (49 + k)]"

definition nowhere :: "nat \<Rightarrow> bytes \<times> u16" where
  "nowhere k = ([], 0)"

definition three_nodes :: cluster where
  "three_nodes = \<lparr>site_node = (\<lambda>i. fresh_node three nowhere 3 i 0), site_disk = (\<lambda>_. None), packets = {}\<rparr>"

lemma three_names: "distinct_names three 3"
  by (auto simp: distinct_names_def inj_on_def three_def cstr_def less_Suc_eq numeral_3_eq_3)

lemma three_start: "start_cluster three nowhere 3 three_nodes"
  by (auto simp: start_cluster_def three_nodes_def)

lemma fresh_node_base:
  "\<exists>ps cap. fresh_node ids addr N i rnd = (the (raft_init True rnd (ids i)))\<lparr>peers := ps, peer_capacity := cap\<rparr>"
proof -
  have "\<exists>ps cap. fold (\<lambda>k node. snd (raft_add_peer memory_available node (ids k) (fst (addr k)) (snd (addr k)))) ks node =
      node\<lparr>peers := ps, peer_capacity := cap\<rparr>" for ks node
  proof (induction ks arbitrary: node)
    case Nil
    show ?case
      by (intro exI [of _ "peers node"] exI [of _ "peer_capacity node"]) simp
  next
    case (Cons k ks)
    let ?n = "snd (raft_add_peer memory_available node (ids k) (fst (addr k)) (snd (addr k)))"
    have "?n = node\<lparr>peers := peers ?n, peer_capacity := peer_capacity ?n\<rparr>"
      by (simp add: raft_add_peer_def Let_def)
    then obtain ps cap where "?n = node\<lparr>peers := ps, peer_capacity := cap\<rparr>"
      by blast
    then show ?case
      using Cons.IH [of ?n] by auto
  qed
  then show ?thesis
    by (simp add: fresh_node_def)
qed

lemma fresh_node_fields:
  "log (fresh_node ids addr N i rnd) = []" "last_snapshot_index (fresh_node ids addr N i rnd) = 0"
  "last_snapshot_term (fresh_node ids addr N i rnd) = 0" "commit_index (fresh_node ids addr N i rnd) = 0"
  "last_applied (fresh_node ids addr N i rnd) = 0" "last_heartbeat_ms (fresh_node ids addr N i rnd) = 0"
  "election_timeout_ms (fresh_node ids addr N i rnd) = random_election_timeout rnd"
  "state (fresh_node ids addr N i rnd) = RAFT_STATE_FOLLOWER" "current_term (fresh_node ids addr N i rnd) = 0"
  using fresh_node_base [of ids addr N i rnd] by (auto simp: raft_init_def)

lemma fresh_node_tick:
  fixes ids addr N rnd
  defines "n0 \<equiv> start_candidacy 200 0 (fresh_node ids addr N 0 0)"
  shows "raft_tick (site_callbacks d ap) 200 200 0 (fresh_node ids addr N 0 0, [], disk, u) =
    Some (n0, map (\<lambda>p. (peer_node_id p, RequestVote (candidate_request n0))) (peers n0), Some (wal_bytes n0), u)"
proof -
  have "commit_index n0 = 0"
    by (simp add: n0_def start_candidacy_def fresh_node_fields)
  then show ?thesis
    by (simp add: raft_tick_def follower_candidate_tick_def become_candidate_site fresh_node_fields random_election_timeout_def
        RAFT_ELECTION_TIMEOUT_MIN_MS_def apply_committed_entries.simps n0_def Let_def)
qed

lemma three_slips:
  "slips (fresh_node three nowhere 3 0 0) = [(cstr (three 1), False), (cstr (three 2), False)]"
  "cstr (node_id (fresh_node three nowhere 3 0 0)) = cstr (three 0)"
  "voted_for (fresh_node three nowhere 3 0 0) = zeros 37" "voted_for (fresh_node three nowhere 3 1 0) = zeros 37"
  using fresh_node_ballot [OF three_names, of 0 nowhere 0] fresh_node_ballot [OF three_names, of 1 nowhere 0]
  by (auto simp: ballot_of_def upt_rec numeral_2_eq_2)

text \<open>The second node is asked twice: its first answer still carries the term it was in before.\<close>

lemma three_vote:
  fixes req
  defines "req \<equiv> candidate_request (start_candidacy 200 0 (fresh_node three nowhere 3 0 0))"
    and "n1 \<equiv> fresh_node three nowhere 3 1 0"
  shows "rv_term req = 1" "may_vote_for n1 req" "may_vote_for (after_vote_request 210 req n1) req"
proof -
  have req: "rv_last_log_term req = 0" "rv_last_log_index req = 0" "cstr (rv_candidate_id req) = cstr (three 0)"
    using cstr_strncpy [of 36 "zeros 37"] three_slips(2) three_names
    by (simp_all add: req_def candidate_request_def start_candidacy_def fresh_node_fields last_log_term_def last_log_index_def
        distinct_names_def)
  show t: "rv_term req = 1"
    by (simp add: req_def candidate_request_def start_candidacy_def fresh_node_fields)
  show may: "may_vote_for n1 req"
    using req t by (simp add: may_vote_for_iff log_up_to_date_def n1_def fresh_node_fields last_log_term_def last_log_index_def)
  have "cstr (voted_for (after_vote_request 210 req n1)) = cstr (three 0)"
    using cstr_after_vote [OF _ may, of 210] req(3) three_slips(4) three_names by (simp add: n1_def distinct_names_def)
  moreover have "log_up_to_date (after_vote_request 210 req n1) req"
    using log_up_to_date_view [of "after_vote_request 210 req n1" n1 req] may
    by (simp add: after_vote_request_def Let_def may_vote_for_iff)
  ultimately show "may_vote_for (after_vote_request 210 req n1) req"
    using t req(3) after_vote_request_term [of 210 req n1] by (simp add: may_vote_for_iff n1_def fresh_node_fields)
qed

lemma three_ask:
  fixes n0 req
  defines "n0 \<equiv> start_candidacy 200 0 (fresh_node three nowhere 3 0 0)" and "req \<equiv> candidate_request n0"
  shows "Vote_Request 0 1 req \<in> addressed three 3 0 (map (\<lambda>p. (peer_node_id p, RequestVote req)) (peers n0))"
proof -
  have "cstr (three 1) \<in> fst ` set (slips n0)"
    using three_slips(1) by (force simp: n0_def start_candidacy_def slips_def)
  then obtain p where "p \<in> set (peers n0)" "streq (peer_node_id p) (three 1)"
    by (auto simp: slips_def streq_def)
  then show ?thesis
    by (force simp: addressed_def)
qed

lemma vote_run:
  assumes "may_vote_for node req"
  shows "\<exists>out disk' u'. raft_handle_request_vote (site_callbacks d ap) now req (node, [], disk, u) =
    (\<lparr>rvr_term = current_term node, rvr_vote_granted = 1\<rparr>, after_vote_request now req node, out, disk', u')"
proof -
  obtain w' where "raft_handle_request_vote (site_callbacks d ap) now req (node, [], disk, u) =
      (\<lparr>rvr_term = current_term node, rvr_vote_granted = 1\<rparr>, after_vote_request now req node, w')"
    using request_vote_run [of "site_callbacks d ap" now req node "([], disk, u)"] assms by auto
  then show ?thesis
    by (cases w') auto
qed

lemma vote_step:
  assumes "Vote_Request j i req \<in> packets c" and "may_vote_for (site_node c i) req"
  shows "\<exists>disk'. cluster_step ids addr d ap N c
    (put_site i (after_vote_request now req (site_node c i)) disk'
      {Vote_Reply i j \<lparr>rvr_term = current_term (site_node c i), rvr_vote_granted = 1\<rparr>} c)"
proof -
  obtain out disk' u' where run: "raft_handle_request_vote (site_callbacks d ap) now req (site_node c i, [], site_disk c i, undefined) =
      (\<lparr>rvr_term = current_term (site_node c i), rvr_vote_granted = 1\<rparr>, after_vote_request now req (site_node c i), out, disk', u')"
    using vote_run [OF assms(2), of d ap now "site_disk c i" undefined] by blast
  show ?thesis
    using cluster_step.request [OF assms(1) run] by blast
qed

lemma three_win:
  fixes n0
  defines "n0 \<equiv> start_candidacy 200 0 (fresh_node three nowhere 3 0 0)"
  assumes "raft_handle_request_vote_response (site_callbacks d ap) al (three 1) \<lparr>rvr_term = 1, rvr_vote_granted = 1\<rparr> (n0, [], Some (wal_bytes n0), u) =
      (node', out, disk', u')"
  shows "state node' = RAFT_STATE_LEADER \<and> current_term node' = 1"
proof -
  have cand: "state n0 = RAFT_STATE_CANDIDATE" "current_term n0 = 1" "votes_received n0 = 1"
    by (simp_all add: n0_def start_candidacy_def fresh_node_fields)
  have sl: "slips n0 = [(cstr (three 1), False), (cstr (three 2), False)]"
    using three_slips(1) by (auto simp: n0_def start_candidacy_def slips_def)
  then obtain p where p: "find_peer n0 (three 1) = Some p"
    using find_peer_None [of n0 "three 1"] by fastforce
  then have "slips n0 ! p = (cstr (peer_node_id (peers n0 ! p)), vote_granted (peers n0 ! p))" "p < length (slips n0)"
    using find_peer_bound(1) [OF p] by (simp_all add: slips_def)
  then have "\<not> vote_granted (peers n0 ! p)"
    using sl by (auto simp: less_Suc_eq)
  moreover have "length (peers n0) = 2"
    using arg_cong [OF sl, of length] by (simp add: slips_def)
  ultimately have "become_leader (site_callbacks d ap) al (counted p n0, [], Some (wal_bytes n0), u) = (node', out, disk', u')"
    using assms(2) cand p by (simp add: raft_handle_request_vote_response_def counted_def Let_def)
  from ballot_fields [OF ballot_leader(1) [OF this]] show ?thesis
    using cand by (simp add: counted_def)
qed

lemma three_elect:
  "\<exists>c. (cluster_step three nowhere Little (\<lambda>_ (u :: unit). u) 3)\<^sup>*\<^sup>* three_nodes c \<and> acts_as_leader c 0 1"
proof -
  let ?ap = "\<lambda>_ (u :: unit). u"
  let ?cb = "site_callbacks Little ?ap" and ?step = "cluster_step three nowhere Little ?ap 3"
  define n0 where "n0 = start_candidacy 200 0 (fresh_node three nowhere 3 0 0)"
  define req where "req = candidate_request n0"
  define n1 where "n1 = fresh_node three nowhere 3 1 0"
  let ?n2 = "after_vote_request 210 req n1"
  let ?out = "map (\<lambda>p. (peer_node_id p, RequestVote req)) (peers n0)"
  define c1 where "c1 = put_site 0 n0 (Some (wal_bytes n0)) (addressed three 3 0 ?out) three_nodes"
  note vote = three_vote [folded n0_def n1_def, folded req_def]
  have s1: "?step three_nodes c1"
    using cluster_step.tick [of 0 3 three_nodes Little ?ap 200 200 0 "()"] fresh_node_tick [of Little ?ap three nowhere 3 None "()"]
    by (simp add: three_nodes_def fresh_node_fields n0_def req_def c1_def)
  have ask: "Vote_Request 0 1 req \<in> packets c1"
    using three_ask [folded n0_def, folded req_def] by (simp add: c1_def put_site_def)
  have at1: "site_node c1 1 = n1"
    by (simp add: c1_def put_site_def three_nodes_def n1_def)
  obtain d2 where s2: "?step c1 (put_site 1 ?n2 d2 {Vote_Reply 1 0 \<lparr>rvr_term = current_term n1, rvr_vote_granted = 1\<rparr>} c1)" (is "cluster_step _ _ _ _ _ _ ?c2")
    using vote_step [OF ask, of three nowhere Little ?ap 3 210] vote(2) at1 by auto
  have at2: "site_node ?c2 1 = ?n2" "current_term ?n2 = 1" "Vote_Request 0 1 req \<in> packets ?c2"
    using after_vote_request_term [of 210 req n1] vote(1) ask by (simp_all add: put_site_def n1_def fresh_node_fields)
  obtain d3 where s3: "?step ?c2 (put_site 1 (after_vote_request 220 req ?n2) d3 {Vote_Reply 1 0 \<lparr>rvr_term = 1, rvr_vote_granted = 1\<rparr>} ?c2)"
    (is "cluster_step _ _ _ _ _ _ ?c3")
    using vote_step [OF at2(3), of three nowhere Little ?ap 3 220] vote(3) at2 by auto
  obtain n4 o4 d4 u4 where r4: "raft_handle_request_vote_response ?cb memory_available (three 1) \<lparr>rvr_term = 1, rvr_vote_granted = 1\<rparr>
      (n0, [], Some (wal_bytes n0), ()) = (n4, o4, d4, u4)"
    by (metis prod_cases4)
  have at3: "site_node ?c3 0 = n0" "site_disk ?c3 0 = Some (wal_bytes n0)" "Vote_Reply 1 0 \<lparr>rvr_term = 1, rvr_vote_granted = 1\<rparr> \<in> packets ?c3"
    by (simp_all add: c1_def put_site_def)
  have s4: "?step ?c3 (put_site 0 n4 d4 {} ?c3)"
    by (rule cluster_step.reply [where ids = three, OF at3(3), unfolded at3(1,2), OF r4])
  have "acts_as_leader (put_site 0 n4 d4 {} ?c3) 0 1"
    using three_win [folded n0_def, OF r4] by (simp add: acts_as_leader_def put_site_def)
  then show ?thesis
    using s1 s2 s3 s4 by (meson converse_rtranclp_into_rtranclp rtranclp.rtrancl_refl)
qed

text \<open>C6: A cluster of nodes that run the Raft core behaves like the election protocol: whatever is lost, delayed, repeated or
  reordered and whoever restarts from its state file, every run matches a run of the protocol, in which the nodes have the same roles, terms and votes.\<close>

theorem cluster_refines_election:
  assumes "distinct_names ids N" and "start_cluster ids addr N c"
    and "(cluster_step ids addr d ap N)\<^sup>*\<^sup>* c c'"
  shows "\<exists>e e'. new_election e \<and> mirrors ids N c e \<and> (election_step N)\<^sup>*\<^sup>* e e' \<and> mirrors ids N c' e'"
  using cluster.run_matched [OF assms(3), of idle] assms(1) idle_mirrors [OF assms(2,1)] election_inv_start [OF idle_start] idle_start
  by blast

text \<open>C1: Election safety: in one term at most one node of the cluster ever acts as leader, at any two moments of a run, with packets lost,
  delayed, repeated and reordered and nodes restarting from their state files.\<close>

theorem election_safety:
  assumes "distinct_names ids N" and "start_cluster ids addr N c0"
    and "(cluster_step ids addr d ap N)\<^sup>*\<^sup>* c0 c1" and "(cluster_step ids addr d ap N)\<^sup>*\<^sup>* c1 c2"
    and "i < N" "acts_as_leader c1 i t" and "j < N" "acts_as_leader c2 j t"
  shows "i = j"
proof -
  obtain e1 where e1: "mirrors ids N c1 e1" "election_inv N e1"
    using cluster.run_matched [OF assms(3), of idle] assms(1) idle_mirrors [OF assms(2,1)] election_inv_start [OF idle_start] by blast
  obtain e2 where e2: "(election_step N)\<^sup>*\<^sup>* e1 e2" "mirrors ids N c2 e2" "election_inv N e2"
    using cluster.run_matched [OF assms(4), of e1] assms(1) e1 by blast
  have "(i, t) \<in> won e2" "(j, t) \<in> won e2"
    using leader_has_won [OF e1 assms(5,6)] leader_has_won [OF e2(2,3) assms(7,8)] election_history_reachable [OF e2(1)]
    by auto
  then show ?thesis
    using e2(3) by (auto simp: election_inv_def single_winner_def)
qed

text \<open>The witnesses follow the run in which the first of three nodes is elected.\<close>

theorem cluster_refines_election_witness:
  "\<exists>c e e'. (cluster_step three nowhere Little (\<lambda>_ (u :: unit). u) 3)\<^sup>*\<^sup>* three_nodes c \<and> acts_as_leader c 0 1 \<and>
     new_election e \<and> (election_step 3)\<^sup>*\<^sup>* e e' \<and> mirrors three 3 c e'"
  using three_elect cluster_refines_election [OF three_names three_start] by blast

theorem election_safety_witness:
  "\<exists>c. (cluster_step three nowhere Little (\<lambda>_ (u :: unit). u) 3)\<^sup>*\<^sup>* three_nodes c \<and> acts_as_leader c 0 1 \<and>
     \<not> acts_as_leader c 1 1 \<and> \<not> acts_as_leader c 2 1"
proof -
  obtain c where c: "(cluster_step three nowhere Little (\<lambda>_ (u :: unit). u) 3)\<^sup>*\<^sup>* three_nodes c" "acts_as_leader c 0 1"
    using three_elect by blast
  then show ?thesis
    using election_safety [OF three_names three_start c(1) rtranclp.rtrancl_refl, of 0 1 1]
      election_safety [OF three_names three_start c(1) rtranclp.rtrancl_refl, of 0 1 2] by (intro exI [of _ c]) auto
qed

end
