(* ===== verification/Raft_Hazards.thy ===== *)
theory Raft_Hazards
  imports Raft_Steps
begin

text \<open>
  Two ways in which the Raft core leaves the protocol: a follower answers a heartbeat with the end of its own log, which the
  leader counts as a copy of its entries; and the heartbeat loop does not look at the role again after a call that may have deposed the leader.
\<close>

section \<open>Commits without copies\<close>

text \<open>A node whose state machine records the commands it is given.\<close>

definition recorder :: "bytes list callbacks" where
  "recorder = \<lparr>cb_apply = Some (\<lambda>data w. w @ [data]), cb_persist = None, cb_send_rpc = None\<rparr>"

text \<open>One heartbeat to the first peer, with its answer.\<close>

definition heartbeat_round ::
  "(nat \<Rightarrow> alloc) \<Rightarrow> u64 \<Rightarrow> RaftNode \<times> RaftNode \<Rightarrow> (RaftNode \<times> RaftNode) option" where
  "heartbeat_round al now = (\<lambda>(leader, follower).
     let peer = peers leader ! 0;
         req = heartbeat_request leader peer
     in case raft_handle_append_entries recorder al now req None (ae_entry_count req) (follower, []) of
          Inl _ \<Rightarrow> None
        | Inr (resp, follower', _) \<Rightarrow>
            Some (fst (raft_handle_append_entries_response recorder (peer_node_id peer) resp (leader, [])), follower'))"

text \<open>A leader of three nodes and a follower whose logs have different entries at the first index.\<close>

definition conflicting :: "RaftNode \<Rightarrow> RaftNode \<Rightarrow> RaftLogEntry \<Rightarrow> RaftLogEntry \<Rightarrow> bool" where
  "conflicting leader follower a b \<longleftrightarrow>
     state leader = RAFT_STATE_LEADER \<and> state follower = RAFT_STATE_FOLLOWER \<and> current_term follower = current_term leader \<and>
     length (peers leader) = 2 \<and> next_index (peers leader ! 0) = 1 \<and>
     log leader = [a] \<and> log follower = [b] \<and> le_index a = 1 \<and> le_index b = 1 \<and>
     le_term a = current_term leader \<and> le_term b \<noteq> le_term a \<and>
     last_snapshot_index leader = 0 \<and> last_snapshot_index follower = 0 \<and>
     commit_index leader = 0 \<and> commit_index follower = 0 \<and> last_applied leader = 0 \<and> last_applied follower = 0 \<and>
     0 < election_timeout_ms follower"

lemma find_first_peer: "peers node = p # ps \<Longrightarrow> find_peer node (peer_node_id p) = Some 0"
  by (simp add: find_peer_def)

text \<open>The parts of a follower that a heartbeat leaves alone.\<close>

definition follows :: "RaftNode \<Rightarrow> RaftNode \<Rightarrow> bool" where
  "follows n m \<longleftrightarrow>
     log n = log m \<and> current_term n = current_term m \<and> state n = state m \<and> last_applied n = last_applied m \<and>
     last_snapshot_index n = last_snapshot_index m \<and> election_timeout_ms n = election_timeout_ms m"

lemma round_accepted:
  assumes "next_index (peers leader ! 0) = 1" "length (peers leader) = 2" "state leader = RAFT_STATE_LEADER"
    and "current_term follower = current_term leader" "state follower = RAFT_STATE_FOLLOWER"
    and "log follower = [b]" "le_index b = 1" "commit_index follower = 0"
  shows "\<exists>follower'. heartbeat_round al now (leader, follower) =
      Some (leader\<lparr>peers := (peers leader)[0 := (peers leader ! 0)\<lparr>match_index := 1, next_index := 2\<rparr>]\<rparr>, follower') \<and>
    follows follower' follower \<and> commit_index follower' = (if commit_index leader = 0 then 0 else 1) \<and> last_heartbeat_ms follower' = now"
proof -
  obtain p q where p: "peers leader = [p, q]"
    using assms(2) by (auto simp: length_Suc_conv numeral_2_eq_2)
  have one: "(if 1 < commit_index leader then 1 else commit_index leader) = (1 :: u64)" if "commit_index leader \<noteq> 0"
    using that by (metis inc_le le_neq_trans add_0 word_neq_0_conv)
  show ?thesis
    using assms p find_first_peer [OF p] one
    by (auto simp: heartbeat_round_def heartbeat_request_def raft_handle_append_entries_def Let_def update_commit_index_def
        last_log_index_def recorder_def persist_state_def raft_handle_append_entries_response_def word_neq_0_conv [symmetric] follows_def)
qed

lemma round_refused:
  assumes "next_index (peers leader ! 0) = 2" "length (peers leader) = 2" "state leader = RAFT_STATE_LEADER"
    and "current_term follower = current_term leader" "state follower = RAFT_STATE_FOLLOWER"
    and "log leader = [a]" "log follower = [b]" "le_term b \<noteq> le_term a"
    and "last_snapshot_index leader = 0" "last_snapshot_index follower = 0"
  shows "\<exists>follower'. heartbeat_round al now (leader, follower) =
      Some (leader\<lparr>peers := (peers leader)[0 := (peers leader ! 0)\<lparr>next_index := 1\<rparr>]\<rparr>, follower') \<and>
    follows follower' follower \<and> commit_index follower' = commit_index follower \<and> last_heartbeat_ms follower' = now"
proof -
  obtain p q where p: "peers leader = [p, q]"
    using assms(2) by (auto simp: length_Suc_conv numeral_2_eq_2)
  then show ?thesis
    using assms find_first_peer [OF p]
    by (auto simp: heartbeat_round_def heartbeat_request_def raft_handle_append_entries_def Let_def
        recorder_def persist_state_def raft_handle_append_entries_response_def follows_def
        term_at_index_def get_log_entry_def log_slot_def)
qed

lemma apply_one:
  assumes "commit_index node = 1" "last_applied node = 0" "log node = [entry]" "last_snapshot_index node = 0"
  shows "apply_committed_entries recorder (node, w) = (node\<lparr>last_applied := 1\<rparr>, w @ [le_data entry])"
  using assms
  by (simp add: apply_committed_entries.simps [of _ node] apply_committed_entries.simps [of _ "node\<lparr>last_applied := 1\<rparr>"]
      get_log_entry_def log_slot_def recorder_def)

lemma leader_commits:
  assumes "state leader = RAFT_STATE_LEADER" "log leader = [a]" "le_index a = 1" "le_term a = current_term leader"
    and "length (peers leader) = 2" "match_index (peers leader ! 0) = 1"
    and "commit_index leader = 0" "last_applied leader = 0" "last_snapshot_index leader = 0"
  shows "raft_tick recorder (last_heartbeat_ms leader) now rnd (leader, w) =
    Some (leader\<lparr>commit_index := 1, last_applied := 1\<rparr>, w @ [le_data a])"
proof -
  obtain p q where p: "peers leader = [p, q]"
    using assms(5) by (auto simp: length_Suc_conv numeral_2_eq_2)
  have not_two: "\<not> 2 \<le> (1 :: u64)"
    by (simp add: word_le_nat_alt)
  have "committable leader 1"
    using assms p by (auto simp: committable_def replicas_def term_at_index_def get_log_entry_def log_slot_def)
  then have "commit_loop 1 leader = Some (leader\<lparr>commit_index := 1\<rparr>)"
    using assms not_two by (simp add: commit_loop.simps [of 1] commit_loop.simps [of 2] commit_step_eq last_log_index_def)
  then show ?thesis
    using assms apply_one [of "leader\<lparr>commit_index := 1\<rparr>" a w]
    by (simp add: raft_tick_def leader_tick_def send_heartbeats_def RAFT_HEARTBEAT_INTERVAL_MS_def)
qed

text \<open>The leader and the follower of a cluster of three, as the sample nodes have them.\<close>

definition sample_peer :: "u8 \<Rightarrow> RaftPeer" where
  "sample_peer c = \<lparr>peer_node_id = [110, c], peer_ip_address = zeros 46, peer_port = 9000, next_index = 1, match_index = 0,
     last_contact_ms = 0, inflight_rpcs = 0, vote_granted = False\<rparr>"

definition sample_leader :: RaftNode where
  "sample_leader = (sample_node 3 [entry_of 3 1])\<lparr>state := RAFT_STATE_LEADER, peers := [sample_peer 50, sample_peer 51]\<rparr>"

text \<open>C7: The state machines of two nodes can diverge. A follower that holds another entry at the first index answers the leader's
  heartbeat with the end of its own log, so the leader of three nodes commits and applies an entry that no other node has; two heartbeats later
  the follower commits and applies its own entry at the same index.\<close>

theorem heartbeats_diverge:
  assumes "conflicting leader follower a b"
  shows "\<exists>l1 f1 l2 l3 f3 l4 f4 f5.
    heartbeat_round al now (leader, follower) = Some (l1, f1) \<and>
    raft_tick recorder (last_heartbeat_ms l1) now' rnd (l1, []) = Some (l2, [le_data a]) \<and> last_applied l2 = 1 \<and>
    heartbeat_round al now (l2, f1) = Some (l3, f3) \<and> heartbeat_round al now (l3, f3) = Some (l4, f4) \<and>
    raft_tick recorder now now' rnd (f4, []) = Some (f5, [le_data b]) \<and> last_applied f5 = 1"
proof -
  note c = assms [unfolded conflicting_def]
  let ?l1 = "leader\<lparr>peers := (peers leader)[0 := (peers leader ! 0)\<lparr>match_index := 1, next_index := 2\<rparr>]\<rparr>"
  let ?l2 = "?l1\<lparr>commit_index := 1, last_applied := 1\<rparr>"
  let ?l3 = "?l2\<lparr>peers := (peers ?l2)[0 := (peers ?l2 ! 0)\<lparr>next_index := 1\<rparr>]\<rparr>"
  have peers: "0 < length (peers leader)"
    using c by simp
  obtain f1 where r1: "heartbeat_round al now (leader, follower) = Some (?l1, f1)" and f1: "follows f1 follower" "commit_index f1 = 0"
    using round_accepted [of leader follower b al now] c by auto
  have t2: "raft_tick recorder (last_heartbeat_ms ?l1) now' rnd (?l1, []) = Some (?l2, [le_data a])"
    using leader_commits [of ?l1 a now' rnd "[]"] c peers by simp
  obtain f3 where r3: "heartbeat_round al now (?l2, f1) = Some (?l3, f3)" and f3: "follows f3 follower" "commit_index f3 = 0"
    using round_refused [of ?l2 f1 a b al now] c peers f1 by (auto simp: follows_def)
  obtain f4 where r4: "\<exists>l4. heartbeat_round al now (?l3, f3) = Some (l4, f4)"
    and f4: "follows f4 follower" "commit_index f4 = 1" "last_heartbeat_ms f4 = now"
    using round_accepted [of ?l3 f3 b al now] c peers f3 by (auto simp: follows_def)
  have "raft_tick recorder now now' rnd (f4, []) = Some (f4\<lparr>last_applied := 1\<rparr>, [le_data b])"
    using apply_one [of f4 b "[]"] f4 c by (auto simp: raft_tick_def follower_candidate_tick_def follows_def word_neq_0_conv [symmetric])
  then show ?thesis
    using r1 t2 r3 r4 by fastforce
qed

theorem heartbeats_diverge_witness:
  "\<exists>l1 f1 l2 l3 f3 l4 f4 f5.
    heartbeat_round (\<lambda>_. memory_available) 9 (sample_leader, sample_node 3 [entry_of 1 1]) = Some (l1, f1) \<and>
    raft_tick recorder (last_heartbeat_ms l1) 9 0 (l1, []) = Some (l2, [le_data (entry_of 3 1)]) \<and> last_applied l2 = 1 \<and>
    heartbeat_round (\<lambda>_. memory_available) 9 (l2, f1) = Some (l3, f3) \<and> heartbeat_round (\<lambda>_. memory_available) 9 (l3, f3) = Some (l4, f4) \<and>
    raft_tick recorder 9 9 0 (f4, []) = Some (f5, [le_data (entry_of 1 1)]) \<and> last_applied f5 = 1"
proof (rule heartbeats_diverge)
  show "conflicting sample_leader (sample_node 3 [entry_of 1 1]) (entry_of 3 1) (entry_of 1 1)"
    by (simp add: conflicting_def sample_leader_def sample_peer_def sample_node_def raft_init_def entry_of_def random_election_timeout_def
        RAFT_ELECTION_TIMEOUT_MIN_MS_def)
qed

section \<open>The deposed leader\<close>

text \<open>
  A transport that waits for the answer and hands it to the core before \<^verbatim>\<open>send_rpc\<close> returns, as \<^verbatim>\<open>raft_send_rpc_callback\<close> does;
  the world records what was sent.
\<close>

definition answering :: "(bytes \<Rightarrow> RaftAppendEntriesResp) \<Rightarrow> (bytes \<times> raft_request) list callbacks" where
  "answering answer =
     \<lparr>cb_apply = None, cb_persist = None,
      cb_send_rpc = Some (\<lambda>peer_id req (node, w).
        raft_handle_append_entries_response no_callbacks peer_id (answer peer_id) (node, w @ [(peer_id, req)]))\<rparr>"

text \<open>A follower in the loop: every answer of its own term or an earlier one leaves it as it is, and every peer gets a request.\<close>

lemma follower_keeps_sending:
  assumes "state m \<noteq> RAFT_STATE_LEADER" and "\<And>i. i \<in> set is \<Longrightarrow> i < length (peers m) \<and> aer_term (answer (peer_node_id (peers m ! i))) \<le> current_term m"
  shows "fold (send_heartbeat (answering answer)) is (m, w) =
    (m, w @ map (\<lambda>i. (peer_node_id (peers m ! i), AppendEntries (heartbeat_request m (peers m ! i)))) is)"
  using assms
proof (induction "is" arbitrary: w)
  case (Cons i "is")
  have "i < length (peers m)" "\<not> current_term m < aer_term (answer (peer_node_id (peers m ! i)))"
    using Cons.prems(2) [of i] by auto
  then have "send_heartbeat (answering answer) i (m, w) = (m, w @ [(peer_node_id (peers m ! i), AppendEntries (heartbeat_request m (peers m ! i)))])"
    using Cons.prems(1)
    by (simp add: send_heartbeat_def send_rpc_def answering_def raft_handle_append_entries_response_def Let_def)
  then show ?case
    using Cons by simp
qed simp

text \<open>C40: A leader that learns of a later term from the first answer is a follower of that term, but its heartbeat loop goes on: every other
  peer is sent an AppendEntries request of the later term, in which this node was not elected.\<close>

theorem deposed_leader_heartbeats:
  assumes "state node = RAFT_STATE_LEADER" and "now - last_heartbeat_ms node \<ge> RAFT_HEARTBEAT_INTERVAL_MS" and "peers node = p # ps"
    and "current_term node < aer_term (answer (peer_node_id p))"
    and "\<And>q. q \<in> set ps \<Longrightarrow> aer_term (answer (peer_node_id q)) \<le> aer_term (answer (peer_node_id p))"
  shows "\<exists>node' w'. send_heartbeats (answering answer) now (node, []) = (node', w') \<and>
    state node' = RAFT_STATE_FOLLOWER \<and> current_term node' = aer_term (answer (peer_node_id p)) \<and>
    (\<forall>q \<in> set ps. \<exists>req. (peer_node_id q, AppendEntries req) \<in> set w' \<and> ae_term req = aer_term (answer (peer_node_id p)) \<and>
       ae_leader_id req = strncpy (zeros 37) (node_id node) 36)"
proof -
  let ?t = "aer_term (answer (peer_node_id p))"
  define n where "n = node\<lparr>last_heartbeat_ms := now, heartbeats_sent := heartbeats_sent node + 1\<rparr>"
  define m where "m = n\<lparr>state := RAFT_STATE_FOLLOWER, current_term := ?t, voted_for := zeros 37, leader_id := zeros 37, votes_received := 0\<rparr>"
  let ?w1 = "[(peer_node_id p, AppendEntries (heartbeat_request n p))]"
  let ?w = "?w1 @ map (\<lambda>i. (peer_node_id (peers m ! i), AppendEntries (heartbeat_request m (peers m ! i)))) [1..<length (peers m)]"
  have peers: "peers n = p # ps" "peers m = p # ps" and m: "state m = RAFT_STATE_FOLLOWER" "current_term m = ?t"
    using assms(3) by (simp_all add: n_def m_def)
  have first: "send_heartbeat (answering answer) 0 (n, []) = (m, ?w1)"
    using assms(4) peers
    by (simp add: send_heartbeat_def send_rpc_def answering_def raft_handle_append_entries_response_def become_follower_def
        no_callbacks_def persist_state_def n_def m_def Let_def)
  have rest: "fold (send_heartbeat (answering answer)) [1..<length (peers m)] (m, ?w1) = (m, ?w)"
    using assms(5) peers m by (intro follower_keeps_sending) (auto simp: nth_Cons')
  have "send_heartbeats (answering answer) now (node, []) = fold (send_heartbeat (answering answer)) [0..<length (peers m)] (n, [])"
    using assms(2) by (simp add: send_heartbeats_def n_def m_def)
  also have "[0..<length (peers m)] = 0 # [1..<length (peers m)]"
    using peers by (simp add: upt_conv_Cons del: upt_Suc)
  finally have run: "send_heartbeats (answering answer) now (node, []) = (m, ?w)"
    by (simp only: fold_simps first rest)
  have "(peer_node_id q, AppendEntries (heartbeat_request m q)) \<in> set ?w" if q: "q \<in> set ps" for q
  proof -
    obtain k where "k < length ps" "ps ! k = q"
      using q by (auto simp: in_set_conv_nth)
    then show ?thesis
      using peers by (auto intro!: image_eqI [of _ _ "Suc k"] simp del: upt_Suc)
  qed
  moreover have "ae_term (heartbeat_request m q) = ?t" "ae_leader_id (heartbeat_request m q) = strncpy (zeros 37) (node_id node) 36" for q
    by (simp_all add: heartbeat_request_def m_def n_def)
  ultimately show ?thesis
    using run m by blast
qed

theorem deposed_leader_heartbeats_witness:
  "\<exists>node' w'. send_heartbeats (answering (\<lambda>q. \<lparr>aer_term = (if q = [110, 50] then 7 else 5), aer_success = 0, aer_match_index = 0\<rparr>)) 60
      (sample_leader, []) = (node', w') \<and>
    state node' = RAFT_STATE_FOLLOWER \<and> (\<exists>req. ([110, 51], AppendEntries req) \<in> set w' \<and> ae_term req = 7)"
  using deposed_leader_heartbeats [of sample_leader 60 "sample_peer 50" "[sample_peer 51]"
      "\<lambda>q. \<lparr>aer_term = (if q = [110, 50] then 7 else 5), aer_success = 0, aer_match_index = 0\<rparr>"]
  by (auto simp: sample_leader_def sample_peer_def sample_node_def raft_init_def RAFT_HEARTBEAT_INTERVAL_MS_def)

end
