(* ===== verification/Transport.thy ===== *)
theory Transport
  imports Prelude
begin

text \<open>
  The socket layer: \<^verbatim>\<open>src/transport/tcp_transport.c\<close>, \<^verbatim>\<open>src/transport/udp_transport.c\<close> and
  \<^verbatim>\<open>src/transport/net_utils.c\<close>. The operating system is not part of the repository: its calls are
  the fields of a record \<open>kernel\<close> over the state \<open>'k\<close> of the system, and what the code relies
  on is stated as named hypotheses about that record. A call that fails with \<^verbatim>\<open>errno\<close> set
  answers with a constructor for the error codes the code distinguishes. The byte order of \<^verbatim>\<open>sin_port\<close>
  is left to the calls, which take the port number.
\<close>

section \<open>System calls\<close>

datatype send_result = Sent nat | SendIntr | SendAgain | SendError
datatype recv_result = Received bytes | RecvIntr | RecvAgain | RecvError
datatype accept_result = Accepted int bytes u16 | AcceptAgain | AcceptError

record 'k kernel =
  sys_socket :: "'k \<Rightarrow> int \<times> 'k"
  sys_setsockopt :: "int \<Rightarrow> 'k \<Rightarrow> bool \<times> 'k"
  sys_inet_pton :: "bytes \<Rightarrow> bool"
  sys_bind :: "int \<Rightarrow> bytes \<Rightarrow> u16 \<Rightarrow> 'k \<Rightarrow> bool \<times> 'k"
  sys_listen :: "int \<Rightarrow> nat \<Rightarrow> 'k \<Rightarrow> bool \<times> 'k"
  sys_connect :: "int \<Rightarrow> bytes \<Rightarrow> u16 \<Rightarrow> 'k \<Rightarrow> bool \<times> 'k"
  sys_accept :: "int \<Rightarrow> 'k \<Rightarrow> accept_result \<times> 'k"
  sys_get_flags :: "int \<Rightarrow> 'k \<Rightarrow> u32 option"
  sys_set_flags :: "int \<Rightarrow> u32 \<Rightarrow> 'k \<Rightarrow> bool \<times> 'k"
  sys_send :: "int \<Rightarrow> bytes \<Rightarrow> 'k \<Rightarrow> send_result \<times> 'k"
  sys_recv :: "int \<Rightarrow> nat \<Rightarrow> 'k \<Rightarrow> recv_result \<times> 'k"
  sys_sendto :: "int \<Rightarrow> bytes \<Rightarrow> u16 \<Rightarrow> bytes \<Rightarrow> 'k \<Rightarrow> int \<times> 'k"
  sys_recvfrom :: "int \<Rightarrow> nat \<Rightarrow> 'k \<Rightarrow> (recv_result \<times> bytes \<times> u16) \<times> 'k"
  sys_close :: "int \<Rightarrow> 'k \<Rightarrow> 'k"

definition O_NONBLOCK :: u32 where "O_NONBLOCK = 2048"

section \<open>TCP\<close>

record TcpConnection =
  sockfd :: int
  remote_ip :: bytes
  remote_port :: u16

definition set_nonblocking :: "'k kernel \<Rightarrow> int \<Rightarrow> 'k \<Rightarrow> bool \<times> 'k" where
  "set_nonblocking K fd k =
     (case sys_get_flags K fd k of
        None \<Rightarrow> (False, k)
      | Some flags \<Rightarrow> sys_set_flags K fd (flags OR O_NONBLOCK) k)"

definition tcp_server_listen :: "'k kernel \<Rightarrow> bytes \<Rightarrow> u16 \<Rightarrow> nat \<Rightarrow> 'k \<Rightarrow> int \<times> 'k" where
  "tcp_server_listen K ip port backlog k =
     (let (fd, k) = sys_socket K k
      in if fd < 0 then (-1, k)
         else
           let (ok, k) = sys_setsockopt K fd k
           in if \<not> ok then (-1, sys_close K fd k)
              else if \<not> sys_inet_pton K ip then (-1, sys_close K fd k)
              else
                let (ok, k) = sys_bind K fd ip port k
                in if \<not> ok then (-1, sys_close K fd k)
                   else
                     let (ok, k) = sys_listen K fd backlog k
                     in if \<not> ok then (-1, sys_close K fd k) else (fd, k))"

definition tcp_server_listen_nonblock :: "'k kernel \<Rightarrow> bytes \<Rightarrow> u16 \<Rightarrow> nat \<Rightarrow> 'k \<Rightarrow> int \<times> 'k" where
  "tcp_server_listen_nonblock K ip port backlog k =
     (let (fd, k) = tcp_server_listen K ip port backlog k
      in if fd \<ge> 0
         then let (ok, k) = set_nonblocking K fd k
              in if \<not> ok then (-1, sys_close K fd k) else (fd, k)
         else (fd, k))"

text \<open>\<^verbatim>\<open>*conn\<close> is written on success only.\<close>

definition tcp_server_accept :: "'k kernel \<Rightarrow> int \<Rightarrow> 'k \<Rightarrow> (int \<times> TcpConnection option) \<times> 'k" where
  "tcp_server_accept K server_fd k =
     (case sys_accept K server_fd k of
        (AcceptAgain, k) \<Rightarrow> ((-2, None), k)
      | (AcceptError, k) \<Rightarrow> ((-1, None), k)
      | (Accepted fd ip port, k) \<Rightarrow>
          ((0, Some \<lparr>sockfd = fd, remote_ip = ip, remote_port = port\<rparr>), k))"

definition tcp_client_connect :: "'k kernel \<Rightarrow> bytes \<Rightarrow> u16 \<Rightarrow> 'k \<Rightarrow> (int \<times> TcpConnection option) \<times> 'k" where
  "tcp_client_connect K ip port k =
     (let (fd, k) = sys_socket K k
      in if fd < 0 then ((-1, None), k)
         else if \<not> sys_inet_pton K ip then ((-1, None), sys_close K fd k)
         else
           let (ok, k) = sys_connect K fd ip port k
           in if \<not> ok then ((-1, None), sys_close K fd k)
              else ((0, Some \<lparr>sockfd = fd, remote_ip = strncpy (zeros 46) ip 45, remote_port = port\<rparr>), k))"

text \<open>
  \<^verbatim>\<open>tcp_send_all\<close> goes on as long as the call is interrupted or sends nothing, so it is a
  partial function, \<open>None\<close> where it does not return.
\<close>

partial_function (option) tcp_send_all :: "'k kernel \<Rightarrow> int \<Rightarrow> bytes \<Rightarrow> 'k \<Rightarrow> (int \<times> 'k) option" where
  "tcp_send_all K fd data k =
     (if data = [] then Some (0, k)
      else
        (case sys_send K fd data k of
           (SendIntr, k) \<Rightarrow> tcp_send_all K fd data k
         | (SendAgain, k) \<Rightarrow> Some (-1, k)
         | (SendError, k) \<Rightarrow> Some (-1, k)
         | (Sent n, k) \<Rightarrow> tcp_send_all K fd (drop n data) k))"

text \<open>\<^verbatim>\<open>tcp_recv_all\<close> fills the buffer; \<open>buf\<close> is what it holds so far.\<close>

function tcp_recv_loop :: "'k kernel \<Rightarrow> int \<Rightarrow> bytes \<Rightarrow> nat \<Rightarrow> 'k \<Rightarrow> (int \<times> bytes) \<times> 'k" where
  "tcp_recv_loop K fd buf remaining k =
     (if remaining = 0 then ((0, buf), k)
      else
        (case sys_recv K fd remaining k of
           (Received d, k) \<Rightarrow>
             if d = [] then ((-1, buf), k)
             else tcp_recv_loop K fd (buf @ d) (remaining - length d) k
         | (_, k) \<Rightarrow> ((-1, buf), k)))"
  by pat_completeness auto
termination
  by (relation "measure (\<lambda>(K, fd, buf, remaining, k). remaining)") (auto simp: neq_Nil_conv)

declare tcp_recv_loop.simps [simp del]

definition tcp_recv_all :: "'k kernel \<Rightarrow> int \<Rightarrow> nat \<Rightarrow> 'k \<Rightarrow> (int \<times> bytes) \<times> 'k" where
  "tcp_recv_all K fd len k = tcp_recv_loop K fd [] len k"

definition tcp_close :: "'k kernel \<Rightarrow> TcpConnection \<Rightarrow> 'k \<Rightarrow> TcpConnection \<times> 'k" where
  "tcp_close K conn k =
     (if sockfd conn \<ge> 0 then (conn\<lparr>sockfd := -1\<rparr>, sys_close K (sockfd conn) k) else (conn, k))"

section \<open>UDP\<close>

record UdpSocket =
  us_sockfd :: int
  us_bind_port :: u16

definition net_set_nonblocking :: "'k kernel \<Rightarrow> int \<Rightarrow> 'k \<Rightarrow> bool \<times> 'k" where
  "net_set_nonblocking K fd k =
     (case sys_get_flags K fd k of
        None \<Rightarrow> (False, k)
      | Some flags \<Rightarrow> sys_set_flags K fd (flags OR O_NONBLOCK) k)"

definition udp_init :: "'k kernel \<Rightarrow> bytes \<Rightarrow> u16 \<Rightarrow> 'k \<Rightarrow> (int \<times> UdpSocket option) \<times> 'k" where
  "udp_init K ip port k =
     (let (fd, k) = sys_socket K k
      in if fd < 0 then ((-1, None), k)
         else
           let (ok, k) = net_set_nonblocking K fd k
           in if \<not> ok then ((-1, None), sys_close K fd k)
              else if \<not> sys_inet_pton K ip then ((-1, None), sys_close K fd k)
              else
                let (ok, k) = sys_bind K fd ip port k
                in if \<not> ok then ((-1, None), sys_close K fd k)
                   else ((0, Some \<lparr>us_sockfd = fd, us_bind_port = port\<rparr>), k))"

definition udp_send :: "'k kernel \<Rightarrow> UdpSocket \<Rightarrow> bytes \<Rightarrow> u16 \<Rightarrow> bytes \<Rightarrow> 'k \<Rightarrow> int \<times> 'k" where
  "udp_send K sock dest_ip dest_port data k = sys_sendto K (us_sockfd sock) dest_ip dest_port data k"

text \<open>The answer carries the received bytes, and the sender when there was a datagram.\<close>

definition udp_recv ::
  "'k kernel \<Rightarrow> UdpSocket \<Rightarrow> nat \<Rightarrow> 'k \<Rightarrow> (int \<times> bytes \<times> (bytes \<times> u16) option) \<times> 'k" where
  "udp_recv K sock max_len k =
     (case sys_recvfrom K (us_sockfd sock) max_len k of
        ((Received d, ip, port), k) \<Rightarrow> ((int (length d), d, Some (ip, port)), k)
      | ((RecvAgain, _), k) \<Rightarrow> ((0, [], None), k)
      | ((_, _), k) \<Rightarrow> ((-1, [], None), k))"

definition udp_close :: "'k kernel \<Rightarrow> UdpSocket \<Rightarrow> 'k \<Rightarrow> UdpSocket \<times> 'k" where
  "udp_close K sock k =
     (if us_sockfd sock \<ge> 0 then (sock\<lparr>us_sockfd := -1\<rparr>, sys_close K (us_sockfd sock) k) else (sock, k))"

section \<open>What the code relies on\<close>

text \<open>
  Descriptors: \<^verbatim>\<open>socket\<close> and \<^verbatim>\<open>accept\<close> hand out new ones, \<^verbatim>\<open>close\<close> takes one back, no other
  call opens or closes any.
\<close>

definition fd_kernel :: "'k kernel \<Rightarrow> ('k \<Rightarrow> int set) \<Rightarrow> bool" where
  "fd_kernel K opened \<longleftrightarrow>
     (\<forall>k. case sys_socket K k of (fd, k') \<Rightarrow>
        if fd < 0 then opened k' = opened k else fd \<notin> opened k \<and> opened k' = insert fd (opened k)) \<and>
     (\<forall>fd k. opened (snd (sys_setsockopt K fd k)) = opened k) \<and>
     (\<forall>fd ip p k. opened (snd (sys_bind K fd ip p k)) = opened k) \<and>
     (\<forall>fd n k. opened (snd (sys_listen K fd n k)) = opened k) \<and>
     (\<forall>fd ip p k. opened (snd (sys_connect K fd ip p k)) = opened k) \<and>
     (\<forall>fd fl k. opened (snd (sys_set_flags K fd fl k)) = opened k) \<and>
     (\<forall>fd k. opened (sys_close K fd k) = opened k - {fd})"

text \<open>
  Byte streams: \<open>tx fd\<close> is what was handed over for sending on a connection, \<open>rx fd\<close> what is
  still to be received. Calls move a prefix.
\<close>

definition stream_kernel :: "'k kernel \<Rightarrow> (int \<Rightarrow> 'k \<Rightarrow> bytes) \<Rightarrow> (int \<Rightarrow> 'k \<Rightarrow> bytes) \<Rightarrow> bool" where
  "stream_kernel K tx rx \<longleftrightarrow>
     (\<forall>fd d k. case sys_send K fd d k of
        (Sent n, k') \<Rightarrow> n \<le> length d \<and> tx fd k' = tx fd k @ take n d \<and> rx fd k' = rx fd k
      | (_, k') \<Rightarrow> tx fd k' = tx fd k \<and> rx fd k' = rx fd k) \<and>
     (\<forall>fd n k. case sys_recv K fd n k of
        (Received d, k') \<Rightarrow> length d \<le> n \<and> rx fd k = d @ rx fd k' \<and> tx fd k' = tx fd k
      | (_, k') \<Rightarrow> rx fd k' = rx fd k \<and> tx fd k' = tx fd k)"

text \<open>A connection that does not fail: every call moves something when there is something to move.\<close>

definition healthy_kernel :: "'k kernel \<Rightarrow> (int \<Rightarrow> 'k \<Rightarrow> bytes) \<Rightarrow> bool" where
  "healthy_kernel K rx \<longleftrightarrow>
     (\<forall>fd d k. d \<noteq> [] \<longrightarrow> (\<exists>n k'. sys_send K fd d k = (Sent n, k') \<and> 0 < n)) \<and>
     (\<forall>fd n k. 0 < n \<and> rx fd k \<noteq> [] \<longrightarrow> (\<exists>d k'. sys_recv K fd n k = (Received d, k') \<and> d \<noteq> []))"

section \<open>Streams\<close>

lemma stream_kernel_send:
  assumes "stream_kernel K tx rx" and "sys_send K fd d k = (r, k')"
  shows "rx fd k' = rx fd k"
    and "r = Sent n \<Longrightarrow> n \<le> length d \<and> tx fd k' = tx fd k @ take n d"
    and "\<forall>n. r \<noteq> Sent n \<Longrightarrow> tx fd k' = tx fd k"
proof -
  note call = assms(1) [unfolded stream_kernel_def, THEN conjunct1, THEN spec [of _ fd],
      THEN spec [of _ d], THEN spec [of _ k],
      unfolded assms(2) prod.case]
  show "rx fd k' = rx fd k"
    using call by (cases r) simp_all
  show "r = Sent n \<Longrightarrow> n \<le> length d \<and> tx fd k' = tx fd k @ take n d"
    using call by simp
  show "\<forall>n. r \<noteq> Sent n \<Longrightarrow> tx fd k' = tx fd k"
    using call by (cases r) simp_all
qed

lemma stream_kernel_recv:
  assumes "stream_kernel K tx rx" and "sys_recv K fd n k = (r, k')"
  shows "tx fd k' = tx fd k"
    and "r = Received d \<Longrightarrow> length d \<le> n \<and> rx fd k = d @ rx fd k'"
    and "\<forall>d. r \<noteq> Received d \<Longrightarrow> rx fd k' = rx fd k"
proof -
  note call = assms(1) [unfolded stream_kernel_def, THEN conjunct2, THEN spec [of _ fd],
      THEN spec [of _ n], THEN spec [of _ k],
      unfolded assms(2) prod.case]
  show "tx fd k' = tx fd k"
    using call by (cases r) simp_all
  show "r = Received d \<Longrightarrow> length d \<le> n \<and> rx fd k = d @ rx fd k'"
    using call by simp
  show "\<forall>d. r \<noteq> Received d \<Longrightarrow> rx fd k' = rx fd k"
    using call by (cases r) simp_all
qed

text \<open>What a call of \<^verbatim>\<open>tcp_send_all\<close> has done to the stream when it returns.\<close>

definition send_outcome ::
  "(int \<Rightarrow> 'k \<Rightarrow> bytes) \<Rightarrow> (int \<Rightarrow> 'k \<Rightarrow> bytes) \<Rightarrow> int \<Rightarrow> bytes \<Rightarrow> 'k \<Rightarrow> int \<times> 'k \<Rightarrow> bool" where
  "send_outcome tx rx fd data k r \<longleftrightarrow>
     (fst r = 0 \<and> tx fd (snd r) = tx fd k @ data \<or>
      fst r = -1 \<and> (\<exists>n. tx fd (snd r) = tx fd k @ take n data)) \<and>
     rx fd (snd r) = rx fd k"

lemma send_outcome_step:
  assumes "stream_kernel K tx rx" and "sys_send K fd data k = (Sent n, k')"
    and "send_outcome tx rx fd (drop n data) k' r"
  shows "send_outcome tx rx fd data k r"
proof -
  note s = stream_kernel_send(1) [OF assms(1,2)] stream_kernel_send(2) [OF assms(1,2) refl]
  have "fst r = 0 \<Longrightarrow> tx fd (snd r) = tx fd k' @ drop n data \<Longrightarrow> tx fd (snd r) = tx fd k @ data"
    using s(2) by simp
  moreover have "\<exists>m. tx fd (snd r) = tx fd k @ take m data"
    if "\<exists>m. tx fd (snd r) = tx fd k' @ take m (drop n data)"
    using that s(2) by (metis append.assoc take_add)
  ultimately show ?thesis
    using assms(3) s(1) unfolding send_outcome_def by (metis (no_types))
qed

lemma tcp_send_all_stream:
  assumes "stream_kernel K tx rx" and "tcp_send_all K fd data k = Some r"
  shows "send_outcome tx rx fd data k r"
proof (rule tcp_send_all.raw_induct [of "\<lambda>K' fd' data k r. stream_kernel K' tx rx \<longrightarrow> send_outcome tx rx fd' data k r",
      OF _ assms(2), THEN mp, OF _ assms(1)], rule impI)
  fix f K fd data k r
  assume ih: "\<And>K fd data k r. f K fd data k = Some r \<Longrightarrow> stream_kernel K tx rx \<longrightarrow> send_outcome tx rx fd data k r"
    and body: "(if data = [] then Some (0, k)
         else (case sys_send K fd data k of
           (Sent n, k) \<Rightarrow> f K fd (drop n data) k
         | (SendIntr, k) \<Rightarrow> f K fd data k
         | (_, k) \<Rightarrow> Some (-1, k))) = Some r"
    and K: "stream_kernel K tx rx"
  obtain res k' where call: "sys_send K fd data k = (res, k')" by force
  note s = stream_kernel_send [OF K call]
  show "send_outcome tx rx fd data k r"
  proof (cases "data = []")
    case True
    with body show ?thesis by (auto simp: send_outcome_def)
  next
    case False
    show ?thesis
    proof (cases res)
      case (Sent n)
      with False body call have "f K fd (drop n data) k' = Some r" by simp
      from send_outcome_step [OF K call [unfolded Sent] ih [OF this, THEN mp, OF K]] show ?thesis .
    next
      case SendIntr
      with False body call have "f K fd data k' = Some r" by simp
      from ih [OF this] K s(1,3) SendIntr show ?thesis by (simp add: send_outcome_def)
    qed (use False body call s(1,3) in \<open>auto simp: send_outcome_def intro!: exI [of _ 0]\<close>)
  qed
qed

lemma healthy_kernel_send:
  "healthy_kernel K rx \<Longrightarrow> d \<noteq> [] \<Longrightarrow> \<exists>n k'. sys_send K fd d k = (Sent n, k') \<and> 0 < n"
  by (simp add: healthy_kernel_def)

lemma healthy_kernel_recv:
  "healthy_kernel K rx \<Longrightarrow> 0 < n \<Longrightarrow> rx fd k \<noteq> [] \<Longrightarrow>
     \<exists>d k'. sys_recv K fd n k = (Received d, k') \<and> d \<noteq> []"
  by (simp add: healthy_kernel_def)

lemma tcp_send_all_returns:
  assumes "healthy_kernel K rx'"
  shows "\<exists>k'. tcp_send_all K fd data k = Some (0, k')"
proof (induction "length data" arbitrary: data k rule: less_induct)
  case less
  show ?case
  proof (cases "data = []")
    case True
    then show ?thesis by (subst tcp_send_all.simps) simp
  next
    case False
    then obtain n k1 where call: "sys_send K fd data k = (Sent n, k1)" and "0 < n"
      using healthy_kernel_send [OF assms] by blast
    then have "length (drop n data) < length data"
      using False by simp
    from less [OF this, of k1] False call show ?thesis
      by (subst tcp_send_all.simps) simp
  qed
qed

lemma tcp_recv_loop_stream:
  assumes "stream_kernel K tx rx" and "tcp_recv_loop K fd buf remaining k = ((rc, buf'), k')"
  shows "\<exists>d. buf' = buf @ d \<and> rx fd k = d @ rx fd k' \<and> tx fd k' = tx fd k \<and>
    (rc = 0 \<and> length d = remaining \<or> rc = -1 \<and> length d < remaining)"
  using assms(2)
proof (induction remaining arbitrary: buf k rule: less_induct)
  case (less remaining)
  obtain res k1 where call: "sys_recv K fd remaining k = (res, k1)" by force
  note s = stream_kernel_recv [OF assms(1) call]
  show ?case
  proof (cases "remaining = 0 \<or> (\<forall>d. res \<noteq> Received d) \<or> res = Received []")
    case True
    with less.prems call s show ?thesis
      by (subst (asm) tcp_recv_loop.simps) (cases res; auto split: if_splits)
  next
    case False
    then obtain d where d: "res = Received d" "d \<noteq> []" "0 < remaining" by auto
    with less.prems call have "tcp_recv_loop K fd (buf @ d) (remaining - length d) k1 = ((rc, buf'), k')"
      by (subst (asm) tcp_recv_loop.simps) simp
    from less.IH [OF _ this] d s(1) s(2) [OF d(1)] show ?thesis
      by (fastforce simp: neq_Nil_conv)
  qed
qed

lemma tcp_recv_loop_full:
  assumes "stream_kernel K tx rx" and "healthy_kernel K rx" and "remaining \<le> length (rx fd k)"
  shows "\<exists>k'. tcp_recv_loop K fd buf remaining k = ((0, buf @ take remaining (rx fd k)), k') \<and>
    rx fd k' = drop remaining (rx fd k)"
  using assms(3)
proof (induction remaining arbitrary: buf k rule: less_induct)
  case (less remaining)
  show ?case
  proof (cases "remaining = 0")
    case True
    then show ?thesis by (subst tcp_recv_loop.simps) simp
  next
    case False
    then have "0 < remaining" "rx fd k \<noteq> []"
      using less.prems by auto
    then obtain d k1 where call: "sys_recv K fd remaining k = (Received d, k1)" and "d \<noteq> []"
      using healthy_kernel_recv [OF assms(2)] by blast
    note s = stream_kernel_recv(2) [OF assms(1) call refl]
    have "remaining - length d < remaining" "remaining - length d \<le> length (rx fd k1)"
      using s less.prems False \<open>d \<noteq> []\<close> by (auto simp: neq_Nil_conv)
    from less.IH [OF this, of "buf @ d"] call False \<open>d \<noteq> []\<close> s show ?thesis
      by (subst tcp_recv_loop.simps) simp
  qed
qed


text \<open>
  A small system for the examples: a descriptor table and one connection that moves at most two
  bytes per call.
\<close>

type_synonym demo_state = "bool list \<times> bytes \<times> bytes"

definition demo_opened :: "demo_state \<Rightarrow> int set" where
  "demo_opened = (\<lambda>(tab, tx, rx). {int i | i. i < length tab \<and> tab ! i})"

definition demo_kernel :: "bool \<Rightarrow> demo_state kernel" where
  "demo_kernel binds =
     \<lparr>sys_socket = (\<lambda>(tab, s). (int (length tab), tab @ [True], s)),
      sys_setsockopt = (\<lambda>fd k. (True, k)),
      sys_inet_pton = (\<lambda>ip. True),
      sys_bind = (\<lambda>fd ip p k. (binds, k)),
      sys_listen = (\<lambda>fd n k. (True, k)),
      sys_connect = (\<lambda>fd ip p k. (True, k)),
      sys_accept = (\<lambda>fd k. (AcceptAgain, k)),
      sys_get_flags = (\<lambda>fd k. Some 0),
      sys_set_flags = (\<lambda>fd fl k. (True, k)),
      sys_send = (\<lambda>fd d (tab, tx, rx). (Sent (min 2 (length d)), tab, tx @ take 2 d, rx)),
      sys_recv = (\<lambda>fd n (tab, tx, rx). (Received (take (min 2 n) rx), tab, tx, drop (min 2 n) rx)),
      sys_sendto = (\<lambda>fd ip p d k. (int (length d), k)),
      sys_recvfrom = (\<lambda>fd n k. ((RecvAgain, [], 0), k)),
      sys_close = (\<lambda>fd (tab, s). (if fd < 0 then tab else tab[nat fd := False], s))\<rparr>"

lemma demo_kernel_stream: "stream_kernel (demo_kernel b) (\<lambda>_ (tab, tx, rx). tx) (\<lambda>_ (tab, tx, rx). rx)"
  by (auto simp: stream_kernel_def demo_kernel_def min_def)

lemma demo_kernel_healthy: "healthy_kernel (demo_kernel b) (\<lambda>_ (tab, tx, rx). rx)"
  by (auto simp: healthy_kernel_def demo_kernel_def min_def)

lemma demo_opened_iff:
  "x \<in> demo_opened (tab, s) \<longleftrightarrow> 0 \<le> x \<and> nat x < length tab \<and> tab ! nat x"
  by (cases s) (auto simp: demo_opened_def intro: exI [of _ "nat x"])

lemma demo_opened_snoc: "demo_opened (tab @ [True], s) = insert (int (length tab)) (demo_opened (tab, s))"
proof (rule set_eqI)
  fix x
  show "x \<in> demo_opened (tab @ [True], s) \<longleftrightarrow> x \<in> insert (int (length tab)) (demo_opened (tab, s))"
    by (cases "nat x = length tab") (auto simp: demo_opened_iff nth_append)
qed

lemma demo_opened_update: "0 \<le> fd \<Longrightarrow> demo_opened (tab[nat fd := False], s) = demo_opened (tab, s) - {fd}"
proof (rule set_eqI)
  fix x
  assume "0 \<le> fd"
  then show "x \<in> demo_opened (tab[nat fd := False], s) \<longleftrightarrow> x \<in> demo_opened (tab, s) - {fd}"
    by (cases "x = fd") (auto simp: demo_opened_iff nth_list_update)
qed

lemma demo_kernel_fd: "fd_kernel (demo_kernel b) demo_opened"
  unfolding fd_kernel_def demo_kernel_def
  by (simp add: split_beta demo_opened_snoc demo_opened_update demo_opened_iff)


section \<open>Descriptors\<close>

lemma fd_kernelD:
  assumes "fd_kernel K opened"
  shows "sys_socket K k = (fd, k') \<Longrightarrow> fd < 0 \<Longrightarrow> opened k' = opened k"
    "sys_socket K k = (fd, k') \<Longrightarrow> 0 \<le> fd \<Longrightarrow> fd \<notin> opened k \<and> opened k' = insert fd (opened k)"
    "opened (snd (sys_setsockopt K fd k)) = opened k"
    "opened (snd (sys_bind K fd ip p k)) = opened k"
    "opened (snd (sys_listen K fd n k)) = opened k"
    "opened (snd (sys_connect K fd ip p k)) = opened k"
    "opened (snd (sys_set_flags K fd fl k)) = opened k"
    "opened (sys_close K fd k) = opened k - {fd}"
proof -
  show "sys_socket K k = (fd, k') \<Longrightarrow> fd < 0 \<Longrightarrow> opened k' = opened k"
    and "sys_socket K k = (fd, k') \<Longrightarrow> 0 \<le> fd \<Longrightarrow> fd \<notin> opened k \<and> opened k' = insert fd (opened k)"
    using assms [unfolded fd_kernel_def, THEN conjunct1, THEN spec [of _ k]] by simp_all
qed (use assms in \<open>simp_all add: fd_kernel_def\<close>)

text \<open>A call that returns a descriptor or fails: the table gains exactly the returned one.\<close>

definition opens_one :: "('k \<Rightarrow> int set) \<Rightarrow> 'k \<Rightarrow> int option \<times> 'k \<Rightarrow> bool" where
  "opens_one opened k r \<longleftrightarrow>
     (case fst r of
        None \<Rightarrow> opened (snd r) = opened k
      | Some fd \<Rightarrow> fd \<notin> opened k \<and> opened (snd r) = insert fd (opened k))"

definition fd_result :: "int \<times> 'k \<Rightarrow> int option \<times> 'k" where
  "fd_result = (\<lambda>(fd, k). (if fd < 0 then None else Some fd, k))"

lemma opened_set_nonblocking:
  "fd_kernel K opened \<Longrightarrow> opened (snd (set_nonblocking K fd k)) = opened k"
  "fd_kernel K opened \<Longrightarrow> opened (snd (net_set_nonblocking K fd k)) = opened k"
  by (simp_all add: set_nonblocking_def net_set_nonblocking_def fd_kernelD(7) split: option.split)

lemma opens_one_listen:
  assumes "fd_kernel K opened"
  shows "opens_one opened k (fd_result (tcp_server_listen K ip port backlog k))"
proof -
  obtain fd k1 where s: "sys_socket K k = (fd, k1)" by force
  obtain ok2 k2 where o: "sys_setsockopt K fd k1 = (ok2, k2)" by force
  obtain ok3 k3 where b: "sys_bind K fd ip port k2 = (ok3, k3)" by force
  obtain ok4 k4 where l: "sys_listen K fd backlog k3 = (ok4, k4)" by force
  note frames = fd_kernelD(3) [OF assms, of fd k1] fd_kernelD(4) [OF assms, of fd ip port k2]
    fd_kernelD(5) [OF assms, of fd backlog k3] fd_kernelD(8) [OF assms]
  show ?thesis
    using fd_kernelD(1,2) [OF assms s] frames s o b l
    by (auto simp: tcp_server_listen_def opens_one_def fd_result_def)
qed

lemma opens_one_listen_nonblock:
  assumes "fd_kernel K opened"
  shows "opens_one opened k (fd_result (tcp_server_listen_nonblock K ip port backlog k))"
proof -
  obtain fd k1 where l: "tcp_server_listen K ip port backlog k = (fd, k1)" by force
  obtain ok k2 where n: "set_nonblocking K fd k1 = (ok, k2)" by force
  show ?thesis
    using opens_one_listen [OF assms, of k ip port backlog] opened_set_nonblocking(1) [OF assms, of fd k1]
      fd_kernelD(8) [OF assms] l n
    by (auto simp: tcp_server_listen_nonblock_def opens_one_def fd_result_def split: if_splits)
qed

lemma opens_one_connect:
  assumes "fd_kernel K opened"
  shows "opens_one opened k (map_prod (\<lambda>(rc, conn). map_option sockfd conn) id (tcp_client_connect K ip port k))"
proof -
  obtain fd k1 where s: "sys_socket K k = (fd, k1)" by force
  obtain ok2 k2 where c: "sys_connect K fd ip port k1 = (ok2, k2)" by force
  show ?thesis
    using fd_kernelD(1,2) [OF assms s] fd_kernelD(6) [OF assms, of fd ip port k1] fd_kernelD(8) [OF assms] s c
    by (auto simp: tcp_client_connect_def opens_one_def)
qed

lemma opens_one_udp:
  assumes "fd_kernel K opened"
  shows "opens_one opened k (map_prod (\<lambda>(rc, sock). map_option us_sockfd sock) id (udp_init K ip port k))"
proof -
  obtain fd k1 where s: "sys_socket K k = (fd, k1)" by force
  obtain ok2 k2 where n: "net_set_nonblocking K fd k1 = (ok2, k2)" by force
  obtain ok3 k3 where b: "sys_bind K fd ip port k2 = (ok3, k3)" by force
  show ?thesis
    using fd_kernelD(1,2) [OF assms s] fd_kernelD(4) [OF assms, of fd ip port k2] fd_kernelD(8) [OF assms]
      opened_set_nonblocking(2) [OF assms, of fd k1] s n b
    by (auto simp: udp_init_def opens_one_def)
qed

text \<open>C21: No descriptor leaks from setting up sockets: on every path of \<^verbatim>\<open>tcp_server_listen\<close>,
  \<^verbatim>\<open>tcp_server_listen_nonblock\<close>, \<^verbatim>\<open>tcp_client_connect\<close> and \<^verbatim>\<open>udp_init\<close> the call either hands out one new
  descriptor and nothing else is open, or fails and the table is as before.\<close>

theorem sockets_do_not_leak:
  assumes "fd_kernel K opened"
  shows "opens_one opened k (fd_result (tcp_server_listen K ip port backlog k)) \<and>
    opens_one opened k (fd_result (tcp_server_listen_nonblock K ip port backlog k)) \<and>
    opens_one opened k (map_prod (\<lambda>(rc, conn). map_option sockfd conn) id (tcp_client_connect K ip port k)) \<and>
    opens_one opened k (map_prod (\<lambda>(rc, sock). map_option us_sockfd sock) id (udp_init K ip port k))"
  using opens_one_listen [OF assms] opens_one_listen_nonblock [OF assms] opens_one_connect [OF assms]
    opens_one_udp [OF assms] by blast

theorem sockets_do_not_leak_witness:
  "tcp_server_listen (demo_kernel False) [] 9000 128 ([True], [], []) = (-1, [True, False], [], []) \<and>
   demo_opened (snd (tcp_server_listen (demo_kernel False) [] 9000 128 ([True], [], []))) =
     demo_opened ([True], [], [])"
proof -
  have r: "tcp_server_listen (demo_kernel False) [] 9000 128 ([True], [], []) = (-1, [True, False], [], [])"
    by (simp add: tcp_server_listen_def demo_kernel_def)
  then show ?thesis
    using sockets_do_not_leak [OF demo_kernel_fd [of False], of "([True], [], [])" "[]" 9000 128]
    by (simp add: opens_one_def fd_result_def)
qed

end
