(* ===== verification/Rpc_Message.thy ===== *)
theory Rpc_Message
  imports Wire Transport
begin

text \<open>
  The blocking message functions of \<^verbatim>\<open>src/protocol/rpc_handler.c\<close>, \<^verbatim>\<open>rpc_send_message\<close> and
  \<^verbatim>\<open>rpc_recv_message\<close>, which client code and the Raft transport use. Both move the header as the
  structure lies in memory, in the byte order of their host.
\<close>

definition MAX_PAYLOAD_SIZE :: u64 where "MAX_PAYLOAD_SIZE = 10 * 1024 * 1024"

text \<open>The payload argument is \<open>None\<close> for NULL, otherwise a buffer of at least \<^verbatim>\<open>payload_len\<close> bytes.\<close>

definition rpc_send_message ::
  "'k kernel \<Rightarrow> endian \<Rightarrow> TcpConnection \<Rightarrow> RpcHeader \<Rightarrow> bytes option \<Rightarrow> 'k \<Rightarrow> (int \<times> 'k) option" where
  "rpc_send_message K e conn header payload k =
     (case tcp_send_all K (sockfd conn) (header_image e header) k of
        None \<Rightarrow> None
      | Some (rc, k) \<Rightarrow>
          if rc \<noteq> 0 then Some (-1, k)
          else
            (case payload of
               None \<Rightarrow> Some (0, k)
             | Some p \<Rightarrow>
                 if payload_len header > 0
                 then
                   (case tcp_send_all K (sockfd conn) (take (unat (payload_len header)) p) k of
                      None \<Rightarrow> None
                    | Some (rc, k) \<Rightarrow> if rc \<noteq> 0 then Some (-1, k) else Some (0, k))
                 else Some (0, k)))"

definition header_read :: "endian \<Rightarrow> bytes \<Rightarrow> RpcHeader" where
  "header_read e bs =
     \<lparr>magic = host_word e (field_at 0 4 bs),
      version = host_word e (field_at 4 2 bs),
      command_type = host_word e (field_at 6 2 bs),
      payload_len = host_word e (field_at 8 8 bs),
      origin_id = field_at 16 MAX_NODE_ID bs,
      request_id = field_at 53 MAX_NODE_ID bs\<rparr>"

text \<open>
  The result is the return code, the header once it was received completely, and the payload
  buffer, \<open>None\<close> for NULL. \<open>mem\<close> is the answer of \<^verbatim>\<open>malloc\<close>.
\<close>

definition rpc_recv_message ::
  "'k kernel \<Rightarrow> endian \<Rightarrow> bool \<Rightarrow> TcpConnection \<Rightarrow> 'k \<Rightarrow> (int \<times> RpcHeader option \<times> bytes option) \<times> 'k" where
  "rpc_recv_message K e mem conn k =
     (let ((rc, raw), k) = tcp_recv_all K (sockfd conn) sizeof_RpcHeader k
      in if rc \<noteq> 0 then ((-1, None, None), k)
         else
           let header = header_read e raw
           in if magic header \<noteq> RPC_MAGIC then ((-2, Some header, None), k)
              else if payload_len header > MAX_PAYLOAD_SIZE then ((-2, Some header, None), k)
              else if payload_len header > 0
              then
                if \<not> mem then ((-1, Some header, None), k)
                else
                  let ((rc, d), k) = tcp_recv_all K (sockfd conn) (unat (payload_len header)) k
                  in if rc \<noteq> 0 then ((-1, Some header, None), k) else ((0, Some header, Some d), k)
              else ((0, Some header, None), k))"

section \<open>Headers in memory\<close>

interpretation raw_header: fixed_codec "header_image e" "header_read e" sizeof_RpcHeader wf_rpc_header
  for e
proof
  fix x
  assume wf: "wf_rpc_header x"
  show "length (header_image e x) = sizeof_RpcHeader"
    using wf by (simp add: header_image_def wf_rpc_header_def wire_sizes)
  show "header_read e (header_image e x) = x"
    using wf by (simp add: header_image_def header_read_def wf_rpc_header_def wire_sizes field_simps_at
        host_word_host_bytes)
next
  fix bs :: bytes
  assume len: "length bs = sizeof_RpcHeader"
  show "wf_rpc_header (header_read e bs)"
    using len by (simp add: header_read_def wf_rpc_header_def wire_sizes)
  show "header_image e (header_read e bs) = bs"
    using len by (simp add: header_image_def header_read_def wire_sizes host_bytes_host_word
        field_at_glue field_at_whole flip: append_assoc)
qed

text \<open>The magic number a host of byte order \<open>d\<close> sees in the memory image of a host of order \<open>e\<close>.\<close>

lemma magic_read_image:
  assumes "magic h = RPC_MAGIC"
  shows "magic (header_read d (header_image e h)) = RPC_MAGIC \<longleftrightarrow> d = e"
proof -
  have "field_at 0 4 (header_image e h) = host_bytes e 4 (magic h)"
    by (simp add: header_image_def field_simps_at)
  then have "magic (header_read d (header_image e h)) = host_word d (host_bytes e 4 RPC_MAGIC :: bytes)"
    by (simp add: header_read_def assms)
  moreover have "(host_word d (host_bytes e 4 RPC_MAGIC) :: u32) = RPC_MAGIC \<longleftrightarrow> d = e"
    unfolding RPC_MAGIC_def by (cases d; cases e) (simp_all, code_simp+)
  ultimately show ?thesis by simp
qed

section \<open>Messages over a stream\<close>

lemma tcp_recv_all_full:
  assumes "stream_kernel K tx rx" and "healthy_kernel K rx" and "rx fd k = d @ rest" and "length d = n"
  shows "\<exists>k'. tcp_recv_all K fd n k = ((0, d), k') \<and> rx fd k' = rest"
  using tcp_recv_loop_full [OF assms(1,2), of n fd k "[]"] assms(3,4) by (simp add: tcp_recv_all_def)

lemma tcp_send_all_full:
  assumes "stream_kernel K tx rx" and "healthy_kernel K rx"
  shows "\<exists>k'. tcp_send_all K fd data k = Some (0, k') \<and> tx fd k' = tx fd k @ data"
  using tcp_send_all_returns [OF assms(2), of fd data k] tcp_send_all_stream [OF assms(1)]
  by (fastforce simp: send_outcome_def)

lemma rpc_send_message_run:
  assumes "stream_kernel K tx rx" and "healthy_kernel K rx" and "payload_len h = of_nat (length p)"
    and "length p < 2 ^ 64"
  shows "\<exists>k'. rpc_send_message K e conn h (Some p) k = Some (0, k') \<and>
    tx (sockfd conn) k' = tx (sockfd conn) k @ header_image e h @ p"
proof -
  obtain k1 where s1: "tcp_send_all K (sockfd conn) (header_image e h) k = Some (0, k1)"
    and t1: "tx (sockfd conn) k1 = tx (sockfd conn) k @ header_image e h"
    using tcp_send_all_full [OF assms(1,2)] by blast
  obtain k2 where s2: "tcp_send_all K (sockfd conn) p k1 = Some (0, k2)"
    and t2: "tx (sockfd conn) k2 = tx (sockfd conn) k1 @ p"
    using tcp_send_all_full [OF assms(1,2)] by blast
  have len: "unat (payload_len h) = length p"
    using assms(3,4) by (simp add: unat_of_nat_64)
  show ?thesis
  proof (cases "payload_len h > 0")
    case True
    then show ?thesis
      using s1 s2 t1 t2 len by (simp add: rpc_send_message_def)
  next
    case False
    then have "payload_len h = 0"
      by (simp add: word_greater_zero_iff)
    then have "p = []"
      using len by simp
    then show ?thesis
      using s1 t1 False by (simp add: rpc_send_message_def)
  qed
qed

lemma rpc_recv_message_run:
  assumes "stream_kernel K tx rx" and "healthy_kernel K rx" and "wf_rpc_header h"
    and "magic h = RPC_MAGIC" and "payload_len h = of_nat (length p)" and "length p \<le> 10485760"
    and "rx (sockfd conn) k = header_image e h @ p @ rest"
  shows "\<exists>k'. rpc_recv_message K e True conn k = ((0, Some h, if p = [] then None else Some p), k') \<and>
    rx (sockfd conn) k' = rest"
proof -
  obtain k1 where r1: "tcp_recv_all K (sockfd conn) sizeof_RpcHeader k = ((0, header_image e h), k1)"
    and x1: "rx (sockfd conn) k1 = p @ rest"
    using tcp_recv_all_full [OF assms(1,2,7) raw_header.pack_length [OF assms(3)]] by blast
  obtain k2 where r2: "tcp_recv_all K (sockfd conn) (length p) k1 = ((0, p), k2)"
    and x2: "rx (sockfd conn) k2 = rest"
    using tcp_recv_all_full [OF assms(1,2) x1 refl] by blast
  have len: "unat (payload_len h) = length p"
    using assms(5,6) by (simp add: unat_of_nat_64)
  then have pos: "payload_len h > 0 \<longleftrightarrow> p \<noteq> []"
    by (simp add: word_less_nat_alt)
  have "\<not> payload_len h > MAX_PAYLOAD_SIZE"
    using len assms(6) by (simp add: word_less_nat_alt MAX_PAYLOAD_SIZE_def)
  then show ?thesis
    using r1 r2 x1 x2 pos len assms(4) raw_header.unpack_pack [OF assms(3)]
    by (auto simp: rpc_recv_message_def)
qed

text \<open>C20: A message sent by \<^verbatim>\<open>rpc_send_message\<close> on a working connection reaches \<^verbatim>\<open>rpc_recv_message\<close>
  complete, header and payload, and leaves the rest of the stream untouched, when both hosts have the same byte
  order; a receiver of the other byte order refuses the message with code -2.\<close>

theorem rpc_message_roundtrip:
  assumes "stream_kernel K tx rx" and "healthy_kernel K rx"
    and "stream_kernel K' tx' rx'" and "healthy_kernel K' rx'"
    and "wf_rpc_header h" and "magic h = RPC_MAGIC" and "payload_len h = of_nat (length p)"
    and "length p \<le> 10485760"
    and "rx' (sockfd conn') k' = header_image e h @ p @ rest"
  shows "(\<exists>k2. rpc_send_message K e conn h (Some p) k = Some (0, k2) \<and>
      tx (sockfd conn) k2 = tx (sockfd conn) k @ header_image e h @ p) \<and>
    (if d = e
     then \<exists>k3. rpc_recv_message K' d True conn' k' = ((0, Some h, if p = [] then None else Some p), k3) \<and>
       rx' (sockfd conn') k3 = rest
     else \<exists>h' k3. rpc_recv_message K' d True conn' k' = ((-2, h', None), k3))"
proof -
  have "\<exists>h' k3. rpc_recv_message K' d True conn' k' = ((-2, h', None), k3)" if "d \<noteq> e"
  proof -
    obtain k1 where "tcp_recv_all K' (sockfd conn') sizeof_RpcHeader k' = ((0, header_image e h), k1)"
      using tcp_recv_all_full [OF assms(3,4,9) raw_header.pack_length [OF assms(5)]] by blast
    then show ?thesis
      using magic_read_image [OF assms(6), of d e] that by (simp add: rpc_recv_message_def)
  qed
  then show ?thesis
    using rpc_send_message_run [OF assms(1,2,7)] rpc_recv_message_run [OF assms(3-9)] assms(8) by auto
qed

definition demo_conn :: TcpConnection where
  "demo_conn = \<lparr>sockfd = 4, remote_ip = zeros 46, remote_port = 9000\<rparr>"

theorem rpc_message_roundtrip_witness:
  "\<exists>k2 k3. rpc_send_message (demo_kernel True) Little demo_conn sample_header (Some [1, 2, 3]) ([], [], []) = Some (0, k2) \<and>
     rpc_recv_message (demo_kernel True) Little True demo_conn ([], [], header_image Little sample_header @ [1, 2, 3]) =
       ((0, Some sample_header, Some [1, 2, 3]), k3)"
proof -
  have "magic sample_header = RPC_MAGIC" "payload_len sample_header = 3"
    by (simp_all add: sample_header_def)
  then show ?thesis
    using rpc_message_roundtrip [where p = "[1, 2, 3]" and conn = demo_conn and conn' = demo_conn and e = Little and d = Little
        and k = "([], [], [])" and k' = "([], [], header_image Little sample_header @ [1, 2, 3])" and rest = "[]",
        OF demo_kernel_stream [of True] demo_kernel_healthy [of True] demo_kernel_stream [of True]
          demo_kernel_healthy [of True] sample_header_wf]
    by auto
qed

text \<open>C39: Whatever a peer sends, \<^verbatim>\<open>rpc_recv_message\<close> hands out a payload only with a complete
  header that carries the protocol's magic number, and the payload has the announced length, at most 10 MiB.\<close>

theorem rpc_recv_message_bounded:
  assumes "stream_kernel K tx rx" and "rpc_recv_message K e mem conn k = ((rc, hdr, Some d), k')"
  shows "rc = 0 \<and> (\<exists>h. hdr = Some h \<and> magic h = RPC_MAGIC \<and> length d = unat (payload_len h)) \<and>
    0 < length d \<and> length d \<le> 10485760"
proof -
  obtain rc1 raw k1 where r1: "tcp_recv_all K (sockfd conn) sizeof_RpcHeader k = ((rc1, raw), k1)"
    by (metis surj_pair)
  let ?h = "header_read e raw"
  obtain rc2 d2 k2 where r2: "tcp_recv_all K (sockfd conn) (unat (payload_len ?h)) k1 = ((rc2, d2), k2)"
    by (metis surj_pair)
  have "rc2 = 0 \<Longrightarrow> length d2 = unat (payload_len ?h)"
    using tcp_recv_loop_stream [OF assms(1) r2 [unfolded tcp_recv_all_def]] by auto
  then show ?thesis
    using assms(2) r1 r2
    by (auto simp: rpc_recv_message_def Let_def MAX_PAYLOAD_SIZE_def word_less_nat_alt not_less split: if_splits)
qed

theorem rpc_recv_message_bounded_witness:
  "\<exists>k'. rpc_recv_message (demo_kernel True) Little True demo_conn ([], [], header_image Little sample_header @ [1, 2, 3]) =
      ((0, Some sample_header, Some [1, 2, 3]), k') \<and>
    length ([1, 2, 3] :: bytes) = unat (payload_len sample_header) \<and> length ([1, 2, 3] :: bytes) \<le> 10485760"
proof -
  have h: "magic sample_header = RPC_MAGIC" "payload_len sample_header = of_nat (length ([1, 2, 3] :: bytes))"
    by (simp_all add: sample_header_def)
  obtain k' where run: "rpc_recv_message (demo_kernel True) Little True demo_conn ([], [], header_image Little sample_header @ [1, 2, 3]) =
      ((0, Some sample_header, Some [1, 2, 3]), k')"
    using rpc_recv_message_run [where rest = "[]" and k = "([], [], header_image Little sample_header @ [1, 2, 3])" and conn = demo_conn and e = Little,
        OF demo_kernel_stream [of True] demo_kernel_healthy [of True] sample_header_wf h] by auto
  then show ?thesis
    using rpc_recv_message_bounded [OF demo_kernel_stream [of True] run] by (intro exI [of _ k']) auto
qed

end
