(* ===== verification/Raft_Rpc.thy ===== *)
theory Raft_Rpc
  imports Rpc_Message Raft_Steps Raft_Wal
begin

text \<open>
  The Raft transport, \<^verbatim>\<open>src/cluster/raft_rpc_integration.c\<close>: the codecs of the four Raft messages, the
  \<^verbatim>\<open>send_rpc\<close> callback that carries one request over a connection of its own and feeds the response back
  into the core, the dispatcher of incoming requests, and the example state machine. It discharges the contract
  of \<^verbatim>\<open>Raft_Steps\<close> for the callback the program installs.
\<close>

section \<open>Commands and message formats\<close>

definition RPC_CMD_RAFT_REQUEST_VOTE :: u16 where "RPC_CMD_RAFT_REQUEST_VOTE = 0x20"
definition RPC_CMD_RAFT_REQUEST_VOTE_RESP :: u16 where "RPC_CMD_RAFT_REQUEST_VOTE_RESP = 0x21"
definition RPC_CMD_RAFT_APPEND_ENTRIES :: u16 where "RPC_CMD_RAFT_APPEND_ENTRIES = 0x22"
definition RPC_CMD_RAFT_APPEND_ENTRIES_RESP :: u16 where "RPC_CMD_RAFT_APPEND_ENTRIES_RESP = 0x23"
definition RPC_CMD_RAFT_INSTALL_SNAPSHOT :: u16 where "RPC_CMD_RAFT_INSTALL_SNAPSHOT = 0x24"
definition RPC_CMD_RAFT_INSTALL_SNAPSHOT_RESP :: u16 where "RPC_CMD_RAFT_INSTALL_SNAPSHOT_RESP = 0x25"

lemmas raft_cmd_defs =
  RPC_CMD_RAFT_REQUEST_VOTE_def RPC_CMD_RAFT_REQUEST_VOTE_RESP_def RPC_CMD_RAFT_APPEND_ENTRIES_def
  RPC_CMD_RAFT_APPEND_ENTRIES_RESP_def RPC_CMD_RAFT_INSTALL_SNAPSHOT_def RPC_CMD_RAFT_INSTALL_SNAPSHOT_RESP_def

text \<open>\<^verbatim>\<open>sizeof\<close> of the packed structures.\<close>

definition sizeof_RequestVoteReq :: nat where "sizeof_RequestVoteReq = 8 + 37 + 8 + 8"
definition sizeof_RequestVoteResp :: nat where "sizeof_RequestVoteResp = 8 + 1"
definition sizeof_AppendEntriesReq :: nat where "sizeof_AppendEntriesReq = 8 + 37 + 8 + 8 + 8 + 4"
definition sizeof_AppendEntriesResp :: nat where "sizeof_AppendEntriesResp = 8 + 1 + 8"

lemmas raft_sizes =
  sizeof_RequestVoteReq_def sizeof_RequestVoteResp_def sizeof_AppendEntriesReq_def sizeof_AppendEntriesResp_def

definition pack_request_vote_req :: "endian \<Rightarrow> RaftRequestVoteReq \<Rightarrow> bytes" where
  "pack_request_vote_req e src =
     host_bytes e 8 (htobe64 e (rv_term src)) @ take 37 (rv_candidate_id src) @
     host_bytes e 8 (htobe64 e (rv_last_log_index src)) @ host_bytes e 8 (htobe64 e (rv_last_log_term src))"

definition unpack_request_vote_req :: "endian \<Rightarrow> bytes \<Rightarrow> RaftRequestVoteReq" where
  "unpack_request_vote_req e src =
     \<lparr>rv_term = be64toh e (host_word e (field_at 0 8 src)),
      rv_candidate_id = field_at 8 37 src,
      rv_last_log_index = be64toh e (host_word e (field_at 45 8 src)),
      rv_last_log_term = be64toh e (host_word e (field_at 53 8 src))\<rparr>"

definition pack_request_vote_resp :: "endian \<Rightarrow> RaftRequestVoteResp \<Rightarrow> bytes" where
  "pack_request_vote_resp e src = host_bytes e 8 (htobe64 e (rvr_term src)) @ [rvr_vote_granted src]"

definition unpack_request_vote_resp :: "endian \<Rightarrow> bytes \<Rightarrow> RaftRequestVoteResp" where
  "unpack_request_vote_resp e src =
     \<lparr>rvr_term = be64toh e (host_word e (field_at 0 8 src)), rvr_vote_granted = src ! 8\<rparr>"

definition pack_append_entries_req :: "endian \<Rightarrow> RaftAppendEntriesReq \<Rightarrow> bytes" where
  "pack_append_entries_req e src =
     host_bytes e 8 (htobe64 e (ae_term src)) @ take 37 (ae_leader_id src) @
     host_bytes e 8 (htobe64 e (ae_prev_log_index src)) @ host_bytes e 8 (htobe64 e (ae_prev_log_term src)) @
     host_bytes e 8 (htobe64 e (ae_leader_commit src)) @ host_bytes e 4 (htonl e (ae_entry_count src))"

definition unpack_append_entries_req :: "endian \<Rightarrow> bytes \<Rightarrow> RaftAppendEntriesReq" where
  "unpack_append_entries_req e src =
     \<lparr>ae_term = be64toh e (host_word e (field_at 0 8 src)),
      ae_leader_id = field_at 8 37 src,
      ae_prev_log_index = be64toh e (host_word e (field_at 45 8 src)),
      ae_prev_log_term = be64toh e (host_word e (field_at 53 8 src)),
      ae_leader_commit = be64toh e (host_word e (field_at 61 8 src)),
      ae_entry_count = ntohl e (host_word e (field_at 69 4 src))\<rparr>"

definition pack_append_entries_resp :: "endian \<Rightarrow> RaftAppendEntriesResp \<Rightarrow> bytes" where
  "pack_append_entries_resp e src =
     host_bytes e 8 (htobe64 e (aer_term src)) @ [aer_success src] @ host_bytes e 8 (htobe64 e (aer_match_index src))"

definition unpack_append_entries_resp :: "endian \<Rightarrow> bytes \<Rightarrow> RaftAppendEntriesResp" where
  "unpack_append_entries_resp e src =
     \<lparr>aer_term = be64toh e (host_word e (field_at 0 8 src)), aer_success = src ! 8,
      aer_match_index = be64toh e (host_word e (field_at 9 8 src))\<rparr>"

lemmas raft_codec_defs =
  pack_request_vote_req_def unpack_request_vote_req_def pack_request_vote_resp_def unpack_request_vote_resp_def
  pack_append_entries_req_def unpack_append_entries_req_def pack_append_entries_resp_def
  unpack_append_entries_resp_def

text \<open>The requests as the core hands them to \<^verbatim>\<open>send_rpc\<close>: the structures as they lie in memory.\<close>

fun request_image :: "endian \<Rightarrow> raft_request \<Rightarrow> bytes" where
  "request_image e (RequestVote r) =
     host_bytes e 8 (rv_term r) @ take 37 (rv_candidate_id r) @
     host_bytes e 8 (rv_last_log_index r) @ host_bytes e 8 (rv_last_log_term r)"
| "request_image e (AppendEntries r) =
     host_bytes e 8 (ae_term r) @ take 37 (ae_leader_id r) @
     host_bytes e 8 (ae_prev_log_index r) @ host_bytes e 8 (ae_prev_log_term r) @
     host_bytes e 8 (ae_leader_commit r) @ host_bytes e 4 (ae_entry_count r)"

section \<open>Sending\<close>

text \<open>The decimal numeral that \<^verbatim>\<open>%lu\<close> prints.\<close>

fun decimal :: "nat \<Rightarrow> bytes" where
  "decimal n = (if n < 10 then [of_nat (48 + n)] else decimal (n div 10) @ [of_nat (48 + n mod 10)])"

declare decimal.simps [simp del]

text \<open>\<^verbatim>\<open>snprintf\<close> of ``raft-'' and a number into a buffer of 37 bytes; the rest of the header was set to zero.\<close>

definition raft_request_id :: "u64 \<Rightarrow> bytes" where
  "raft_request_id now = strncpy (zeros 37) ([114, 97, 102, 116, 45] @ decimal (unat now)) 36"

definition raft_rpc_header :: "RaftNode \<Rightarrow> u16 \<Rightarrow> nat \<Rightarrow> u64 \<Rightarrow> RpcHeader" where
  "raft_rpc_header node cmd_type req_len now =
     \<lparr>magic = RPC_MAGIC, version = 1, command_type = cmd_type, payload_len = of_nat req_len,
      origin_id = strncpy (zeros 37) (node_id node) 36, request_id = raft_request_id now\<rparr>"

definition raft_cmd_type :: "nat \<Rightarrow> u16 option" where
  "raft_cmd_type req_len =
     (if req_len = sizeof_RequestVoteReq then Some RPC_CMD_RAFT_REQUEST_VOTE
      else if req_len \<ge> sizeof_AppendEntriesReq then Some RPC_CMD_RAFT_APPEND_ENTRIES
      else None)"

text \<open>Reading a structure of \<open>n\<close> bytes through a pointer to a received payload.\<close>

definition read_struct :: "nat \<Rightarrow> (bytes \<Rightarrow> 'a) \<Rightarrow> bytes option \<Rightarrow> fault + 'a" where
  "read_struct n unpack p =
     (case p of
        None \<Rightarrow> Inl NullDeref
      | Some d \<Rightarrow> if length d < n then Inl OutOfBounds else Inr (unpack d))"

definition process_response ::
  "'w callbacks \<Rightarrow> endian \<Rightarrow> alloc \<Rightarrow> bytes \<Rightarrow> u16 \<Rightarrow> u16 \<Rightarrow> bytes option \<Rightarrow> RaftNode \<times> 'w \<Rightarrow>
     fault + (RaftNode \<times> 'w)" where
  "process_response cb e al peer_id sent received response s =
     (if sent = RPC_CMD_RAFT_REQUEST_VOTE \<and> received = RPC_CMD_RAFT_REQUEST_VOTE_RESP
      then
        (case read_struct sizeof_RequestVoteResp (unpack_request_vote_resp e) response of
           Inl f \<Rightarrow> Inl f
         | Inr resp \<Rightarrow> Inr (raft_handle_request_vote_response cb al peer_id resp s))
      else if sent = RPC_CMD_RAFT_APPEND_ENTRIES \<and> received = RPC_CMD_RAFT_APPEND_ENTRIES_RESP
      then
        (case read_struct sizeof_AppendEntriesResp (unpack_append_entries_resp e) response of
           Inl f \<Rightarrow> Inl f
         | Inr resp \<Rightarrow> Inr (raft_handle_append_entries_response cb peer_id resp s))
      else Inr s)"

text \<open>
  The world of the callback is the kernel's state; a connection comes exactly with the return code 0 of
  \<^verbatim>\<open>tcp_client_connect\<close>. \<open>None\<close> is a send that never returns; the response
  handlers only use the persist callback of \<open>cb\<close>. \<open>mem\<close> answers the allocation of the response buffer.
\<close>

definition raft_send_rpc_callback ::
  "'k kernel \<Rightarrow> endian \<Rightarrow> 'k callbacks \<Rightarrow> bool \<Rightarrow> alloc \<Rightarrow> u64 \<Rightarrow> bytes \<Rightarrow> bytes \<Rightarrow> RaftNode \<times> 'k \<Rightarrow>
     (fault + (int \<times> RaftNode \<times> 'k)) option" where
  "raft_send_rpc_callback K e cb mem al now peer_id request = (\<lambda>(node, k).
     case find_peer node peer_id of
       None \<Rightarrow> Some (Inr (-1, node, k))
     | Some i \<Rightarrow>
         (case raft_cmd_type (length request) of
            None \<Rightarrow> Some (Inr (-1, node, k))
          | Some cmd_type \<Rightarrow>
              let peer = peers node ! i;
                  ((rc, conn), k) = tcp_client_connect K (peer_ip_address peer) (peer_port peer) k
              in (case conn of
                    None \<Rightarrow> Some (Inr (-1, node, k))
                  | Some conn \<Rightarrow>
                      let hdr = raft_rpc_header node cmd_type (length request) now
                      in (case rpc_send_message K e conn hdr (Some request) k of
                            None \<Rightarrow> None
                          | Some (rc, k) \<Rightarrow>
                              if rc \<noteq> 0 then Some (Inr (-1, node, snd (tcp_close K conn k)))
                              else
                                (case rpc_recv_message K e mem conn k of
                                   ((rc, Some hdr, response), k) \<Rightarrow>
                                     if rc \<noteq> 0 then Some (Inr (-1, node, snd (tcp_close K conn k)))
                                     else
                                       (case process_response cb e al peer_id cmd_type (command_type hdr)
                                               response (node, k) of
                                          Inl f \<Rightarrow> Some (Inl f)
                                        | Inr (node, k) \<Rightarrow> Some (Inr (0, node, snd (tcp_close K conn k))))
                                 | ((rc, None, response), k) \<Rightarrow>
                                     Some (Inr (-1, node, snd (tcp_close K conn k))))))))"

section \<open>Installing the callbacks\<close>

text \<open>
  The core's callbacks return no error, so the host's world is a kernel state or \<open>None\<close>: a callback did
  not return, or its behaviour is undefined. Allocation and clock are read off the kernel's state.
\<close>

record 'k host =
  host_kernel :: "'k kernel"
  host_endian :: endian
  host_mem :: "'k \<Rightarrow> bool"
  host_alloc :: "'k \<Rightarrow> alloc"
  host_clock :: "'k \<Rightarrow> u64"

definition lift_persist :: "(RaftNode \<Rightarrow> 'k \<Rightarrow> 'k) \<Rightarrow> 'k callbacks" where
  "lift_persist persist = \<lparr>cb_apply = None, cb_persist = Some persist, cb_send_rpc = None\<rparr>"

definition installed_send_rpc ::
  "'k host \<Rightarrow> (RaftNode \<Rightarrow> 'k \<Rightarrow> 'k) \<Rightarrow> bytes \<Rightarrow> raft_request \<Rightarrow> RaftNode \<times> 'k option \<Rightarrow> RaftNode \<times> 'k option" where
  "installed_send_rpc H persist peer_id req = (\<lambda>(node, w).
     case w of
       None \<Rightarrow> (node, None)
     | Some k \<Rightarrow>
         (case raft_send_rpc_callback (host_kernel H) (host_endian H) (lift_persist persist) (host_mem H k)
                 (host_alloc H k) (host_clock H k) peer_id (request_image (host_endian H) req) (node, k) of
            Some (Inr (rc, node, k)) \<Rightarrow> (node, Some k)
          | _ \<Rightarrow> (node, None)))"

text \<open>The transport with a persist callback that gets the node it expects.\<close>

definition rpc_callbacks ::
  "'k host \<Rightarrow> (bytes \<Rightarrow> 'k \<Rightarrow> 'k) \<Rightarrow> (RaftNode \<Rightarrow> 'k \<Rightarrow> 'k) \<Rightarrow> 'k option callbacks" where
  "rpc_callbacks H app persist =
     \<lparr>cb_apply = Some (\<lambda>data. map_option (app data)),
      cb_persist = Some (\<lambda>node. map_option (persist node)),
      cb_send_rpc = Some (installed_send_rpc H persist)\<rparr>"

text \<open>
  \<^verbatim>\<open>raft_rpc_init\<close> makes the \<^verbatim>\<open>RaftRpcContext\<close>, a block of one pointer, the context of all
  callbacks, and installs \<^verbatim>\<open>raft_persist_state\<close>, which takes its context for a \<^verbatim>\<open>RaftNode\<close> and reads
  the node's fields behind the end of that block: reading \<^verbatim>\<open>sizeof(RaftNode)\<close> bytes off 8.
\<close>

definition sizeof_RaftRpcContext :: nat where "sizeof_RaftRpcContext = 8"

text \<open>The first field \<^verbatim>\<open>raft_persist_state\<close> reads is \<^verbatim>\<open>node_id\<close>, 37 bytes at offset 0.\<close>

definition persist_of_context :: "nat \<Rightarrow> (RaftNode \<Rightarrow> 'k \<Rightarrow> 'k) \<Rightarrow> RaftNode \<Rightarrow> 'k option \<Rightarrow> 'k option" where
  "persist_of_context block persist node w =
     (if block < 37 then None else map_option (persist node) w)"

definition raft_rpc_init ::
  "'k host \<Rightarrow> (RaftNode \<Rightarrow> 'k \<Rightarrow> 'k) \<Rightarrow> bool \<Rightarrow> 'k option callbacks \<Rightarrow> 'k option callbacks option" where
  "raft_rpc_init H persist calloc_ok cb =
     (if \<not> calloc_ok then None
      else Some (cb\<lparr>cb_send_rpc := Some (installed_send_rpc H persist),
                    cb_persist := Some (persist_of_context sizeof_RaftRpcContext persist)\<rparr>))"

section \<open>Receiving\<close>

text \<open>
  The payload is the buffer behind the pointer. The parsing of entries is missing in the source: the pointer
  stays NULL whatever the count says. The response is dropped.
\<close>

definition raft_handle_incoming_rpc ::
  "'w callbacks \<Rightarrow> endian \<Rightarrow> (nat \<Rightarrow> alloc) \<Rightarrow> u64 \<Rightarrow> RpcHeader option \<Rightarrow> bytes option \<Rightarrow> RaftNode \<times> 'w \<Rightarrow>
     fault + (RaftNode \<times> 'w)" where
  "raft_handle_incoming_rpc cb e al now header payload s =
     (case (header, payload) of
        (Some h, Some p) \<Rightarrow>
          if command_type h = RPC_CMD_RAFT_REQUEST_VOTE
          then
            (case read_struct sizeof_RequestVoteReq (unpack_request_vote_req e) (Some p) of
               Inl f \<Rightarrow> Inl f
             | Inr req \<Rightarrow> Inr (snd (raft_handle_request_vote cb now req s)))
          else if command_type h = RPC_CMD_RAFT_APPEND_ENTRIES
          then
            (case read_struct sizeof_AppendEntriesReq (unpack_append_entries_req e) (Some p) of
               Inl f \<Rightarrow> Inl f
             | Inr req \<Rightarrow>
                 (case raft_handle_append_entries cb al now req None (ae_entry_count req) s of
                    Inl f \<Rightarrow> Inl f
                  | Inr (resp, s) \<Rightarrow> Inr s))
          else Inr s
      | _ \<Rightarrow> Inr s)"

section \<open>The example state machine\<close>

record KvCommand =
  kc_key :: bytes
  kc_value :: bytes
  kc_value_len :: u64

definition sizeof_KvCommand :: nat where "sizeof_KvCommand = 64 + 256 + 8"

definition kv_command_image :: "endian \<Rightarrow> KvCommand \<Rightarrow> bytes" where
  "kv_command_image e c = take 64 (kc_key c) @ take 256 (kc_value c) @ host_bytes e 8 (kc_value_len c)"

definition kv_apply_callback :: "bytes \<Rightarrow> int" where
  "kv_apply_callback data = (if length data < sizeof_KvCommand then -1 else 0)"

fun add_peers :: "(nat \<Rightarrow> alloc) \<Rightarrow> nat \<Rightarrow> (bytes \<times> bytes \<times> u16) list \<Rightarrow> RaftNode \<Rightarrow> RaftNode" where
  "add_peers al i [] node = node"
| "add_peers al i ((peer_id, ip, port) # ps) node =
     add_peers al (i + 1) ps (snd (raft_add_peer (al i) node peer_id ip port))"

text \<open>
  The whole start-up: the node, its peers, the callbacks, the state found on disk, the timer. The state
  machine's callback only logs.
\<close>

definition example_raft_init ::
  "'k host \<Rightarrow> (RaftNode \<Rightarrow> 'k \<Rightarrow> 'k) \<Rightarrow> bool \<Rightarrow> bool \<Rightarrow> nat \<Rightarrow> (nat \<Rightarrow> alloc) \<Rightarrow> (nat \<Rightarrow> alloc) \<Rightarrow> (nat \<Rightarrow> bool) \<Rightarrow>
     open_result \<Rightarrow> u64 \<Rightarrow> bytes \<Rightarrow> (bytes \<times> bytes \<times> u16) list \<Rightarrow> fault + (RaftNode \<times> 'k option callbacks) option" where
  "example_raft_init H persist calloc_ok ctx_ok rnd peer_mem mem buf_mem opened now id_arg peer_args =
     (case raft_init calloc_ok rnd id_arg of
        None \<Rightarrow> Inr None
      | Some node \<Rightarrow>
          let node = add_peers peer_mem 0 peer_args node
          in (case raft_rpc_init H persist ctx_ok \<lparr>cb_apply = Some (\<lambda>_ w. w), cb_persist = None, cb_send_rpc = None\<rparr> of
                None \<Rightarrow> Inr None
              | Some cb \<Rightarrow>
                  (case raft_restore_state (host_endian H) mem buf_mem opened (Some node) of
                     Inl f \<Rightarrow> Inl f
                   | Inr (rc, None) \<Rightarrow> Inr None
                   | Inr (rc, Some node) \<Rightarrow> Inr (Some (snd (raft_start now node), cb)))))"

text \<open>\<open>stack\<close> is what the uninitialised \<^verbatim>\<open>KvCommand\<close> on the stack holds; the value is copied unchecked.\<close>

definition example_submit_write ::
  "endian \<Rightarrow> 'w callbacks \<Rightarrow> alloc \<Rightarrow> KvCommand \<Rightarrow> bytes \<Rightarrow> bytes \<Rightarrow> RaftNode \<times> 'w \<Rightarrow> fault + (int \<times> RaftNode \<times> 'w)" where
  "example_submit_write e cb al stack key val s =
     (if \<not> raft_is_leader (fst s) then Inr (-1, s)
      else if length val > 256 then Inl OutOfBounds
      else
        let cmd = stack\<lparr>kc_key := strncpy (kc_key stack) key 63,
                        kc_value := val @ drop (length val) (kc_value stack),
                        kc_value_len := of_nat (length val)\<rparr>
        in Inr (raft_submit cb al (kv_command_image e cmd) s))"

text \<open>\<open>read\<close> is what reading the expiration count off the timer does to the world.\<close>

definition example_raft_tick_handler ::
  "'w callbacks \<Rightarrow> ('w \<Rightarrow> 'w) \<Rightarrow> u64 \<Rightarrow> u64 \<Rightarrow> nat \<Rightarrow> RaftNode \<times> 'w \<Rightarrow> (RaftNode \<times> 'w) option" where
  "example_raft_tick_handler cb read now now' rnd = (\<lambda>(node, w). raft_tick cb now now' rnd (node, read w))"

section \<open>The codecs between any two hosts\<close>

definition wf_vote_req :: "RaftRequestVoteReq \<Rightarrow> bool" where
  "wf_vote_req r \<longleftrightarrow> length (rv_candidate_id r) = 37"

definition wf_entries_req :: "RaftAppendEntriesReq \<Rightarrow> bool" where
  "wf_entries_req r \<longleftrightarrow> length (ae_leader_id r) = 37"

interpretation vote_req: fixed_codec "pack_request_vote_req e" "unpack_request_vote_req d" sizeof_RequestVoteReq wf_vote_req
  for e d
proof
  fix bs :: bytes
  assume len: "length bs = sizeof_RequestVoteReq"
  have "pack_request_vote_req e (unpack_request_vote_req d bs) =
      field_at 0 8 bs @ field_at 8 37 bs @ field_at 45 8 bs @ field_at 53 8 bs"
    using len by (simp add: raft_codec_defs raft_sizes codec_simps)
  then show "pack_request_vote_req e (unpack_request_vote_req d bs) = bs"
    using len by (simp add: field_at_glue field_at_whole raft_sizes flip: append_assoc)
qed (simp_all add: raft_codec_defs raft_sizes wf_vote_req_def codec_simps field_simps_at)

interpretation vote_resp: fixed_codec "pack_request_vote_resp e" "unpack_request_vote_resp d"
    sizeof_RequestVoteResp "\<lambda>_. True"
  for e d
proof
  fix bs :: bytes
  assume len: "length bs = sizeof_RequestVoteResp"
  have "pack_request_vote_resp e (unpack_request_vote_resp d bs) = field_at 0 8 bs @ field_at 8 1 bs"
    using len by (simp add: raft_codec_defs raft_sizes codec_simps field_at_nth)
  then show "pack_request_vote_resp e (unpack_request_vote_resp d bs) = bs"
    using len by (simp add: field_at_glue field_at_whole raft_sizes flip: append_assoc)
qed (simp_all add: raft_codec_defs raft_sizes codec_simps field_simps_at nth_append)

interpretation entries_req: fixed_codec "pack_append_entries_req e" "unpack_append_entries_req d"
    sizeof_AppendEntriesReq wf_entries_req
  for e d
proof
  fix bs :: bytes
  assume len: "length bs = sizeof_AppendEntriesReq"
  have "pack_append_entries_req e (unpack_append_entries_req d bs) =
      field_at 0 8 bs @ field_at 8 37 bs @ field_at 45 8 bs @ field_at 53 8 bs @ field_at 61 8 bs @ field_at 69 4 bs"
    using len by (simp add: raft_codec_defs raft_sizes codec_simps)
  then show "pack_append_entries_req e (unpack_append_entries_req d bs) = bs"
    using len by (simp add: field_at_glue field_at_whole raft_sizes flip: append_assoc)
qed (simp_all add: raft_codec_defs raft_sizes wf_entries_req_def codec_simps field_simps_at)

interpretation entries_resp: fixed_codec "pack_append_entries_resp e" "unpack_append_entries_resp d"
    sizeof_AppendEntriesResp "\<lambda>_. True"
  for e d
proof
  fix bs :: bytes
  assume len: "length bs = sizeof_AppendEntriesResp"
  have "pack_append_entries_resp e (unpack_append_entries_resp d bs) = field_at 0 8 bs @ field_at 8 1 bs @ field_at 9 8 bs"
    using len by (simp add: raft_codec_defs raft_sizes codec_simps field_at_nth)
  then show "pack_append_entries_resp e (unpack_append_entries_resp d bs) = bs"
    using len by (simp add: field_at_glue field_at_whole raft_sizes flip: append_assoc)
qed (simp_all add: raft_codec_defs raft_sizes codec_simps field_simps_at field_at_Cons nth_append)

text \<open>The four Raft messages survive packing on one host and unpacking on another, whatever the byte
  orders of the two, and every buffer of the right size is the image of the message read from it.\<close>

lemma raft_messages_roundtrip:
  assumes "wf_vote_req rv" and "wf_entries_req ae"
  shows "unpack_request_vote_req d (pack_request_vote_req e rv) = rv \<and>
    unpack_request_vote_resp d (pack_request_vote_resp e rvr) = rvr \<and>
    unpack_append_entries_req d (pack_append_entries_req e ae) = ae \<and>
    unpack_append_entries_resp d (pack_append_entries_resp e aer) = aer \<and>
    (length bs = sizeof_AppendEntriesReq \<longrightarrow> pack_append_entries_req e (unpack_append_entries_req d bs) = bs) \<and>
    (length bs = sizeof_RequestVoteReq \<longrightarrow> pack_request_vote_req e (unpack_request_vote_req d bs) = bs)"
  using vote_req.unpack_pack [OF assms(1)] vote_resp.unpack_pack entries_req.unpack_pack [OF assms(2)]
    entries_resp.unpack_pack entries_req.pack_unpack vote_req.pack_unpack by simp

definition vote_request :: "u64 \<Rightarrow> RaftRequestVoteReq" where
  "vote_request t = \<lparr>rv_term = t, rv_candidate_id = 65 # zeros 36, rv_last_log_index = 9, rv_last_log_term = 9\<rparr>"

definition entries_request :: "u64 \<Rightarrow> u32 \<Rightarrow> RaftAppendEntriesReq" where
  "entries_request t n =
     \<lparr>ae_term = t, ae_leader_id = 65 # zeros 36, ae_prev_log_index = 0, ae_prev_log_term = 0,
      ae_leader_commit = 0, ae_entry_count = n\<rparr>"

lemma sample_requests_wf: "wf_vote_req (vote_request t)" "wf_entries_req (entries_request t n)"
  by (simp_all add: wf_vote_req_def vote_request_def wf_entries_req_def entries_request_def)

section \<open>The transport keeps nodes well-formed\<close>

lemma process_response_keeps:
  assumes "m < 2 ^ 64" and "process_response cb e al peer_id c r response (node, w) = Inr (node', w')"
  shows "keeps m node node'"
proof -
  have "keeps m node (fst (raft_handle_request_vote_response cb al peer_id resp (node, w)))" for resp
    by (rule keeps_request_vote_response [OF assms(1)])
  moreover have "keeps m node (fst (raft_handle_append_entries_response cb peer_id resp (node, w)))" for resp
    by (rule keeps_append_entries_response)
  ultimately show ?thesis
    using assms(2) by (auto simp: process_response_def split: if_splits sum.splits) (metis fst_conv)+
qed

lemma raft_send_rpc_callback_keeps:
  assumes "m < 2 ^ 64" and "raft_send_rpc_callback K e cb mem al now peer_id request (node, k) = Some (Inr (rc, node', k'))"
  shows "keeps m node node'"
  using assms(2) process_response_keeps [OF assms(1)]
  by (auto simp: raft_send_rpc_callback_def Let_def split: option.splits prod.splits if_splits sum.splits)

interpretation rpc_transport: keeping_transport "rpc_callbacks H app persist" "2 ^ 64 - 2"
  for H app persist
proof
  fix send node peer_id req w
  assume "cb_send_rpc (rpc_callbacks H app persist) = Some send"
  then have send: "send = installed_send_rpc H persist"
    by (simp add: rpc_callbacks_def)
  have "(2 :: nat) ^ 64 - 2 < 2 ^ 64" by simp
  then show "keeps (2 ^ 64 - 2) node (fst (send peer_id req (node, w)))"
    unfolding send installed_send_rpc_def
    by (auto split: option.split sum.split simp del: power_numeral dest!: raft_send_rpc_callback_keeps [rotated])
qed (auto intro: keeps_trans)


definition silent_host :: "demo_state host" where
  "silent_host =
     \<lparr>host_kernel = demo_kernel True, host_endian = Little, host_mem = (\<lambda>_. True),
      host_alloc = (\<lambda>_. memory_available), host_clock = (\<lambda>_. 7)\<rparr>"


section \<open>Requests leave in the sender's byte order\<close>

lemma request_term_read:
  assumes "wf_vote_req r"
  shows "rv_term (unpack_request_vote_req d (request_image e (RequestVote r))) = htobe64 e (rv_term r)"
proof -
  have "rv_term (unpack_request_vote_req d (request_image e (RequestVote r))) = of_be (host_bytes e 8 (rv_term r))"
    using assms by (simp add: unpack_request_vote_req_def wf_vote_req_def field_simps_at codec_simps)
  then show ?thesis
    by (cases e) (simp_all add: host_bytes_def swap_net_def codec_simps)
qed

text \<open>C28: The requests are sent as they lie in memory but read as network order. On little endian hosts a
  candidate of term 1 makes the peer that gets its request believe in term \<open>2^56\<close>.\<close>

theorem request_term_swapped:
  assumes "wf_vote_req r" and "rv_term r = 1" and "command_type h = RPC_CMD_RAFT_REQUEST_VOTE"
    and "current_term node < 2 ^ 56"
  shows "\<exists>node' w'. raft_handle_incoming_rpc cb Little al now (Some h) (Some (request_image Little (RequestVote r)))
      (node, w) = Inr (node', w') \<and> current_term node' = 2 ^ 56"
proof -
  let ?req = "unpack_request_vote_req Little (request_image Little (RequestVote r))"
  have "htobe64 Little 1 = 2 ^ 56"
    by code_simp
  then have t: "rv_term ?req = 2 ^ 56"
    using request_term_read [OF assms(1)] assms(2) by simp
  have "read_struct sizeof_RequestVoteReq (unpack_request_vote_req Little)
      (Some (request_image Little (RequestVote r))) = Inr ?req"
    using assms(1) by (simp add: read_struct_def raft_sizes wf_vote_req_def)
  moreover obtain w' where "snd (raft_handle_request_vote cb now ?req (node, w)) = (after_vote_request now ?req node, w')"
    using request_vote_run [of cb now ?req node w] by auto
  moreover have "current_term (after_vote_request now ?req node) = 2 ^ 56"
    using assms(4) by (simp only: after_vote_request_term t max_def less_imp_le if_True)
  ultimately show ?thesis
    using assms(3) by (simp add: raft_handle_incoming_rpc_def del: request_image.simps)
qed

theorem request_term_swapped_witness:
  "\<exists>node' w'. raft_handle_incoming_rpc no_callbacks Little (\<lambda>_. memory_available) 9
      (Some (sample_header\<lparr>command_type := RPC_CMD_RAFT_REQUEST_VOTE\<rparr>))
      (Some (request_image Little (RequestVote (vote_request 1)))) (sample_node 0 [], ()) = Inr (node', w') \<and>
     current_term node' = 2 ^ 56"
  by (rule request_term_swapped [OF sample_requests_wf(1)]) (simp_all add: vote_request_def)

text \<open>C29: An accepted request that announces entries makes the receiver follow a NULL pointer: the entries
  are never read off the payload.\<close>

theorem incoming_entries_fault:
  assumes "wf_entries_req r" and "command_type h = RPC_CMD_RAFT_APPEND_ENTRIES" and "ae_entry_count r > 0"
    and "current_term node \<le> ae_term r" and "ae_prev_log_index r = 0"
  shows "raft_handle_incoming_rpc cb e al now (Some h) (Some (pack_append_entries_req d r @ entries)) (node, w) =
    Inl NullDeref"
proof -
  have "unpack_append_entries_req e (pack_append_entries_req d r @ entries) = r"
    using assms(1) by (simp add: raft_codec_defs wf_entries_req_def codec_simps field_simps_at)
  moreover have "length (pack_append_entries_req d r) = sizeof_AppendEntriesReq"
    by (rule entries_req.pack_length [OF assms(1)])
  ultimately have read: "read_struct sizeof_AppendEntriesReq (unpack_append_entries_req e)
      (Some (pack_append_entries_req d r @ entries)) = Inr r"
    by (simp add: read_struct_def)
  obtain n where "unat (ae_entry_count r) = Suc n"
    using assms(3) by (metis gr0_implies_Suc unat_gt_0 word_greater_zero_iff)
  then have "append_loop al None 0 (unat (ae_entry_count r)) n' = Inl NullDeref" for n'
    by simp
  then have "raft_handle_append_entries cb al now r None (ae_entry_count r) (node, w) = Inl NullDeref"
    using assms(4,5) by (auto simp: raft_handle_append_entries_def become_follower_def Let_def)
  then show ?thesis
    using assms(2) read by (simp add: raft_handle_incoming_rpc_def raft_cmd_defs)
qed

theorem incoming_entries_fault_witness:
  "raft_handle_incoming_rpc no_callbacks Big (\<lambda>_. memory_available) 9
      (Some (sample_header\<lparr>command_type := RPC_CMD_RAFT_APPEND_ENTRIES\<rparr>))
      (Some (pack_append_entries_req Little (entries_request 4 1) @ [1, 2, 3])) (sample_node 3 [], ()) = Inl NullDeref"
  by (rule incoming_entries_fault [OF sample_requests_wf(2)]) (simp_all add: entries_request_def)

lemma apply_nothing:
  "cb_apply cb = None \<Longrightarrow> \<exists>node'. apply_committed_entries cb (node, w) = (node', w)"
proof (induction cb "(node, w)" arbitrary: node w rule: apply_committed_entries.induct)
  case (1 cb node w)
  then show ?case
    by (subst apply_committed_entries.simps) (auto simp: Let_def split: option.split)
qed

text \<open>With the callbacks that \<^verbatim>\<open>raft_rpc_init\<close> installs, the first election reads the
  node's state out of the small context block: the behaviour is undefined from the first persist on.\<close>

lemma installed_persist_undefined:
  assumes "raft_rpc_init H persist True \<lparr>cb_apply = None, cb_persist = None, cb_send_rpc = None\<rparr> = Some cb"
    and "state node \<noteq> RAFT_STATE_LEADER" and "now - last_heartbeat_ms node \<ge> election_timeout_ms node"
  shows "\<exists>node'. raft_tick cb now now' rnd (node, Some k) = Some (node', None)"
proof -
  have cb: "cb = \<lparr>cb_apply = None, cb_persist = Some (persist_of_context 8 persist),
      cb_send_rpc = Some (installed_send_rpc H persist)\<rparr>"
    using assms(1) by (simp add: raft_rpc_init_def sizeof_RaftRpcContext_def)
  have loop: "snd (fold (request_vote_from cb req) is (n, None)) = None" for req "is" n
    by (induction "is" arbitrary: n)
      (auto simp: request_vote_from_def send_rpc_def cb installed_send_rpc_def)
  have "snd (become_candidate cb now' rnd (node, Some k)) = None"
    by (simp add: become_candidate_def Let_def persist_state_def persist_of_context_def loop) (simp add: cb persist_of_context_def loop [unfolded cb])
  then obtain n where n: "become_candidate cb now' rnd (node, Some k) = (n, None)"
    by (metis prod.collapse)
  show ?thesis
    using assms(2,3) n apply_nothing [of cb n None] by (simp add: raft_tick_def follower_candidate_tick_def cb)
qed

end
