(* ===== verification/Event_Loop.thy ===== *)
theory Event_Loop
  imports Prelude
begin

text \<open>
  The event loop, \<^verbatim>\<open>src/common/event_loop.c\<close>: a hash table of the registered descriptors, chained by the
  low bits of a multiplicative hash, and the loop that hands the events of \<^verbatim>\<open>epoll_wait\<close> to callbacks.

  \<^item> A \<^verbatim>\<open>FileContext\<close> carries the address it was allocated at, since that address is what the kernel gives
    back with an event. Every allocated context is in the table, so an address is live when the table has
    it. A chain is the list of its contexts.
  \<^item> Callback and context pointer together are a value of type \<open>'c\<close>; NULL callbacks are \<open>None\<close>. The loop
    itself is not NULL.
  \<^item> The calls into the kernel are the fields of a record \<open>poller\<close> over its state \<open>'k\<close>.
\<close>

section \<open>Data\<close>

definition EVENT_READ :: u32 where "EVENT_READ = 1"
definition EVENT_WRITE :: u32 where "EVENT_WRITE = 2"
definition EVENT_ERROR :: u32 where "EVENT_ERROR = 4"
definition EPOLLIN :: u32 where "EPOLLIN = 1"
definition EPOLLOUT :: u32 where "EPOLLOUT = 4"
definition EPOLLERR :: u32 where "EPOLLERR = 8"
definition EPOLLHUP :: u32 where "EPOLLHUP = 16"
definition FD_HASH_SIZE :: nat where "FD_HASH_SIZE = 256"
definition FD_HASH_MASK :: u32 where "FD_HASH_MASK = 255"

lemmas event_defs = EVENT_READ_def EVENT_WRITE_def EVENT_ERROR_def EPOLLIN_def EPOLLOUT_def EPOLLERR_def EPOLLHUP_def

datatype wait_result = Ready "(nat \<times> u32) list" | WaitIntr | WaitError

record 'k poller =
  ep_create :: "'k \<Rightarrow> int \<times> 'k"
  ep_add :: "int \<Rightarrow> int \<Rightarrow> nat \<Rightarrow> u32 \<Rightarrow> 'k \<Rightarrow> bool \<times> 'k"
  ep_mod :: "int \<Rightarrow> int \<Rightarrow> nat \<Rightarrow> u32 \<Rightarrow> 'k \<Rightarrow> bool \<times> 'k"
  ep_del :: "int \<Rightarrow> int \<Rightarrow> 'k \<Rightarrow> bool \<times> 'k"
  ep_wait :: "int \<Rightarrow> int \<Rightarrow> 'k \<Rightarrow> wait_result \<times> 'k"
  ep_close :: "int \<Rightarrow> 'k \<Rightarrow> 'k"
  tm_create :: "'k \<Rightarrow> int \<times> 'k"
  tm_settime :: "int \<Rightarrow> nat \<Rightarrow> nat \<Rightarrow> 'k \<Rightarrow> bool \<times> 'k"

record 'c FileContext =
  fc_addr :: nat
  fc_fd :: int
  fc_callback :: 'c

record 'c EventLoop =
  epoll_fd :: int
  running :: bool
  max_events :: int
  fd_table :: "'c FileContext list list"

section \<open>The table of descriptors\<close>

definition fd_hash :: "int \<Rightarrow> nat" where
  "fd_hash fd = unat ((word_of_int fd * 2654435761 :: u32) AND FD_HASH_MASK)"

fun find_in_chain :: "int \<Rightarrow> 'c FileContext list \<Rightarrow> 'c FileContext option" where
  "find_in_chain fd [] = None"
| "find_in_chain fd (fc # chain) = (if fc_fd fc = fd then Some fc else find_in_chain fd chain)"

definition find_file_context :: "'c EventLoop \<Rightarrow> int \<Rightarrow> 'c FileContext option" where
  "find_file_context loop fd = find_in_chain fd (fd_table loop ! fd_hash fd)"

definition insert_file_context :: "'c EventLoop \<Rightarrow> 'c FileContext \<Rightarrow> int \<times> 'c EventLoop" where
  "insert_file_context loop fc =
     (if find_file_context loop (fc_fd fc) \<noteq> None then (-1, loop)
      else
        let hash = fd_hash (fc_fd fc)
        in (0, loop\<lparr>fd_table := (fd_table loop)[hash := fc # fd_table loop ! hash]\<rparr>))"

fun unlink :: "int \<Rightarrow> 'c FileContext list \<Rightarrow> 'c FileContext option \<times> 'c FileContext list" where
  "unlink fd [] = (None, [])"
| "unlink fd (fc # chain) =
     (if fc_fd fc = fd then (Some fc, chain)
      else let (r, chain') = unlink fd chain in (r, fc # chain'))"

definition remove_file_context :: "'c EventLoop \<Rightarrow> int \<Rightarrow> 'c FileContext option \<times> 'c EventLoop" where
  "remove_file_context loop fd =
     (let hash = fd_hash fd;
          (r, chain) = unlink fd (fd_table loop ! hash)
      in (r, loop\<lparr>fd_table := (fd_table loop)[hash := chain]\<rparr>))"

section \<open>Lifecycle and registration\<close>

text \<open>\<open>mem1\<close> and \<open>mem2\<close> answer the two allocations.\<close>

definition loop_create :: "'k poller \<Rightarrow> bool \<Rightarrow> bool \<Rightarrow> int \<Rightarrow> 'k \<Rightarrow> 'c EventLoop option \<times> 'k" where
  "loop_create P mem1 mem2 n k =
     (if \<not> mem1 then (None, k)
      else
        let (efd, k) = ep_create P k
        in if efd = -1 then (None, k)
           else if \<not> mem2 then (None, ep_close P efd k)
           else (Some \<lparr>epoll_fd = efd, running = False, max_events = n,
                       fd_table = replicate FD_HASH_SIZE []\<rparr>, k))"

text \<open>All contexts leave epoll, chain by chain, and the epoll descriptor is closed.\<close>

definition loop_free :: "'k poller \<Rightarrow> 'c EventLoop \<Rightarrow> 'k \<Rightarrow> 'k" where
  "loop_free P loop k =
     (let k = fold (\<lambda>fc k. snd (ep_del P (epoll_fd loop) (fc_fd fc) k)) (concat (fd_table loop)) k
      in if epoll_fd loop \<ge> 0 then ep_close P (epoll_fd loop) k else k)"

definition loop_stop :: "'c EventLoop \<Rightarrow> 'c EventLoop" where
  "loop_stop loop = loop\<lparr>running := False\<rparr>"

definition epoll_mask :: "u32 \<Rightarrow> u32" where
  "epoll_mask events =
     (if events AND EVENT_READ \<noteq> 0 then EPOLLIN else 0) OR
     (if events AND EVENT_WRITE \<noteq> 0 then EPOLLOUT else 0)"

text \<open>\<open>addr\<close> is the address \<^verbatim>\<open>malloc\<close> returns, \<open>None\<close> for NULL.\<close>

definition loop_add_fd ::
  "'k poller \<Rightarrow> nat option \<Rightarrow> 'c EventLoop \<Rightarrow> int \<Rightarrow> u32 \<Rightarrow> 'c option \<Rightarrow> 'k \<Rightarrow> int \<times> 'c EventLoop \<times> 'k" where
  "loop_add_fd P addr loop fd events cb k =
     (case cb of
        None \<Rightarrow> (-1, loop, k)
      | Some c \<Rightarrow>
          if fd < 0 then (-1, loop, k)
          else
            (case addr of
               None \<Rightarrow> (-1, loop, k)
             | Some a \<Rightarrow>
                 let fc = \<lparr>fc_addr = a, fc_fd = fd, fc_callback = c\<rparr>;
                     (rc, loop) = insert_file_context loop fc
                 in if rc \<noteq> 0 then (-1, loop, k)
                    else
                      let (ok, k) = ep_add P (epoll_fd loop) fd a (epoll_mask events) k
                      in if \<not> ok then (-1, snd (remove_file_context loop fd), k)
                         else (0, loop, k)))"

definition update_context :: "int \<Rightarrow> 'c \<Rightarrow> 'c EventLoop \<Rightarrow> 'c EventLoop" where
  "update_context fd c loop =
     (let hash = fd_hash fd
      in loop\<lparr>fd_table := (fd_table loop)[hash :=
           map (\<lambda>fc. if fc_fd fc = fd then fc\<lparr>fc_callback := c\<rparr> else fc) (fd_table loop ! hash)]\<rparr>)"

definition loop_mod_fd ::
  "'k poller \<Rightarrow> 'c EventLoop \<Rightarrow> int \<Rightarrow> u32 \<Rightarrow> 'c option \<Rightarrow> 'k \<Rightarrow> int \<times> 'c EventLoop \<times> 'k" where
  "loop_mod_fd P loop fd events cb k =
     (case cb of
        None \<Rightarrow> (-1, loop, k)
      | Some c \<Rightarrow>
          if fd < 0 then (-1, loop, k)
          else
            (case find_file_context loop fd of
               None \<Rightarrow> (-1, loop, k)
             | Some fc \<Rightarrow>
                 let loop = update_context fd c loop;
                     (ok, k) = ep_mod P (epoll_fd loop) fd (fc_addr fc) (epoll_mask events) k
                 in if \<not> ok then (-1, loop, k) else (0, loop, k)))"

definition loop_del_fd :: "'k poller \<Rightarrow> 'c EventLoop \<Rightarrow> int \<Rightarrow> 'k \<Rightarrow> int \<times> 'c EventLoop \<times> 'k" where
  "loop_del_fd P loop fd k =
     (if fd < 0 then (-1, loop, k)
      else
        (case remove_file_context loop fd of
           (None, loop) \<Rightarrow> (-1, loop, k)
         | (Some fc, loop) \<Rightarrow> (0, loop, snd (ep_del P (epoll_fd loop) fd k))))"

definition loop_add_timer ::
  "'k poller \<Rightarrow> nat option \<Rightarrow> 'c EventLoop \<Rightarrow> u32 \<Rightarrow> 'c option \<Rightarrow> 'k \<Rightarrow> int \<times> 'c EventLoop \<times> 'k" where
  "loop_add_timer P addr loop interval_ms cb k =
     (if cb = None then (-1, loop, k)
      else
        let (tfd, k) = tm_create P k
        in if tfd = -1 then (-1, loop, k)
           else
             let (ok, k) = tm_settime P tfd (unat interval_ms div 1000) (unat interval_ms mod 1000 * 1000000) k
             in if \<not> ok then (-1, loop, ep_close P tfd k)
                else
                  let (rc, loop, k) = loop_add_fd P addr loop tfd EVENT_READ cb k
                  in if rc \<noteq> 0 then (-1, loop, ep_close P tfd k) else (tfd, loop, k))"

text \<open>Closes every registered descriptor that is not excluded; the table stays as it is.\<close>

definition loop_emergency_close_all :: "'k poller \<Rightarrow> 'c EventLoop \<Rightarrow> int list \<Rightarrow> 'k \<Rightarrow> nat \<times> 'k" where
  "loop_emergency_close_all P loop exclude k =
     fold (\<lambda>fc (n, k). if fc_fd fc \<notin> set exclude \<and> fc_fd fc \<ge> 0 then (n + 1, ep_close P (fc_fd fc) k) else (n, k))
       (concat (fd_table loop)) (0, k)"

section \<open>Running\<close>

definition translate_events :: "u32 \<Rightarrow> u32" where
  "translate_events ev =
     (if ev AND EPOLLIN \<noteq> 0 then EVENT_READ else 0) OR
     (if ev AND EPOLLOUT \<noteq> 0 then EVENT_WRITE else 0) OR
     (if ev AND (EPOLLERR OR EPOLLHUP) \<noteq> 0 then EVENT_ERROR else 0)"

definition context_at :: "'c EventLoop \<Rightarrow> nat \<Rightarrow> 'c FileContext option" where
  "context_at loop a = find (\<lambda>fc. fc_addr fc = a) (concat (fd_table loop))"

text \<open>
  A callback gets its context pointer, descriptor and events, and changes the loop and the rest \<open>'s\<close> of the
  program's world; \<open>None\<close> when it does not return. The address 0 is NULL.
\<close>

type_synonym ('c, 's) handler =
  "'c \<Rightarrow> int \<Rightarrow> u32 \<Rightarrow> 'c EventLoop \<times> 's \<Rightarrow> (fault + 'c EventLoop \<times> 's) option"

fun run_batch :: "('c, 's) handler \<Rightarrow> (nat \<times> u32) list \<Rightarrow> 'c EventLoop \<times> 's \<Rightarrow> (fault + 'c EventLoop \<times> 's) option" where
  "run_batch handle [] st = Some (Inr st)"
| "run_batch handle ((ptr, ev) # evs) st =
     (if ptr = 0 then run_batch handle evs st
      else
        (case context_at (fst st) ptr of
           None \<Rightarrow> Some (Inl UseAfterFree)
         | Some fc \<Rightarrow>
             (case handle (fc_callback fc) (fc_fd fc) (translate_events ev) st of
                None \<Rightarrow> None
              | Some (Inl f) \<Rightarrow> Some (Inl f)
              | Some (Inr st) \<Rightarrow> run_batch handle evs st)))"

text \<open>
  The loop after \<^verbatim>\<open>running\<close> was set. \<open>signalled\<close> tells whether a signal handler has called
  \<^verbatim>\<open>loop_stop\<close> by the time \<^verbatim>\<open>running\<close> is read; the kernel's state is part of the world.
\<close>

partial_function (option) loop_iterate ::
  "'s poller \<Rightarrow> ('s \<Rightarrow> bool) \<Rightarrow> ('c, 's) handler \<Rightarrow> 'c EventLoop \<times> 's \<Rightarrow> (fault + 'c EventLoop \<times> 's) option" where
  "loop_iterate poll signalled handle st =
     (let loop = (if signalled (snd st) then loop_stop (fst st) else fst st)
      in if \<not> running loop then Some (Inr (loop, snd st))
         else
           (case ep_wait poll (epoll_fd loop) (max_events loop) (snd st) of
              (WaitIntr, s) \<Rightarrow> loop_iterate poll signalled handle (loop, s)
            | (WaitError, s) \<Rightarrow> Some (Inr (loop, s))
            | (Ready evs, s) \<Rightarrow>
                Option.bind (run_batch handle evs (loop, s))
                  (\<lambda>r. case r of Inl f \<Rightarrow> Some (Inl f) | Inr st \<Rightarrow> loop_iterate poll signalled handle st)))"

definition loop_run ::
  "'s poller \<Rightarrow> ('s \<Rightarrow> bool) \<Rightarrow> ('c, 's) handler \<Rightarrow> 'c EventLoop \<times> 's \<Rightarrow> (fault + 'c EventLoop \<times> 's) option" where
  "loop_run P signalled handle st = loop_iterate P signalled handle ((fst st)\<lparr>running := True\<rparr>, snd st)"

section \<open>The hash\<close>

lemma fd_hash_mod: "fd_hash fd = nat (fd * 177 mod 256)"
proof -
  have m: "(255 :: u32) = mask 8"
    by (simp add: mask_eq_exp_minus_1)
  have w: "(word_of_int fd * 2654435761 :: u32) = word_of_int (fd * 2654435761)"
    by simp
  have "uint ((word_of_int fd * 2654435761 :: u32) AND 255) = take_bit 8 (take_bit 32 (fd * 2654435761))"
    unfolding m w by (simp only: unsigned_take_bit_eq uint_word_of_int_eq flip: take_bit_eq_mask) simp
  also have "\<dots> = fd * 2654435761 mod 256"
    by (simp add: take_bit_eq_mod mod_mod_cancel)
  also have "\<dots> = fd * 177 mod 256"
    using mod_mult_right_eq [of fd 2654435761 256] mod_mult_right_eq [of fd 177 256] by simp
  finally show ?thesis
    by (simp add: fd_hash_def FD_HASH_MASK_def flip: nat_uint_eq)
qed

lemma fd_hash_less: "fd_hash fd < 256"
  by (simp add: fd_hash_mod nat_less_iff)

text \<open>177 is odd, so it has an inverse modulo 256, which is 81.\<close>

lemma fd_hash_eq_iff: "fd_hash a = fd_hash b \<longleftrightarrow> a mod 256 = b mod 256"
proof
  assume "a mod 256 = b mod 256"
  then have "a * 177 mod 256 = b * 177 mod 256"
    by (rule mod_mult_cong) simp
  then show "fd_hash a = fd_hash b"
    by (simp add: fd_hash_mod)
next
  assume "fd_hash a = fd_hash b"
  then have eq: "a * 177 mod 256 = b * 177 mod 256"
    by (simp add: fd_hash_mod eq_nat_nat_iff)
  have inv: "x * 177 * 81 mod 256 = x mod 256" for x :: int
    using mod_mult_right_eq [of x "177 * 81" 256] by (simp add: mult.commute)
  have "a * 177 * 81 mod 256 = b * 177 * 81 mod 256"
    by (rule mod_mult_cong [OF eq]) simp
  then show "a mod 256 = b mod 256"
    by (simp only: inv)
qed

section \<open>The table is a map from descriptors\<close>

definition wf_loop :: "'c EventLoop \<Rightarrow> bool" where
  "wf_loop loop \<longleftrightarrow>
     length (fd_table loop) = FD_HASH_SIZE \<and>
     (\<forall>h < FD_HASH_SIZE. distinct (map fc_fd (fd_table loop ! h)) \<and>
        (\<forall>fc \<in> set (fd_table loop ! h). fd_hash (fc_fd fc) = h \<and> 0 \<le> fc_fd fc))"

definition registered :: "'c EventLoop \<Rightarrow> int \<Rightarrow> (nat \<times> 'c) option" where
  "registered loop fd = map_option (\<lambda>fc. (fc_addr fc, fc_callback fc)) (find_file_context loop fd)"

lemma find_in_chain_Some: "find_in_chain fd chain = Some fc \<Longrightarrow> fc \<in> set chain \<and> fc_fd fc = fd"
  by (induction chain) (auto split: if_splits)

lemma find_in_chain_None: "find_in_chain fd chain = None \<longleftrightarrow> fd \<notin> fc_fd ` set chain"
  by (induction chain) auto

lemma find_in_chain_mem: "distinct (map fc_fd chain) \<Longrightarrow> fc \<in> set chain \<Longrightarrow> find_in_chain (fc_fd fc) chain = Some fc"
  by (induction chain) (auto simp: image_iff)

lemma fst_unlink: "fst (unlink fd chain) = find_in_chain fd chain"
  by (induction chain) (auto split: prod.split)

lemma find_unlink:
  "distinct (map fc_fd chain) \<Longrightarrow>
     find_in_chain fd' (snd (unlink fd chain)) = (if fd' = fd then None else find_in_chain fd' chain)"
  by (induction chain) (auto simp: find_in_chain_None split: prod.split)

lemma set_unlink: "set (snd (unlink fd chain)) \<subseteq> set chain"
  by (induction chain) (auto split: prod.split)

lemma distinct_unlink: "distinct (map fc_fd chain) \<Longrightarrow> distinct (map fc_fd (snd (unlink fd chain)))"
proof (induction chain)
  case (Cons fc chain)
  then show ?case
    using set_unlink [of fd chain] by (auto split: prod.split)
qed simp

lemma find_map_update:
  "find_in_chain fd' (map (\<lambda>fc. if fc_fd fc = fd then fc\<lparr>fc_callback := c\<rparr> else fc) chain) =
     (if fd' = fd then map_option (\<lambda>fc. fc\<lparr>fc_callback := c\<rparr>) (find_in_chain fd chain) else find_in_chain fd' chain)"
  by (induction chain) auto

text \<open>Replacing one chain.\<close>

lemma find_with_chain:
  assumes "wf_loop loop"
  shows "find_file_context (loop\<lparr>fd_table := (fd_table loop)[fd_hash fd := chain]\<rparr>) fd' =
    (if fd_hash fd' = fd_hash fd then find_in_chain fd' chain else find_file_context loop fd')"
  using assms fd_hash_less [of fd'] by (simp add: find_file_context_def wf_loop_def FD_HASH_SIZE_def nth_list_update)

lemma wf_with_chain:
  assumes "wf_loop loop" and "distinct (map fc_fd chain)" and "\<And>fc. fc \<in> set chain \<Longrightarrow> fd_hash (fc_fd fc) = fd_hash fd \<and> 0 \<le> fc_fd fc"
  shows "wf_loop (loop\<lparr>fd_table := (fd_table loop)[fd_hash fd := chain]\<rparr>)"
  using assms fd_hash_less [of fd] by (simp add: wf_loop_def nth_list_update FD_HASH_SIZE_def)

lemma wf_chain:
  assumes "wf_loop loop"
  shows "distinct (map fc_fd (fd_table loop ! fd_hash fd))"
    and "fc \<in> set (fd_table loop ! fd_hash fd) \<Longrightarrow> fd_hash (fc_fd fc) = fd_hash fd \<and> 0 \<le> fc_fd fc"
  using assms fd_hash_less [of fd] by (auto simp: wf_loop_def FD_HASH_SIZE_def)

lemma insert_file_context_ok:
  assumes "wf_loop loop" and "find_file_context loop (fc_fd fc) = None" and "0 \<le> fc_fd fc"
  shows "\<exists>loop'. insert_file_context loop fc = (0, loop') \<and> wf_loop loop' \<and>
    registered loop' = (registered loop)(fc_fd fc \<mapsto> (fc_addr fc, fc_callback fc))"
proof -
  let ?loop = "loop\<lparr>fd_table := (fd_table loop)[fd_hash (fc_fd fc) := fc # fd_table loop ! fd_hash (fc_fd fc)]\<rparr>"
  have "wf_loop ?loop"
    using assms(2,3) wf_chain [OF assms(1)]
    by (intro wf_with_chain [OF assms(1)]) (auto simp: find_file_context_def find_in_chain_None)
  moreover have "registered ?loop = (registered loop)(fc_fd fc \<mapsto> (fc_addr fc, fc_callback fc))"
    by (rule ext) (simp add: registered_def find_with_chain [OF assms(1)], simp add: find_file_context_def)
  ultimately show ?thesis
    using assms(2) by (simp add: insert_file_context_def Let_def)
qed

lemma remove_file_context_ok:
  assumes "wf_loop loop"
  shows "fst (remove_file_context loop fd) = find_file_context loop fd"
    and "wf_loop (snd (remove_file_context loop fd))"
    and "registered (snd (remove_file_context loop fd)) = (registered loop)(fd := None)"
proof -
  let ?chain = "snd (unlink fd (fd_table loop ! fd_hash fd))"
  have rm: "remove_file_context loop fd =
      (find_file_context loop fd, loop\<lparr>fd_table := (fd_table loop)[fd_hash fd := ?chain]\<rparr>)"
    by (simp add: remove_file_context_def find_file_context_def split_beta Let_def fst_unlink)
  show "fst (remove_file_context loop fd) = find_file_context loop fd"
    by (simp add: rm)
  show "wf_loop (snd (remove_file_context loop fd))"
    unfolding rm snd_conv
    using set_unlink [of fd "fd_table loop ! fd_hash fd"] wf_chain(2) [OF assms]
    by (intro wf_with_chain [OF assms] distinct_unlink wf_chain(1) [OF assms]) blast
  show "registered (snd (remove_file_context loop fd)) = (registered loop)(fd := None)"
    using wf_chain(1) [OF assms]
    by (intro ext) (simp add: rm registered_def find_with_chain [OF assms] find_unlink, simp add: find_file_context_def)
qed

lemma update_context_ok:
  assumes "wf_loop loop" and "registered loop fd = Some (a, c0)"
  shows "wf_loop (update_context fd c loop)" and "registered (update_context fd c loop) = (registered loop)(fd \<mapsto> (a, c))"
proof -
  let ?chain = "map (\<lambda>fc. if fc_fd fc = fd then fc\<lparr>fc_callback := c\<rparr> else fc) (fd_table loop ! fd_hash fd)"
  have fds: "map fc_fd ?chain = map fc_fd (fd_table loop ! fd_hash fd)"
    by simp
  have "fd_hash (fc_fd fc) = fd_hash fd \<and> 0 \<le> fc_fd fc" if "fc \<in> set ?chain" for fc
  proof -
    from that obtain fc0 where "fc0 \<in> set (fd_table loop ! fd_hash fd)" and "fc_fd fc = fc_fd fc0"
      by auto
    then show ?thesis
      using wf_chain(2) [OF assms(1), of fc0 fd] by simp
  qed
  then show "wf_loop (update_context fd c loop)"
    unfolding update_context_def Let_def
    by (intro wf_with_chain [OF assms(1)]) (simp_all only: fds wf_chain(1) [OF assms(1)])
  show "registered (update_context fd c loop) = (registered loop)(fd \<mapsto> (a, c))"
    using assms(2) unfolding update_context_def Let_def
    by (intro ext) (auto simp: registered_def find_with_chain [OF assms(1)] find_map_update, auto simp: find_file_context_def)
qed

lemma registered_nonneg: "wf_loop loop \<Longrightarrow> registered loop fd \<noteq> None \<Longrightarrow> 0 \<le> fd"
  using wf_chain(2) [of loop _ fd] by (auto simp: registered_def find_file_context_def dest!: find_in_chain_Some)

lemma contexts_registered:
  assumes "wf_loop loop"
  shows "fc \<in> set (concat (fd_table loop)) \<longleftrightarrow> registered loop (fc_fd fc) = Some (fc_addr fc, fc_callback fc)"
proof
  assume "fc \<in> set (concat (fd_table loop))"
  then obtain h where h: "h < length (fd_table loop)" and m: "fc \<in> set (fd_table loop ! h)"
    by (metis UN_E set_concat in_set_conv_nth)
  then have "fd_hash (fc_fd fc) = h" and "distinct (map fc_fd (fd_table loop ! h))"
    using assms by (auto simp: wf_loop_def)
  with m show "registered loop (fc_fd fc) = Some (fc_addr fc, fc_callback fc)"
    using find_in_chain_mem [of "fd_table loop ! h" fc] by (simp add: registered_def find_file_context_def)
next
  assume "registered loop (fc_fd fc) = Some (fc_addr fc, fc_callback fc)"
  then obtain fc' where "find_file_context loop (fc_fd fc) = Some fc'"
    and same: "fc_addr fc' = fc_addr fc" "fc_callback fc' = fc_callback fc"
    by (auto simp: registered_def)
  then have m: "fc' \<in> set (fd_table loop ! fd_hash (fc_fd fc))" and "fc_fd fc' = fc_fd fc"
    by (auto simp: find_file_context_def dest: find_in_chain_Some)
  then have "fc' = fc"
    using same by (intro FileContext.equality) simp_all
  moreover have "fd_hash (fc_fd fc) < length (fd_table loop)"
    using assms fd_hash_less [of "fc_fd fc"] by (simp add: wf_loop_def FD_HASH_SIZE_def)
  ultimately show "fc \<in> set (concat (fd_table loop))"
    using m by (auto intro!: bexI [of _ "fd_table loop ! fd_hash (fc_fd fc)"])
qed

section \<open>The contract of the registry\<close>

text \<open>The addresses in use, and that no two descriptors share one.\<close>

definition live :: "(int \<Rightarrow> (nat \<times> 'c) option) \<Rightarrow> nat set" where
  "live m = fst ` ran m"

definition unique :: "(int \<Rightarrow> (nat \<times> 'c) option) \<Rightarrow> bool" where
  "unique m \<longleftrightarrow> (\<forall>fd fd' a c c'. m fd = Some (a, c) \<longrightarrow> m fd' = Some (a, c') \<longrightarrow> fd = fd')"

lemma live_iff: "a \<in> live m \<longleftrightarrow> (\<exists>fd c. m fd = Some (a, c))"
  by (force simp: live_def ran_def)

lemma live_insert: "m fd = None \<Longrightarrow> live (m(fd \<mapsto> (a, c))) = insert a (live m)"
  by (simp add: live_def)

lemma live_modify:
  assumes "m fd = Some (a, c0)"
  shows "live (m(fd \<mapsto> (a, c))) = live m"
proof -
  have "fst ` ran (m(fd \<mapsto> (a, c))) = ran (map_option fst \<circ> m(fd \<mapsto> (a, c)))" "fst ` ran m = ran (map_option fst \<circ> m)"
    by (force simp: ran_def)+
  moreover have "map_option fst \<circ> m(fd \<mapsto> (a, c)) = map_option fst \<circ> m"
    using assms by auto
  ultimately show ?thesis by (simp add: live_def)
qed

lemma live_delete: "m fd = Some (a, c) \<Longrightarrow> live m - {a} \<subseteq> live (m(fd := None))"
  by (auto simp: live_iff) (metis option.inject prod.inject)

lemma unique_insert: "unique m \<Longrightarrow> a \<notin> live m \<Longrightarrow> unique (m(fd \<mapsto> (a, c)))"
  by (auto simp: unique_def live_iff)

lemma unique_modify: "unique m \<Longrightarrow> m fd = Some (a, c0) \<Longrightarrow> unique (m(fd \<mapsto> (a, c)))"
  by (simp add: unique_def) blast

lemma unique_delete: "unique m \<Longrightarrow> unique (m(fd := None))"
  by (auto simp: unique_def)

text \<open>
  What the program relies on when it registers, changes and removes descriptors: the loop behaves as a map from
  descriptors to the address and callback of their context, and a failed registration changes nothing.
\<close>

locale fd_registry =
  fixes inv :: "'l \<Rightarrow> bool"
    and reg :: "'l \<Rightarrow> int \<Rightarrow> (nat \<times> 'c) option"
    and add :: "nat option \<Rightarrow> 'l \<Rightarrow> int \<Rightarrow> u32 \<Rightarrow> 'c option \<Rightarrow> 'k \<Rightarrow> int \<times> 'l \<times> 'k"
    and modify :: "'l \<Rightarrow> int \<Rightarrow> u32 \<Rightarrow> 'c option \<Rightarrow> 'k \<Rightarrow> int \<times> 'l \<times> 'k"
    and del :: "'l \<Rightarrow> int \<Rightarrow> 'k \<Rightarrow> int \<times> 'l \<times> 'k"
  assumes add_law: "inv l \<Longrightarrow> add addr l fd ev cb k = (rc, l', k') \<Longrightarrow>
      inv l' \<and> (rc = 0 \<and> 0 \<le> fd \<and> reg l fd = None \<and>
                 (\<exists>a c. addr = Some a \<and> cb = Some c \<and> reg l' = (reg l)(fd \<mapsto> (a, c))) \<or>
               rc = -1 \<and> reg l' = reg l)"
    and modify_law: "inv l \<Longrightarrow> modify l fd ev cb k = (rc, l', k') \<Longrightarrow>
      inv l' \<and> (rc = 0 \<or> rc = -1) \<and>
      ((\<exists>a c0 c. cb = Some c \<and> reg l fd = Some (a, c0) \<and> reg l' = (reg l)(fd \<mapsto> (a, c))) \<or>
       rc = -1 \<and> reg l' = reg l)"
    and del_law: "inv l \<Longrightarrow> del l fd k = (rc, l', k') \<Longrightarrow>
      inv l' \<and> reg l' = (reg l)(fd := None) \<and> rc = (if reg l fd = None then -1 else 0)"
begin

lemma add_live:
  assumes "inv l" and "add addr l fd ev cb k = (rc, l', k')"
  shows "live (reg l) \<subseteq> live (reg l')"
  using add_law [OF assms] by (auto simp: live_insert)

lemma add_unique:
  assumes "inv l" and "add addr l fd ev cb k = (rc, l', k')" and "unique (reg l)"
    and "\<And>a. addr = Some a \<Longrightarrow> a \<notin> live (reg l)"
  shows "unique (reg l')"
  using add_law [OF assms(1,2)] assms(3,4) by (auto simp: unique_insert)

lemma modify_live:
  assumes "inv l" and "modify l fd ev cb k = (rc, l', k')"
  shows "live (reg l') = live (reg l)"
  using modify_law [OF assms] by (auto simp: live_modify)

lemma modify_unique:
  assumes "inv l" and "modify l fd ev cb k = (rc, l', k')" and "unique (reg l)"
  shows "unique (reg l')"
  using modify_law [OF assms(1,2)] assms(3) by (auto simp: unique_modify)

lemma del_live:
  assumes "inv l" and "del l fd k = (rc, l', k')" and "reg l fd = Some (a, c)"
  shows "live (reg l) - {a} \<subseteq> live (reg l')"
  using del_law [OF assms(1,2)] live_delete [of "reg l" fd, OF assms(3)] by simp

lemma del_unique:
  assumes "inv l" and "del l fd k = (rc, l', k')" and "unique (reg l)"
  shows "unique (reg l')"
  using del_law [OF assms(1,2)] assms(3) by (simp add: unique_delete)

lemma add_del:
  assumes "inv l" and "add addr l fd ev cb k = (0, l', k')" and "del l' fd k' = (rc, l'', k'')"
  shows "rc = 0 \<and> reg l'' = reg l"
  using add_law [OF assms(1,2)] del_law [OF _ assms(3)] by auto

end

interpretation registry: fd_registry wf_loop registered "loop_add_fd P" "loop_mod_fd P" "loop_del_fd P"
  for P
proof
  fix l l' :: "'c EventLoop" and addr fd ev cb k rc k'
  assume wf: "wf_loop l"
  show "wf_loop l' \<and> (rc = 0 \<and> 0 \<le> fd \<and> registered l fd = None \<and>
                 (\<exists>a c. addr = Some a \<and> cb = Some c \<and> registered l' = (registered l)(fd \<mapsto> (a, c))) \<or>
               rc = -1 \<and> registered l' = registered l)"
    if run: "loop_add_fd P addr l fd ev cb k = (rc, l', k')"
  proof (cases "cb = None \<or> fd < 0 \<or> addr = None \<or> find_file_context l fd \<noteq> None")
    case True
    then show ?thesis
      using run wf by (auto simp: loop_add_fd_def insert_file_context_def Let_def split: option.splits if_splits)
  next
    case False
    then obtain c a where c: "cb = Some c" "addr = Some a" "0 \<le> fd" "find_file_context l fd = None"
      by auto
    let ?fc = "\<lparr>fc_addr = a, fc_fd = fd, fc_callback = c\<rparr>"
    obtain l1 where ins: "insert_file_context l ?fc = (0, l1)" "wf_loop l1"
      and reg: "registered l1 = (registered l)(fd \<mapsto> (a, c))"
      using insert_file_context_ok [OF wf, of ?fc] c by auto
    have "registered l fd = None"
      using c(4) by (simp add: registered_def)
    then show ?thesis
      using run c ins reg remove_file_context_ok [OF ins(2), of fd]
      by (auto simp: loop_add_fd_def Let_def fun_upd_idem split: prod.splits if_splits)
  qed
  show "wf_loop l' \<and> (rc = 0 \<or> rc = -1) \<and>
      ((\<exists>a c0 c. cb = Some c \<and> registered l fd = Some (a, c0) \<and> registered l' = (registered l)(fd \<mapsto> (a, c))) \<or>
       rc = -1 \<and> registered l' = registered l)"
    if run: "loop_mod_fd P l fd ev cb k = (rc, l', k')"
  proof (cases "cb = None \<or> fd < 0 \<or> find_file_context l fd = None")
    case True
    then show ?thesis
      using run wf by (auto simp: loop_mod_fd_def split: option.splits)
  next
    case False
    then obtain c fc where c: "cb = Some c" "0 \<le> fd" "find_file_context l fd = Some fc"
      by auto
    then have r: "registered l fd = Some (fc_addr fc, fc_callback fc)"
      by (simp add: registered_def)
    show ?thesis
      using run c r update_context_ok [OF wf r, of c]
      by (auto simp: loop_mod_fd_def Let_def split: prod.splits if_splits)
  qed
  show "wf_loop l' \<and> registered l' = (registered l)(fd := None) \<and> rc = (if registered l fd = None then -1 else 0)"
    if run: "loop_del_fd P l fd k = (rc, l', k')"
  proof (cases "fd < 0")
    case True
    then have "registered l fd = None"
      using registered_nonneg [OF wf, of fd] by fastforce
    then show ?thesis
      using run wf True by (auto simp: loop_del_fd_def fun_upd_idem)
  next
    case False
    then show ?thesis
      using run remove_file_context_ok [OF wf, of fd]
      by (auto simp: loop_del_fd_def registered_def split: prod.splits option.splits)
  qed
qed

text \<open>C30: Registering, changing and removing descriptors act on the hash table as on a map from descriptors to
  contexts: a descriptor is registered at most once, a failed registration leaves no trace, also when epoll
  refuses it, and removing takes exactly one entry out.\<close>

theorem loop_refines_map:
  assumes "wf_loop l"
  shows "(case loop_add_fd P addr l fd ev cb k of (rc, l', k') \<Rightarrow>
      wf_loop l' \<and> (rc = 0 \<and> 0 \<le> fd \<and> registered l fd = None \<and>
          (\<exists>a c. addr = Some a \<and> cb = Some c \<and> registered l' = (registered l)(fd \<mapsto> (a, c))) \<or>
        rc = -1 \<and> registered l' = registered l)) \<and>
    (case loop_mod_fd P l fd ev (Some c) k of (rc, l', k') \<Rightarrow>
      wf_loop l' \<and> (registered l fd = None \<and> registered l' = registered l \<or>
        (\<exists>a c0. registered l fd = Some (a, c0) \<and> registered l' = (registered l)(fd \<mapsto> (a, c))))) \<and>
    (case loop_del_fd P l fd k of (rc, l', k') \<Rightarrow>
      wf_loop l' \<and> registered l' = (registered l)(fd := None) \<and> (rc = 0 \<longleftrightarrow> registered l fd \<noteq> None))"
proof -
  have "registered l fd = None \<or> (\<exists>a c0. registered l fd = Some (a, c0) \<and> registered (snd_loop) = (registered l)(fd \<mapsto> (a, c)))"
    if "loop_mod_fd P l fd ev (Some c) k = (rc, snd_loop, k')" for rc snd_loop k'
  proof (cases "find_file_context l fd")
    case (Some fc)
    then have r: "registered l fd = Some (fc_addr fc, fc_callback fc)"
      by (simp add: registered_def)
    then have "0 \<le> fd"
      using registered_nonneg [OF assms, of fd] by simp
    then show ?thesis
      using that Some r update_context_ok [OF assms r, of c]
      by (auto simp: loop_mod_fd_def Let_def split: prod.splits if_splits)
  qed (simp add: registered_def)
  note changed = this
  obtain r1 l1 k1 r2 l2 k2 r3 l3 k3 where runs: "loop_add_fd P addr l fd ev cb k = (r1, l1, k1)"
    "loop_mod_fd P l fd ev (Some c) k = (r2, l2, k2)" "loop_del_fd P l fd k = (r3, l3, k3)"
    by (metis prod_cases3)
  show ?thesis
    unfolding runs prod.case
    using registry.add_law [OF assms runs(1)] registry.modify_law [OF assms runs(2)] registry.del_law [OF assms runs(3)]
      changed [OF runs(2)]
    by (intro conjI) (auto split: if_splits)
qed

definition accepting_poller :: "unit poller" where
  "accepting_poller =
     \<lparr>ep_create = (\<lambda>k. (3, k)), ep_add = (\<lambda>_ _ _ _ k. (True, k)), ep_mod = (\<lambda>_ _ _ _ k. (True, k)),
      ep_del = (\<lambda>_ _ k. (True, k)), ep_wait = (\<lambda>_ _ k. (WaitError, k)), ep_close = (\<lambda>_ k. k),
      tm_create = (\<lambda>k. (4, k)), tm_settime = (\<lambda>_ _ _ k. (True, k))\<rparr>"

definition new_loop :: "'c EventLoop" where
  "new_loop = \<lparr>epoll_fd = 3, running = False, max_events = 16, fd_table = replicate FD_HASH_SIZE []\<rparr>"

lemma new_loop_wf: "wf_loop new_loop" and new_loop_empty: "registered new_loop = (\<lambda>_. None)"
  using fd_hash_less by (auto simp: wf_loop_def new_loop_def FD_HASH_SIZE_def registered_def find_file_context_def fun_eq_iff)

theorem loop_refines_map_witness:
  "\<exists>l'. loop_add_fd accepting_poller (Some 64) new_loop 7 EVENT_READ (Some CHR ''a'') () = (0, l', ()) \<and>
     registered l' 7 = Some (64, CHR ''a'') \<and> registered l' 8 = None"
proof -
  obtain l' where run: "loop_add_fd accepting_poller (Some 64) new_loop 7 EVENT_READ (Some CHR ''a'') () = (0, l', ())"
    by (simp add: loop_add_fd_def accepting_poller_def insert_file_context_def Let_def
        find_file_context_def new_loop_def fd_hash_mod FD_HASH_SIZE_def)
  with loop_refines_map [where P = accepting_poller and addr = "Some 64" and fd = 7 and ev = EVENT_READ
      and cb = "Some CHR ''a''" and k = "()", OF new_loop_wf]
  show ?thesis by (auto simp: new_loop_empty)
qed

text \<open>The hash sends descriptors to the same chain exactly when they agree modulo 256, so up to 256
  consecutive descriptors have chains of their own.\<close>

lemma fd_hash_spreads:
  "fd_hash a < FD_HASH_SIZE \<and> (fd_hash a = fd_hash b \<longleftrightarrow> a mod 256 = b mod 256)"
  by (simp add: fd_hash_less fd_hash_eq_iff FD_HASH_SIZE_def)

section \<open>Events and the lifetime of contexts\<close>

text \<open>
  What epoll promises: \<open>watch\<close> is the kernel's own list of descriptors with the pointer given for each. A
  descriptor leaves it when it is removed or closed. \<^verbatim>\<open>epoll_wait\<close> reports each watched descriptor at most
  once, with its pointer.
\<close>

definition epoll_kernel :: "'s poller \<Rightarrow> ('s \<Rightarrow> int \<Rightarrow> nat option) \<Rightarrow> bool" where
  "epoll_kernel P watch \<longleftrightarrow>
     (\<forall>e fd a m s ok s'. ep_add P e fd a m s = (ok, s') \<longrightarrow> watch s' = (if ok then (watch s)(fd \<mapsto> a) else watch s)) \<and>
     (\<forall>e fd a m s ok s'. ep_mod P e fd a m s = (ok, s') \<longrightarrow> watch s' = (if ok then (watch s)(fd \<mapsto> a) else watch s)) \<and>
     (\<forall>e fd s. watch (snd (ep_del P e fd s)) = (watch s)(fd := None)) \<and>
     (\<forall>fd s. watch (ep_close P fd s) = (watch s)(fd := None)) \<and>
     (\<forall>e n s r s'. ep_wait P e n s = (r, s') \<longrightarrow> watch s' = watch s) \<and>
     (\<forall>e n s evs s'. ep_wait P e n s = (Ready evs, s') \<longrightarrow>
        (\<exists>fds. distinct fds \<and> map Some (map fst evs) = map (watch s) fds))"

text \<open>The table and the kernel agree.\<close>

definition in_sync :: "('s \<Rightarrow> int \<Rightarrow> nat option) \<Rightarrow> 'c EventLoop \<Rightarrow> 's \<Rightarrow> bool" where
  "in_sync watch l s \<longleftrightarrow> watch s = map_option fst \<circ> registered l"

lemma epoll_kernelD:
  assumes "epoll_kernel P watch"
  shows "ep_add P e fd a m s = (ok, s') \<Longrightarrow> watch s' = (if ok then (watch s)(fd \<mapsto> a) else watch s)"
    and "ep_mod P e fd a m s = (ok, s') \<Longrightarrow> watch s' = (if ok then (watch s)(fd \<mapsto> a) else watch s)"
    and "watch (snd (ep_del P e fd s)) = (watch s)(fd := None)"
    and "watch (ep_close P fd s) = (watch s)(fd := None)"
    and "ep_wait P e n s = (r, s') \<Longrightarrow> watch s' = watch s"
    and "ep_wait P e n s = (Ready evs, s') \<Longrightarrow> \<exists>fds. distinct fds \<and> map Some (map fst evs) = map (watch s) fds"
  using assms by (simp_all add: epoll_kernel_def) blast

lemma map_option_fst_upd: "map_option fst \<circ> (m(x \<mapsto> (a, c))) = (map_option fst \<circ> m)(x \<mapsto> a)"
  "map_option fst \<circ> (m(x := None)) = (map_option fst \<circ> m)(x := None)"
  by auto

lemma sync_add:
  assumes "epoll_kernel P watch" and "wf_loop l" and "in_sync watch l s"
    and run: "loop_add_fd P addr l fd ev cb s = (rc, l', s')"
  shows "in_sync watch l' s'"
proof (cases "cb = None \<or> fd < 0 \<or> addr = None \<or> find_file_context l fd \<noteq> None")
  case True
  then show ?thesis
    using run assms(3) by (auto simp: loop_add_fd_def insert_file_context_def Let_def split: option.splits if_splits)
next
  case False
  then obtain c a where c: "cb = Some c" "addr = Some a" "0 \<le> fd" "find_file_context l fd = None"
    by auto
  let ?fc = "\<lparr>fc_addr = a, fc_fd = fd, fc_callback = c\<rparr>"
  obtain l1 where ins: "insert_file_context l ?fc = (0, l1)" "wf_loop l1"
    and reg: "registered l1 = (registered l)(fd \<mapsto> (a, c))"
    using insert_file_context_ok [OF assms(2), of ?fc] c by auto
  obtain ok s1 where ep: "ep_add P (epoll_fd l1) fd a (epoll_mask ev) s = (ok, s1)"
    by (metis surj_pair)
  have "registered l fd = None"
    using c(4) by (simp add: registered_def)
  then show ?thesis
    using run c ins reg ep assms(3) remove_file_context_ok(3) [OF ins(2), of fd] epoll_kernelD(1) [OF assms(1) ep]
    by (cases ok) (auto simp: loop_add_fd_def Let_def in_sync_def map_option_fst_upd fun_upd_idem)
qed

lemma sync_mod:
  assumes "epoll_kernel P watch" and "wf_loop l" and "in_sync watch l s"
    and run: "loop_mod_fd P l fd ev cb s = (rc, l', s')"
  shows "in_sync watch l' s'"
proof (cases "cb = None \<or> fd < 0 \<or> find_file_context l fd = None")
  case True
  then show ?thesis
    using run assms(3) by (auto simp: loop_mod_fd_def split: option.splits)
next
  case False
  then obtain c fc where c: "cb = Some c" "0 \<le> fd" "find_file_context l fd = Some fc"
    by auto
  then have r: "registered l fd = Some (fc_addr fc, fc_callback fc)"
    by (simp add: registered_def)
  obtain ok s1 where ep: "ep_mod P (epoll_fd (update_context fd c l)) fd (fc_addr fc) (epoll_mask ev) s = (ok, s1)"
    by (metis surj_pair)
  have "(map_option fst \<circ> registered l)(fd \<mapsto> fc_addr fc) = map_option fst \<circ> registered l"
    using r by auto
  then show ?thesis
    using run c ep assms(3) update_context_ok(2) [OF assms(2) r, of c] epoll_kernelD(2) [OF assms(1) ep]
    by (cases ok) (auto simp: loop_mod_fd_def Let_def in_sync_def map_option_fst_upd)
qed

lemma sync_del:
  assumes "epoll_kernel P watch" and "wf_loop l" and "in_sync watch l s"
    and run: "loop_del_fd P l fd s = (rc, l', s')"
  shows "in_sync watch l' s'"
proof -
  have reg: "registered l' = (registered l)(fd := None)" and rc: "rc = (if registered l fd = None then -1 else 0)"
    using registry.del_law [OF assms(2) run] by simp_all
  show ?thesis
  proof (cases "registered l fd")
    case None
    then have "s' = s"
      using run remove_file_context_ok(1) [OF assms(2), of fd]
      by (auto simp: loop_del_fd_def registered_def split: if_splits prod.splits)
    then show ?thesis
      using assms(3) reg None by (simp add: in_sync_def fun_upd_idem)
  next
    case (Some r)
    then have "s' = snd (ep_del P (epoll_fd l') fd s)"
      using run rc by (auto simp: loop_del_fd_def split: if_splits prod.splits option.splits)
    then show ?thesis
      using assms(3) reg epoll_kernelD(3) [OF assms(1)] by (simp add: in_sync_def map_option_fst_upd)
  qed
qed

text \<open>The pointers of one batch are different and all in use.\<close>

lemma sync_batch:
  assumes "epoll_kernel P watch" and "unique (registered l)" and "in_sync watch l s"
    and "ep_wait P e n s = (Ready evs, s')"
  shows "distinct (map fst evs)" and "fst ` set evs \<subseteq> live (registered l)"
proof -
  obtain fds where fds: "distinct fds" "map Some (map fst evs) = map (watch s) fds"
    using epoll_kernelD(6) [OF assms(1,4)] by blast
  have w: "watch s = map_option fst \<circ> registered l"
    using assms(3) by (simp add: in_sync_def)
  have inj: "inj_on (watch s) {fd. watch s fd \<noteq> None}"
    using assms(2) by (auto simp: inj_on_def w unique_def)
  have sub: "set fds \<subseteq> {fd. watch s fd \<noteq> None}"
    using arg_cong [OF fds(2), of set] by force
  have "distinct (map (watch s) fds)"
    using fds(1) inj_on_subset [OF inj sub] by (simp add: distinct_map)
  then show "distinct (map fst evs)"
    using fds(2) by (metis distinct_map)
  show "fst ` set evs \<subseteq> live (registered l)"
  proof
    fix a
    assume "a \<in> fst ` set evs"
    then have "Some a \<in> set (map (watch s) fds)"
      unfolding fds(2) [symmetric] by force
    then show "a \<in> live (registered l)"
      by (auto simp: w live_iff eq_commute [of "Some a"])
  qed
qed

section \<open>Callbacks that keep other contexts alive\<close>

text \<open>One round of the loop as a step between the states in which \<^verbatim>\<open>running\<close> is tested.\<close>

inductive loop_step ::
  "'s poller \<Rightarrow> ('s \<Rightarrow> bool) \<Rightarrow> ('c, 's) handler \<Rightarrow> 'c EventLoop \<times> 's \<Rightarrow> 'c EventLoop \<times> 's \<Rightarrow> bool"
  for P signalled handle where
  interrupted: "running l \<Longrightarrow> \<not> signalled s \<Longrightarrow> ep_wait P (epoll_fd l) (max_events l) s = (WaitIntr, s') \<Longrightarrow>
     loop_step P signalled handle (l, s) (l, s')"
| events: "running l \<Longrightarrow> \<not> signalled s \<Longrightarrow> ep_wait P (epoll_fd l) (max_events l) s = (Ready evs, s') \<Longrightarrow>
     run_batch handle evs (l, s') = Some (Inr st) \<Longrightarrow> loop_step P signalled handle (l, s) st"

inductive_cases loop_stepE: "loop_step P signalled handle st st'"

text \<open>
  A discipline for callbacks: in a good state every callback returns without fault in a good state and leaves every
  context but its own in place. Then a batch never runs into a context that was freed.
\<close>

locale callback_discipline =
  fixes P :: "'s poller" and watch :: "'s \<Rightarrow> int \<Rightarrow> nat option" and handle :: "('c, 's) handler"
    and good :: "'c EventLoop \<times> 's \<Rightarrow> bool"
  assumes good_epoll: "good (l, s) \<Longrightarrow> epoll_kernel P watch"
    and good_table: "good (l, s) \<Longrightarrow> wf_loop l \<and> unique (registered l) \<and> 0 \<notin> live (registered l) \<and> in_sync watch l s"
    and good_wait: "good (l, s) \<Longrightarrow> ep_wait P e n s = (r, s') \<Longrightarrow> good (l, s')"
    and good_running: "good (l, s) \<Longrightarrow> good (l\<lparr>running := b\<rparr>, s)"
    and handled: "good (l, s) \<Longrightarrow> registered l fd = Some (a, c) \<Longrightarrow>
      \<exists>l' s'. handle c fd ev (l, s) = Some (Inr (l', s')) \<and> good (l', s') \<and>
        live (registered l) - {a} \<subseteq> live (registered l')"
begin

lemma context_at_live:
  assumes "good (l, s)" and "a \<in> live (registered l)"
  shows "\<exists>fc. context_at l a = Some fc \<and> registered l (fc_fd fc) = Some (a, fc_callback fc)"
proof -
  have wf: "wf_loop l"
    using good_table [OF assms(1)] by blast
  obtain fd c where r: "registered l fd = Some (a, c)"
    using assms(2) by (auto simp: live_iff)
  then have "\<lparr>fc_addr = a, fc_fd = fd, fc_callback = c\<rparr> \<in> set (concat (fd_table l))"
    by (simp only: contexts_registered [OF wf]) simp
  then have "\<exists>fc \<in> set (concat (fd_table l)). fc_addr fc = a"
    by (rule bexI [rotated]) simp
  then obtain fc where c: "context_at l a = Some fc"
    unfolding context_at_def by (cases "find (\<lambda>fc. fc_addr fc = a) (concat (fd_table l))") (auto simp: find_None_iff)
  then have "fc \<in> set (concat (fd_table l))" "fc_addr fc = a"
    unfolding context_at_def find_Some_iff by (auto simp del: set_concat intro: nth_mem)
  then show ?thesis
    using c contexts_registered [OF wf, of fc] by auto
qed

lemma batch_handled:
  "good st \<Longrightarrow> distinct (map fst evs) \<Longrightarrow> fst ` set evs \<subseteq> live (registered (fst st)) \<Longrightarrow>
     \<exists>st'. run_batch handle evs st = Some (Inr st') \<and> good st'"
proof (induction evs arbitrary: st)
  case (Cons ev evs)
  obtain l s where st: "st = (l, s)" by (cases st)
  obtain a e where ev: "ev = (a, e)" by (cases ev)
  have good: "good (l, s)" and a: "a \<in> live (registered l)"
    using Cons.prems by (auto simp: st ev)
  then have "a \<noteq> 0"
    using good_table [OF good] by metis
  obtain fc where fc: "context_at l a = Some fc" "registered l (fc_fd fc) = Some (a, fc_callback fc)"
    using context_at_live [OF good a] by blast
  obtain l' s' where run: "handle (fc_callback fc) (fc_fd fc) (translate_events e) (l, s) = Some (Inr (l', s'))"
    and good': "good (l', s')" and kept: "live (registered l) - {a} \<subseteq> live (registered l')"
    using handled [OF good fc(2)] by blast
  have "fst ` set evs \<subseteq> live (registered l')"
    using Cons.prems(2,3) kept by (auto simp: st ev)
  then obtain st' where "run_batch handle evs (l', s') = Some (Inr st')" "good st'"
    using Cons.IH [OF good'] Cons.prems(2) by auto
  then show ?case
    using \<open>a \<noteq> 0\<close> fc(1) run by (simp add: st ev)
qed simp

lemma wait_handled:
  assumes "good (l, s)" and wait: "ep_wait P e n s = (Ready evs, s')"
  shows "\<exists>st'. run_batch handle evs (l, s') = Some (Inr st') \<and> good st'"
  using good_table [OF assms(1)] sync_batch [OF good_epoll [OF assms(1)] _ _ wait, of l] good_wait [OF assms]
  by (intro batch_handled) auto

lemma step_good: "loop_step P signalled handle st st' \<Longrightarrow> good st \<Longrightarrow> good st'"
  by (induction rule: loop_step.induct) (auto dest: good_wait wait_handled)

lemma reachable_good: "(loop_step P signalled handle)\<^sup>*\<^sup>* st st' \<Longrightarrow> good st \<Longrightarrow> good st'"
  by (induction rule: rtranclp_induct) (auto intro: step_good)

text \<open>A round is never stuck: whatever epoll reports, the batch is handled completely.\<close>

lemma round_progress:
  assumes "good (l, s)" and "running l" and "\<not> signalled s"
  shows "(\<exists>st'. loop_step P signalled handle (l, s) st' \<and> good st') \<or>
    (\<exists>s'. ep_wait P (epoll_fd l) (max_events l) s = (WaitError, s'))"
proof -
  obtain r s' where wait: "ep_wait P (epoll_fd l) (max_events l) s = (r, s')"
    by (metis surj_pair)
  show ?thesis
  proof (cases r)
    case (Ready evs)
    then obtain st' where "run_batch handle evs (l, s') = Some (Inr st')" "good st'"
      using wait_handled [OF assms(1)] wait by blast
    then show ?thesis
      using loop_step.events [of l signalled s, OF assms(2,3)] wait Ready by blast
  next
    case WaitIntr
    then show ?thesis
      using loop_step.interrupted [of l signalled s, OF assms(2,3)] wait good_wait [OF assms(1) wait] by blast
  qed (use wait in blast)
qed

lemma iterate_good:
  assumes "loop_iterate P signalled handle st = Some r" and "good st"
  shows "\<exists>st'. r = Inr st' \<and> good st'"
proof -
  let ?Q = "\<lambda>poll sig h st r. poll = P \<longrightarrow> h = handle \<longrightarrow> good st \<longrightarrow> (\<exists>st'. r = Inr st' \<and> good st')"
  have "?Q P signalled handle st r"
  proof (rule loop_iterate.raw_induct [where P = ?Q, OF _ assms(1)], intro impI)
    fix iter and poll :: "'s poller" and sig h st r
    assume ih: "\<And>poll sig h st r. iter poll sig h st = Some r \<Longrightarrow> ?Q poll sig h st r"
      and run: "(let loop = (if sig (snd st) then loop_stop (fst st) else fst st)
        in if \<not> running loop then Some (Inr (loop, snd st))
           else (case ep_wait poll (epoll_fd loop) (max_events loop) (snd st) of
                   (Ready evs, s) \<Rightarrow>
                     Option.bind (run_batch h evs (loop, s))
                       (\<lambda>r. case r of Inl f \<Rightarrow> Some (Inl f) | Inr st \<Rightarrow> iter poll sig h st)
                 | (WaitIntr, s) \<Rightarrow> iter poll sig h (loop, s)
                 | (WaitError, s) \<Rightarrow> Some (Inr (loop, s)))) = Some r"
      and eqs: "poll = P" "h = handle" and good: "good st"
    define l where "l = (if sig (snd st) then loop_stop (fst st) else fst st)"
    have good_l: "good (l, snd st)"
      using good good_running [of "fst st" "snd st" False] by (simp add: l_def loop_stop_def)
    obtain w s' where wait: "ep_wait P (epoll_fd l) (max_events l) (snd st) = (w, s')"
      by (metis surj_pair)
    show "\<exists>st'. r = Inr st' \<and> good st'"
    proof (cases "running l")
      case True
      then show ?thesis
        using run wait eqs ih good_l good_wait [OF good_l wait] wait_handled [OF good_l]
        by (cases w) (fastforce simp: Let_def simp flip: l_def)+
    next
      case False
      then show ?thesis
        using run good_l by (auto simp: Let_def simp flip: l_def)
    qed
  qed
  then show ?thesis using assms(2) by blast
qed

end

end
