(* ===== verification/Cluster_Manager.thy ===== *)
theory Cluster_Manager
  imports Wire Transport
begin

text \<open>
  Cluster membership, \<^verbatim>\<open>src/cluster/cluster_manager.c\<close>: the member list, the answer to a join request, joining through a
  seed, and leaving; and from \<^verbatim>\<open>src/main.c\<close> the failure detector and the two gossip callbacks, which
  work on the same list. Roles and statuses are C enumerations assigned from 16 bit fields of messages, so they are
  words with named values. The member array is a list; \<open>member_count\<close> is its length. What fresh memory holds
  is an argument where the code sends or keeps bytes it did not write. Logging is left out.
\<close>

section \<open>Data\<close>

definition ROLE_UNKNOWN :: u32 where "ROLE_UNKNOWN = 0"
definition ROLE_CONTROL_NODE :: u32 where "ROLE_CONTROL_NODE = 1"
definition ROLE_WORKER_NODE :: u32 where "ROLE_WORKER_NODE = 2"
definition NODE_STATUS_ALIVE :: u32 where "NODE_STATUS_ALIVE = 0"
definition NODE_STATUS_SUSPECT :: u32 where "NODE_STATUS_SUSPECT = 1"
definition NODE_STATUS_DEAD :: u32 where "NODE_STATUS_DEAD = 2"

lemmas status_defs = NODE_STATUS_ALIVE_def NODE_STATUS_SUSPECT_def NODE_STATUS_DEAD_def

datatype ClusterState =
    CLUSTER_STATE_INIT
  | CLUSTER_STATE_JOINING
  | CLUSTER_STATE_ACTIVE
  | CLUSTER_STATE_LEAVING
  | CLUSTER_STATE_ISOLATED

record NodeInfo =
  ni_node_id :: bytes
  ni_ip_address :: bytes
  ni_tcp_port :: u16
  ni_udp_port :: u16
  ni_role :: u32
  ni_status :: u32
  ni_cpu_load :: u8
  ni_mem_load :: u8
  ni_last_updated_ts :: u64

record ClusterManager =
  cm_self :: NodeInfo
  cm_state :: ClusterState
  cm_members :: "NodeInfo list"
  cm_member_capacity :: nat
  cm_cluster_name :: bytes
  cm_heartbeat_interval_ms :: int

record JoinRequestPayload =
  jr_node_id :: bytes
  jr_ip_address :: bytes
  jr_tcp_port :: u16
  jr_udp_port :: u16
  jr_role :: u16

record JoinResponseHeader =
  js_status :: u32
  js_member_count :: u32
  js_responder_id :: bytes

text \<open>\<^verbatim>\<open>sizeof\<close>: the two payloads are packed, \<^verbatim>\<open>NodeInfo\<close> is not.\<close>

definition sizeof_JoinRequestPayload :: nat where "sizeof_JoinRequestPayload = 37 + 46 + 2 + 2 + 2"
definition sizeof_JoinResponseHeader :: nat where "sizeof_JoinResponseHeader = 4 + 4 + 37"
definition sizeof_NodeInfo :: nat where "sizeof_NodeInfo = 112"

lemmas cluster_sizes = sizeof_JoinRequestPayload_def sizeof_JoinResponseHeader_def sizeof_NodeInfo_def

section \<open>Structures in memory\<close>

definition join_request_image :: "endian \<Rightarrow> JoinRequestPayload \<Rightarrow> bytes" where
  "join_request_image e r =
     take 37 (jr_node_id r) @ take 46 (jr_ip_address r) @
     host_bytes e 2 (jr_tcp_port r) @ host_bytes e 2 (jr_udp_port r) @ host_bytes e 2 (jr_role r)"

definition join_request_read :: "endian \<Rightarrow> bytes \<Rightarrow> JoinRequestPayload" where
  "join_request_read e bs =
     \<lparr>jr_node_id = field_at 0 37 bs, jr_ip_address = field_at 37 46 bs,
      jr_tcp_port = host_word e (field_at 83 2 bs), jr_udp_port = host_word e (field_at 85 2 bs),
      jr_role = host_word e (field_at 87 2 bs)\<rparr>"

definition response_header_image :: "endian \<Rightarrow> JoinResponseHeader \<Rightarrow> bytes" where
  "response_header_image e h =
     host_bytes e 4 (js_status h) @ host_bytes e 4 (js_member_count h) @ take 37 (js_responder_id h)"

definition response_header_read :: "endian \<Rightarrow> bytes \<Rightarrow> JoinResponseHeader" where
  "response_header_read e bs =
     \<lparr>js_status = host_word e (field_at 0 4 bs), js_member_count = host_word e (field_at 4 4 bs),
      js_responder_id = field_at 8 37 bs\<rparr>"

text \<open>
  A \<^verbatim>\<open>NodeInfo\<close> has one byte of padding at 83 and six at 98; storing the fields leaves the padding of the
  memory \<open>old\<close> in place.
\<close>

definition node_info_image :: "endian \<Rightarrow> bytes \<Rightarrow> NodeInfo \<Rightarrow> bytes" where
  "node_info_image e old n =
     take 37 (ni_node_id n) @ take 46 (ni_ip_address n) @ field_at 83 1 old @
     host_bytes e 2 (ni_tcp_port n) @ host_bytes e 2 (ni_udp_port n) @
     host_bytes e 4 (ni_role n) @ host_bytes e 4 (ni_status n) @
     [ni_cpu_load n, ni_mem_load n] @ field_at 98 6 old @ host_bytes e 8 (ni_last_updated_ts n)"

definition node_info_read :: "endian \<Rightarrow> bytes \<Rightarrow> NodeInfo" where
  "node_info_read e bs =
     \<lparr>ni_node_id = field_at 0 37 bs, ni_ip_address = field_at 37 46 bs,
      ni_tcp_port = host_word e (field_at 84 2 bs), ni_udp_port = host_word e (field_at 86 2 bs),
      ni_role = host_word e (field_at 88 4 bs), ni_status = host_word e (field_at 92 4 bs),
      ni_cpu_load = bs ! 96, ni_mem_load = bs ! 97, ni_last_updated_ts = host_word e (field_at 104 8 bs)\<rparr>"

section \<open>The member list\<close>

definition ensure_capacity :: "bool \<Rightarrow> ClusterManager \<Rightarrow> ClusterManager" where
  "ensure_capacity mem cm =
     (if length (cm_members cm) < cm_member_capacity cm then cm
      else
        let new_capacity = (if cm_member_capacity cm \<noteq> 0 then cm_member_capacity cm * 2 else 8)
        in if \<not> mem then cm else cm\<lparr>cm_member_capacity := new_capacity\<rparr>)"

definition cluster_init :: "u32 \<Rightarrow> bytes \<Rightarrow> bytes \<Rightarrow> u16 \<Rightarrow> u64 \<Rightarrow> ClusterManager" where
  "cluster_init role id_arg bind_ip port now =
     \<lparr>cm_self =
        \<lparr>ni_node_id = (strncpy (zeros 37) id_arg 36)[36 := 0],
         ni_ip_address = (strncpy (zeros 46) bind_ip 45)[45 := 0],
         ni_tcp_port = port, ni_udp_port = port, ni_role = role, ni_status = NODE_STATUS_ALIVE,
         ni_cpu_load = 0, ni_mem_load = 0, ni_last_updated_ts = now\<rparr>,
      cm_state = CLUSTER_STATE_INIT, cm_members = [], cm_member_capacity = 0,
      cm_cluster_name = zeros 32, cm_heartbeat_interval_ms = 0\<rparr>"

text \<open>The position of the first member with an identity.\<close>

fun find_member :: "nat \<Rightarrow> NodeInfo list \<Rightarrow> bytes \<Rightarrow> nat option" where
  "find_member i [] node_id = None"
| "find_member i (m # ms) node_id =
     (if streq (ni_node_id m) node_id then Some i else find_member (i + 1) ms node_id)"

definition cluster_update_member_status :: "u64 \<Rightarrow> bytes \<Rightarrow> u32 \<Rightarrow> ClusterManager \<Rightarrow> int \<times> ClusterManager" where
  "cluster_update_member_status now node_id status cm =
     (case find_member 0 (cm_members cm) node_id of
        None \<Rightarrow> (0, cm)
      | Some i \<Rightarrow>
          (1, cm\<lparr>cm_members := (cm_members cm)[i := (cm_members cm ! i)\<lparr>ni_status := status,
                                                       ni_last_updated_ts := now\<rparr>]\<rparr>))"

section \<open>Answering a join request\<close>

text \<open>The list after a request: the member is updated in place or added at the end; \<open>None\<close> when there is no room.\<close>

definition admit :: "endian \<Rightarrow> bool \<Rightarrow> u64 \<Rightarrow> JoinRequestPayload \<Rightarrow> ClusterManager \<Rightarrow> ClusterManager option" where
  "admit e mem wall req cm =
     (case find_member 0 (cm_members cm) (jr_node_id req) of
        Some i \<Rightarrow>
          let m = cm_members cm ! i
          in Some (cm\<lparr>cm_members := (cm_members cm)[i :=
               m\<lparr>ni_ip_address := strncpy (ni_ip_address m) (jr_ip_address req) 45,
                 ni_tcp_port := ntohs e (jr_tcp_port req), ni_udp_port := ntohs e (jr_udp_port req),
                 ni_role := ucast (ntohs e (jr_role req)), ni_status := NODE_STATUS_ALIVE,
                 ni_last_updated_ts := wall\<rparr>]\<rparr>)
      | None \<Rightarrow>
          let cm = ensure_capacity mem cm
          in if length (cm_members cm) \<ge> cm_member_capacity cm then None
             else Some (cm\<lparr>cm_members := cm_members cm @
               [\<lparr>ni_node_id = (strncpy (zeros 37) (jr_node_id req) 36)[36 := 0],
                 ni_ip_address = (strncpy (zeros 46) (jr_ip_address req) 45)[45 := 0],
                 ni_tcp_port = ntohs e (jr_tcp_port req), ni_udp_port = ntohs e (jr_udp_port req),
                 ni_role = ucast (ntohs e (jr_role req)), ni_status = NODE_STATUS_ALIVE,
                 ni_cpu_load = 0, ni_mem_load = 0, ni_last_updated_ts = wall\<rparr>]\<rparr>))"

text \<open>
  One member in the response. \<^verbatim>\<open>htons\<close> takes 16 bits of the enumerations and its result is stored into the
  32 bit fields.
\<close>

definition wire_member :: "endian \<Rightarrow> NodeInfo \<Rightarrow> NodeInfo" where
  "wire_member e n =
     n\<lparr>ni_tcp_port := htons e (ni_tcp_port n), ni_udp_port := htons e (ni_udp_port n),
       ni_role := ucast (htons e (ucast (ni_role n))), ni_status := ucast (htons e (ucast (ni_status n))),
       ni_last_updated_ts := htobe64 e (ni_last_updated_ts n)\<rparr>"

text \<open>\<open>old\<close> is what the response buffer holds before it is written.\<close>

fun member_images :: "endian \<Rightarrow> bytes \<Rightarrow> NodeInfo list \<Rightarrow> bytes" where
  "member_images e old [] = []"
| "member_images e old (n # ns) =
     node_info_image e (take sizeof_NodeInfo old) (wire_member e n) @ member_images e (drop sizeof_NodeInfo old) ns"

definition join_response :: "endian \<Rightarrow> bytes \<Rightarrow> ClusterManager \<Rightarrow> bytes" where
  "join_response e old cm =
     response_header_image e
       \<lparr>js_status = 0, js_member_count = htonl e (of_nat (length (cm_members cm))),
        js_responder_id = (strncpy (zeros 37) (ni_node_id (cm_self cm)) 36)[36 := 0]\<rparr> @
     member_images e (drop sizeof_JoinResponseHeader old) (cm_members cm)"

text \<open>\<open>fresh\<close> gives the contents of an allocated block of a size, \<open>None\<close> for NULL; \<open>wall\<close> is \<^verbatim>\<open>time(NULL)\<close>.\<close>

definition cluster_handle_join_req ::
  "endian \<Rightarrow> bool \<Rightarrow> (nat \<Rightarrow> bytes option) \<Rightarrow> u64 \<Rightarrow> JoinRequestPayload \<Rightarrow> ClusterManager \<Rightarrow>
     int \<times> bytes option \<times> ClusterManager" where
  "cluster_handle_join_req e mem fresh wall req cm =
     (case admit e mem wall req cm of
        None \<Rightarrow> (-1, None, ensure_capacity mem cm)
      | Some cm \<Rightarrow>
          (case fresh (sizeof_JoinResponseHeader + length (cm_members cm) * sizeof_NodeInfo) of
             None \<Rightarrow> (-1, None, cm)
           | Some old \<Rightarrow> (0, Some (join_response e old cm), cm)))"

section \<open>Joining through a seed\<close>

definition join_request :: "endian \<Rightarrow> ClusterManager \<Rightarrow> JoinRequestPayload" where
  "join_request e cm =
     \<lparr>jr_node_id = strncpy (zeros 37) (ni_node_id (cm_self cm)) 36,
      jr_ip_address = strncpy (zeros 46) (ni_ip_address (cm_self cm)) 45,
      jr_tcp_port = htons e (ni_tcp_port (cm_self cm)), jr_udp_port = htons e (ni_udp_port (cm_self cm)),
      jr_role = htons e (ucast (ni_role (cm_self cm)))\<rparr>"

definition join_header :: "ClusterManager \<Rightarrow> RpcHeader" where
  "join_header cm =
     \<lparr>magic = RPC_MAGIC, version = 1, command_type = RPC_CMD_JOIN_REQ,
      payload_len = of_nat sizeof_JoinRequestPayload,
      origin_id = strncpy (zeros 37) (ni_node_id (cm_self cm)) 36, request_id = zeros 37\<rparr>"

text \<open>
  The import loop, \<open>n\<close> rounds from entry \<open>i\<close> on. An entry that does not lie in the payload as a whole is
  read out of bounds. Both loads keep what the new slot \<open>old i\<close> held.
\<close>

fun import_members ::
  "endian \<Rightarrow> (nat \<Rightarrow> bool) \<Rightarrow> (nat \<Rightarrow> NodeInfo) \<Rightarrow> u64 \<Rightarrow> bytes \<Rightarrow> nat \<Rightarrow> nat \<Rightarrow> ClusterManager \<Rightarrow> fault + ClusterManager" where
  "import_members e mem old now nodes i 0 cm = Inr cm"
| "import_members e mem old now nodes i (Suc n) cm =
     (if length nodes < (i + 1) * sizeof_NodeInfo then Inl OutOfBounds
      else
        let src = node_info_read e (field_at (i * sizeof_NodeInfo) sizeof_NodeInfo nodes)
        in if streq (ni_node_id src) (ni_node_id (cm_self cm))
           then import_members e mem old now nodes (i + 1) n cm
           else
             let cm = ensure_capacity (mem i) cm
             in if length (cm_members cm) \<ge> cm_member_capacity cm then Inr cm
                else
                  let dst = (old i)\<lparr>ni_node_id := ni_node_id src, ni_ip_address := ni_ip_address src,
                                    ni_tcp_port := ntohs e (ni_tcp_port src), ni_udp_port := ntohs e (ni_udp_port src),
                                    ni_role := ucast (ntohs e (ucast (ni_role src))),
                                    ni_status := ucast (ntohs e (ucast (ni_status src))),
                                    ni_last_updated_ts := now\<rparr>
                  in import_members e mem old now nodes (i + 1) n (cm\<lparr>cm_members := cm_members cm @ [dst]\<rparr>))"

definition register_seed :: "bool \<Rightarrow> u64 \<Rightarrow> bytes \<Rightarrow> u16 \<Rightarrow> bytes \<Rightarrow> ClusterManager \<Rightarrow> ClusterManager" where
  "register_seed mem now seed_ip seed_port seed_id cm =
     (if find_member 0 (cm_members cm) seed_id \<noteq> None then cm
      else
        let cm = ensure_capacity mem cm
        in if length (cm_members cm) < cm_member_capacity cm
           then cm\<lparr>cm_members := cm_members cm @
                  [\<lparr>ni_node_id = strncpy (zeros 37) seed_id 36, ni_ip_address = strncpy (zeros 46) seed_ip 45,
                    ni_tcp_port = seed_port, ni_udp_port = seed_port, ni_role = ROLE_UNKNOWN,
                    ni_status = NODE_STATUS_ALIVE, ni_cpu_load = 0, ni_mem_load = 0,
                    ni_last_updated_ts = now\<rparr>]\<rparr>
           else cm)"

definition process_join_response ::
  "endian \<Rightarrow> (nat \<Rightarrow> bool) \<Rightarrow> bool \<Rightarrow> (nat \<Rightarrow> NodeInfo) \<Rightarrow> u64 \<Rightarrow> bytes \<Rightarrow> u16 \<Rightarrow> bytes \<Rightarrow> ClusterManager \<Rightarrow>
     fault + ClusterManager" where
  "process_join_response e mem seed_mem old now seed_ip seed_port payload cm =
     (if length payload < sizeof_JoinResponseHeader then Inl OutOfBounds
      else
        let resp = response_header_read e payload;
            seed_id = (strncpy (zeros 37) (js_responder_id resp) 36)[36 := 0]
        in (case import_members e mem old now (drop sizeof_JoinResponseHeader payload) 0
                   (unat (ntohl e (js_member_count resp))) cm of
              Inl f \<Rightarrow> Inl f
            | Inr cm \<Rightarrow> Inr (register_seed seed_mem now seed_ip seed_port seed_id cm)))"

text \<open>
  The whole exchange. \<open>None\<close> is a send that never returns, \<open>big\<close> answers the allocation of the payload, whose
  size the seed chooses.
\<close>

definition cluster_join ::
  "'k kernel \<Rightarrow> endian \<Rightarrow> (u64 \<Rightarrow> bool) \<Rightarrow> (nat \<Rightarrow> bool) \<Rightarrow> bool \<Rightarrow> (nat \<Rightarrow> NodeInfo) \<Rightarrow> u64 \<Rightarrow> bytes \<Rightarrow> u16 \<Rightarrow>
     ClusterManager \<times> 'k \<Rightarrow> (fault + int \<times> ClusterManager \<times> 'k) option" where
  "cluster_join K e big mem seed_mem old now seed_ip seed_port = (\<lambda>(cm, k).
     case tcp_client_connect K seed_ip seed_port k of
       ((rc, None), k) \<Rightarrow> Some (Inr (-1, cm, k))
     | ((rc, Some conn), k) \<Rightarrow>
         (case tcp_send_all K (sockfd conn) (serializer_pack_rpc e (join_header cm)) k of
            None \<Rightarrow> None
          | Some (rc, k) \<Rightarrow>
              if rc \<noteq> 0 then Some (Inr (-1, cm, snd (tcp_close K conn k)))
              else
                (case tcp_send_all K (sockfd conn) (join_request_image e (join_request e cm)) k of
                   None \<Rightarrow> None
                 | Some (rc, k) \<Rightarrow>
                     if rc \<noteq> 0 then Some (Inr (-1, cm, snd (tcp_close K conn k)))
                     else
                       let ((rc, hbuf), k) = tcp_recv_all K (sockfd conn) sizeof_RpcHeader k
                       in if rc \<noteq> 0 then Some (Inr (-1, cm, snd (tcp_close K conn k)))
                          else
                            let hdr = serializer_unpack_rpc e hbuf
                            in if magic hdr \<noteq> RPC_MAGIC \<or> command_type hdr \<noteq> RPC_CMD_JOIN_RESP
                               then Some (Inr (-1, cm, snd (tcp_close K conn k)))
                               else if payload_len hdr > 0
                               then
                                 if \<not> big (payload_len hdr) then Some (Inr (-1, cm, snd (tcp_close K conn k)))
                                 else
                                   let ((rc, payload), k) = tcp_recv_all K (sockfd conn) (unat (payload_len hdr)) k
                                   in if rc \<noteq> 0 then Some (Inr (-1, cm, snd (tcp_close K conn k)))
                                      else
                                        (case process_join_response e mem seed_mem old now seed_ip seed_port payload cm of
                                           Inl f \<Rightarrow> Some (Inl f)
                                         | Inr cm \<Rightarrow>
                                             Some (Inr (0, cm\<lparr>cm_state := CLUSTER_STATE_ACTIVE\<rparr>, snd (tcp_close K conn k))))
                               else Some (Inr (0, cm\<lparr>cm_state := CLUSTER_STATE_ACTIVE\<rparr>, snd (tcp_close K conn k))))))"

section \<open>Leaving\<close>

definition leave_header :: "ClusterManager \<Rightarrow> RpcHeader" where
  "leave_header cm =
     \<lparr>magic = RPC_MAGIC, version = 1, command_type = RPC_CMD_LEAVE, payload_len = 0,
      origin_id = strncpy (zeros 37) (ni_node_id (cm_self cm)) 36,
      request_id = [76, 69, 65, 86, 69, 45, 77, 83, 71] @ zeros 28\<rparr>"

text \<open>
  The loop over the members, with the number of messages sent so far; the identities of the members it
  tried are collected for the statements below.
\<close>

fun leave_loop ::
  "'k kernel \<Rightarrow> bytes \<Rightarrow> bytes \<Rightarrow> NodeInfo list \<Rightarrow> nat \<Rightarrow> bytes list \<Rightarrow> 'k \<Rightarrow> (nat \<times> bytes list \<times> 'k) option" where
  "leave_loop K self hbuf [] sent tried k = Some (sent, tried, k)"
| "leave_loop K self hbuf (m # ms) sent tried k =
     (if \<not> sent < 3 then Some (sent, tried, k)
      else if streq (ni_node_id m) self then leave_loop K self hbuf ms sent tried k
      else if ni_status m = NODE_STATUS_ALIVE
      then
        (case tcp_client_connect K (ni_ip_address m) (ni_tcp_port m) k of
           ((rc, None), k) \<Rightarrow> leave_loop K self hbuf ms sent (tried @ [ni_node_id m]) k
         | ((rc, Some conn), k) \<Rightarrow>
             (case tcp_send_all K (sockfd conn) hbuf k of
                None \<Rightarrow> None
              | Some (rc, k) \<Rightarrow>
                  leave_loop K self hbuf ms (if rc = 0 then sent + 1 else sent) (tried @ [ni_node_id m])
                    (snd (tcp_close K conn k))))
      else leave_loop K self hbuf ms sent tried k)"

definition cluster_leave :: "'k kernel \<Rightarrow> endian \<Rightarrow> ClusterManager \<times> 'k \<Rightarrow> (nat \<times> bytes list \<times> ClusterManager \<times> 'k) option" where
  "cluster_leave K e = (\<lambda>(cm, k).
     let cm = cm\<lparr>cm_state := CLUSTER_STATE_LEAVING\<rparr>
     in map_option (\<lambda>(sent, tried, k). (sent, tried, cm, k))
          (leave_loop K (ni_node_id (cm_self cm)) (serializer_pack_rpc e (leave_header cm)) (cm_members cm) 0 [] k))"

section \<open>Failure detection and gossip\<close>

definition reap :: "u64 \<Rightarrow> bytes \<Rightarrow> NodeInfo \<Rightarrow> NodeInfo" where
  "reap now self m =
     (if streq (ni_node_id m) self then m
      else
        let diff = (if now > ni_last_updated_ts m then now - ni_last_updated_ts m else 0)
        in if diff > 3000
           then (if ni_status m \<noteq> NODE_STATUS_DEAD then m\<lparr>ni_status := NODE_STATUS_DEAD\<rparr> else m)
           else if diff > 1500
           then (if ni_status m = NODE_STATUS_ALIVE then m\<lparr>ni_status := NODE_STATUS_SUSPECT\<rparr> else m)
           else m)"

definition cluster_reaper_tick :: "u64 \<Rightarrow> ClusterManager \<Rightarrow> ClusterManager" where
  "cluster_reaper_tick now cm = cm\<lparr>cm_members := map (reap now (ni_node_id (cm_self cm))) (cm_members cm)\<rparr>"

text \<open>The buffer has 2048 bytes.\<close>

definition on_gossip_receive :: "'k kernel \<Rightarrow> endian \<Rightarrow> u64 \<Rightarrow> UdpSocket \<Rightarrow> ClusterManager \<times> 'k \<Rightarrow> ClusterManager \<times> 'k" where
  "on_gossip_receive K e now sock = (\<lambda>(cm, k).
     let ((n, d, sender), k) = udp_recv K sock 2048 k
     in if n < int sizeof_GossipPacket then (cm, k)
        else
          let pkt = serializer_unpack_gossip e d
          in if g_magic pkt \<noteq> GOSSIP_MAGIC then (cm, k)
             else (snd (cluster_update_member_status now (g_node_id pkt) NODE_STATUS_ALIVE cm), k))"

definition heartbeat_packet :: "u64 \<Rightarrow> ClusterManager \<Rightarrow> GossipPacket" where
  "heartbeat_packet now cm =
     \<lparr>g_magic = GOSSIP_MAGIC, g_type = 1, g_sequence = ucast now,
      g_node_id = strncpy (zeros 37) (ni_node_id (cm_self cm)) 36\<rparr>"

text \<open>The members the heartbeat goes to: at most \<open>fanout\<close> from a random start, round the list once.\<close>

fun gossip_targets :: "bytes \<Rightarrow> nat \<Rightarrow> NodeInfo list \<Rightarrow> NodeInfo list" where
  "gossip_targets self fanout [] = []"
| "gossip_targets self fanout (m # ms) =
     (if fanout = 0 then []
      else if streq (ni_node_id m) self \<or> ni_status m = NODE_STATUS_DEAD then gossip_targets self fanout ms
      else m # gossip_targets self (fanout - 1) ms)"

text \<open>\<open>timer\<close> is reading the expiration count: \<open>None\<close> when that fails.\<close>

definition on_heartbeat_timer ::
  "'k kernel \<Rightarrow> endian \<Rightarrow> ('k \<Rightarrow> 'k option) \<Rightarrow> u64 \<Rightarrow> nat \<Rightarrow> UdpSocket \<Rightarrow> ClusterManager \<times> 'k \<Rightarrow> ClusterManager \<times> 'k" where
  "on_heartbeat_timer K e timer now rnd sock = (\<lambda>(cm, k).
     case timer k of
       None \<Rightarrow> (cm, k)
     | Some k \<Rightarrow>
         let out = serializer_pack_gossip e (heartbeat_packet now cm);
             start = rnd mod length (cm_members cm);
             order = drop start (cm_members cm) @ take start (cm_members cm)
         in (cm, fold (\<lambda>m k. snd (udp_send K sock (ni_ip_address m) (ni_udp_port m) out k))
                   (gossip_targets (ni_node_id (cm_self cm)) 3 order) k))"

end
