(* ===== verification/Rpc_Session.thy ===== *)
theory Rpc_Session
  imports Rpc_Message Event_Loop Cluster_Manager
begin

text \<open>
  The server side of \<^verbatim>\<open>src/protocol/rpc_handler.c\<close>: one session per accepted connection, a state machine that reads a
  header and a payload as bytes arrive, processes the request and sends the response, driven by the event loop.

  \<^item> The world of the callbacks holds the kernel's state, the cluster and the sessions by their addresses. What the
    event loop keeps with a descriptor is a \<open>closure\<close>: the callback with its context.
  \<^item> A buffer that fills up is the list of the bytes read so far, its counter the length of that list.
  \<^item> The machine, a record of parameters, is everything outside the program: kernel, epoll, clocks, memory.
\<close>

section \<open>Data\<close>

datatype SessionState =
    SESSION_READING_HEADER
  | SESSION_READING_PAYLOAD
  | SESSION_PROCESSING
  | SESSION_SENDING_RESPONSE
  | SESSION_DONE

record ClientSession =
  cs_conn :: TcpConnection
  cs_state :: SessionState
  cs_header_buf :: bytes
  cs_payload_buf :: "bytes option"
  cs_payload_total :: nat
  cs_header :: RpcHeader
  cs_response_buf :: "bytes option"
  cs_response_len :: nat
  cs_response_bytes_sent :: nat

datatype closure = OnAccept | OnClient nat | OnGossip | OnHeartbeat | OnReaper

record 'k world =
  w_kernel :: 'k
  w_cluster :: ClusterManager
  w_sessions :: "nat \<Rightarrow> ClientSession option"

type_synonym 'k program = "closure EventLoop \<times> 'k world"

text \<open>The calls of a poller on the kernel inside the world.\<close>

definition at_kernel :: "('k \<Rightarrow> 'a \<times> 'k) \<Rightarrow> 'k world \<Rightarrow> 'a \<times> 'k world" where
  "at_kernel f w = (case f (w_kernel w) of (r, k) \<Rightarrow> (r, w\<lparr>w_kernel := k\<rparr>))"

definition lift_poller :: "'k poller \<Rightarrow> 'k world poller" where
  "lift_poller P =
     \<lparr>ep_create = at_kernel (ep_create P),
      ep_add = (\<lambda>e fd a m. at_kernel (ep_add P e fd a m)),
      ep_mod = (\<lambda>e fd a m. at_kernel (ep_mod P e fd a m)),
      ep_del = (\<lambda>e fd. at_kernel (ep_del P e fd)),
      ep_wait = (\<lambda>e n. at_kernel (ep_wait P e n)),
      ep_close = (\<lambda>fd w. w\<lparr>w_kernel := ep_close P fd (w_kernel w)\<rparr>),
      tm_create = at_kernel (tm_create P),
      tm_settime = (\<lambda>fd s n. at_kernel (tm_settime P fd s n))\<rparr>"

record 'k machine =
  m_kernel :: "'k kernel"
  m_poller :: "'k poller"
  m_endian :: endian
  m_realloc :: "'k world \<Rightarrow> bool"
  m_payload_mem :: "'k world \<Rightarrow> bool"
  m_response_mem :: "'k world \<Rightarrow> bool"
  m_fresh :: "'k world \<Rightarrow> nat \<Rightarrow> bytes option"
  m_new_session :: "'k world \<Rightarrow> nat option"
  m_new_context :: "'k program \<Rightarrow> nat option"
  m_wall :: "'k world \<Rightarrow> u64"
  m_gettime :: "'k world \<Rightarrow> (u64 \<times> u64) option"
  m_rand :: "'k world \<Rightarrow> nat"
  m_timer :: "'k \<Rightarrow> 'k option"

text \<open>The monotonic clock in milliseconds, from seconds and nanoseconds; 0 when the clock cannot be read.\<close>

definition get_monotonic_time_ms :: "(u64 \<times> u64) option \<Rightarrow> u64" where
  "get_monotonic_time_ms ts = (case ts of None \<Rightarrow> 0 | Some (sec, nsec) \<Rightarrow> sec * 1000 + nsec div 1000000)"

definition m_clock :: "'k machine \<Rightarrow> 'k world \<Rightarrow> u64" where
  "m_clock M w = get_monotonic_time_ms (m_gettime M w)"

fun state_to_string :: "SessionState \<Rightarrow> string" where
  "state_to_string SESSION_READING_HEADER = ''READING_HEADER''"
| "state_to_string SESSION_READING_PAYLOAD = ''READING_PAYLOAD''"
| "state_to_string SESSION_PROCESSING = ''PROCESSING''"
| "state_to_string SESSION_SENDING_RESPONSE = ''SENDING_RESPONSE''"
| "state_to_string SESSION_DONE = ''DONE''"

section \<open>Moving bytes without blocking\<close>

definition read_into_buffer :: "'k kernel \<Rightarrow> int \<Rightarrow> nat \<Rightarrow> nat \<Rightarrow> 'k \<Rightarrow> (int \<times> bytes) \<times> 'k" where
  "read_into_buffer K fd offset len k =
     (let remaining = len - offset
      in if remaining = 0 then ((0, []), k)
         else
           (case sys_recv K fd remaining k of
              (RecvIntr, k) \<Rightarrow> ((0, []), k)
            | (RecvAgain, k) \<Rightarrow> ((0, []), k)
            | (RecvError, k) \<Rightarrow> ((-1, []), k)
            | (Received d, k) \<Rightarrow> if d = [] then ((-1, []), k) else ((int (length d), d), k)))"

definition write_from_buffer :: "'k kernel \<Rightarrow> int \<Rightarrow> bytes \<Rightarrow> nat \<Rightarrow> nat \<Rightarrow> 'k \<Rightarrow> int \<times> 'k" where
  "write_from_buffer K fd buf offset len k =
     (let remaining = len - offset
      in if remaining = 0 then (0, k)
         else
           (case sys_send K fd (take remaining (drop offset buf)) k of
              (SendIntr, k) \<Rightarrow> (0, k)
            | (SendAgain, k) \<Rightarrow> (0, k)
            | (SendError, k) \<Rightarrow> (-1, k)
            | (Sent n, k) \<Rightarrow> (int n, k)))"

section \<open>Sessions\<close>

definition empty_header :: RpcHeader where
  "empty_header =
     \<lparr>magic = 0, version = 0, command_type = 0, payload_len = 0, origin_id = zeros 37, request_id = zeros 37\<rparr>"

definition session_create :: "int \<Rightarrow> ClientSession" where
  "session_create client_fd =
     \<lparr>cs_conn = \<lparr>sockfd = client_fd, remote_ip = zeros 46, remote_port = 0\<rparr>,
      cs_state = SESSION_READING_HEADER, cs_header_buf = [],
      cs_payload_buf = None, cs_payload_total = 0, cs_header = empty_header,
      cs_response_buf = None, cs_response_len = 0, cs_response_bytes_sent = 0\<rparr>"

text \<open>The session at address \<open>p\<close>; both buffers and the session itself are freed.\<close>

definition session_destroy :: "'k machine \<Rightarrow> nat \<Rightarrow> ClientSession \<Rightarrow> 'k program \<Rightarrow> 'k program" where
  "session_destroy M p session = (\<lambda>(loop, w).
     let (rc, loop, w) = (if sockfd (cs_conn session) \<ge> 0
                          then loop_del_fd (lift_poller (m_poller M)) loop (sockfd (cs_conn session)) w
                          else (0, loop, w));
         (conn, k) = tcp_close (m_kernel M) (cs_conn session) (w_kernel w)
     in (loop, w\<lparr>w_kernel := k, w_sessions := (w_sessions w)(p := None)\<rparr>))"

section \<open>State handlers\<close>

definition handle_reading_header :: "'k machine \<Rightarrow> ClientSession \<times> 'k world \<Rightarrow> int \<times> ClientSession \<times> 'k world" where
  "handle_reading_header M = (\<lambda>(session, w).
     let ((n, d), k) = read_into_buffer (m_kernel M) (sockfd (cs_conn session)) (length (cs_header_buf session))
                         sizeof_RpcHeader (w_kernel w);
         w = w\<lparr>w_kernel := k\<rparr>
     in if n < 0 then (-1, session, w)
        else if n = 0 then (0, session, w)
        else
          let session = session\<lparr>cs_header_buf := cs_header_buf session @ d\<rparr>
          in if length (cs_header_buf session) = sizeof_RpcHeader
             then
               let header = serializer_unpack_rpc (m_endian M) (cs_header_buf session);
                   session = session\<lparr>cs_header := header\<rparr>
               in if magic header \<noteq> RPC_MAGIC then (-1, session, w)
                  else if payload_len header > MAX_PAYLOAD_SIZE then (-1, session, w)
                  else if payload_len header > 0
                  then
                    if \<not> m_payload_mem M w then (-1, session, w)
                    else (0, session\<lparr>cs_payload_buf := Some [],
                                     cs_payload_total := unat (payload_len header),
                                     cs_state := SESSION_READING_PAYLOAD\<rparr>, w)
                  else (0, session\<lparr>cs_state := SESSION_PROCESSING\<rparr>, w)
             else (0, session, w))"

definition payload_of :: "ClientSession \<Rightarrow> bytes" where
  "payload_of session = (case cs_payload_buf session of None \<Rightarrow> [] | Some d \<Rightarrow> d)"

definition handle_reading_payload :: "'k machine \<Rightarrow> ClientSession \<times> 'k world \<Rightarrow> int \<times> ClientSession \<times> 'k world" where
  "handle_reading_payload M = (\<lambda>(session, w).
     let ((n, d), k) = read_into_buffer (m_kernel M) (sockfd (cs_conn session)) (length (payload_of session))
                         (cs_payload_total session) (w_kernel w);
         w = w\<lparr>w_kernel := k\<rparr>
     in if n < 0 then (-1, session, w)
        else if n = 0 then (0, session, w)
        else
          let session = session\<lparr>cs_payload_buf := Some (payload_of session @ d)\<rparr>
          in if length (payload_of session) = cs_payload_total session
             then (0, session\<lparr>cs_state := SESSION_PROCESSING\<rparr>, w)
             else (0, session, w))"

definition response_header :: "RpcHeader \<Rightarrow> nat \<Rightarrow> RpcHeader" where
  "response_header request resp_len =
     \<lparr>magic = RPC_MAGIC, version = 1, command_type = RPC_CMD_JOIN_RESP, payload_len = of_nat resp_len,
      origin_id = (strncpy (zeros 37) (origin_id request) 36)[36 := 0], request_id = zeros 37\<rparr>"

definition sizeof_SyncRulesHeader :: nat where "sizeof_SyncRulesHeader = 64 + 4"

text \<open>\<open>p\<close> is the address of the session, the context of its callback.\<close>

definition handle_processing ::
  "'k machine \<Rightarrow> nat \<Rightarrow> ClientSession \<times> 'k program \<Rightarrow> int \<times> ClientSession \<times> 'k program" where
  "handle_processing M p = (\<lambda>(session, loop, w).
     let cmd = command_type (cs_header session)
     in if cmd = RPC_CMD_JOIN_REQ
        then
          if cs_payload_total session \<noteq> sizeof_JoinRequestPayload then (-1, session, loop, w)
          else
            let req = join_request_read (m_endian M) (payload_of session);
                (rc, resp, cm) = cluster_handle_join_req (m_endian M) (m_realloc M w) (m_fresh M w) (m_wall M w) req (w_cluster w);
                w = w\<lparr>w_cluster := cm\<rparr>
            in if rc \<noteq> 0 then (-1, session, loop, w)
               else
                 (case resp of
                    None \<Rightarrow> (-1, session, loop, w)
                  | Some payload \<Rightarrow>
                      let session = session\<lparr>cs_response_len := sizeof_RpcHeader + length payload\<rparr>
                      in if \<not> m_response_mem M w then (-1, session, loop, w)
                         else
                           let session = session\<lparr>cs_response_buf :=
                                   Some (serializer_pack_rpc (m_endian M)
                                           (response_header (cs_header session) (length payload)) @ payload),
                                 cs_state := SESSION_SENDING_RESPONSE\<rparr>;
                               (rc, loop, w) = loop_mod_fd (lift_poller (m_poller M)) loop (sockfd (cs_conn session))
                                   EVENT_WRITE (Some (OnClient p)) w
                           in if rc \<noteq> 0 then (-1, session, loop, w) else (0, session, loop, w))
        else if cmd = RPC_CMD_LEAVE
        then
          (0, session\<lparr>cs_state := SESSION_DONE\<rparr>, loop,
           w\<lparr>w_cluster := snd (cluster_update_member_status (m_clock M w) (origin_id (cs_header session))
                                 NODE_STATUS_DEAD (w_cluster w))\<rparr>)
        else if cmd = RPC_CMD_SYNC_RULES
        then
          if cs_payload_total session < sizeof_SyncRulesHeader then (-1, session, loop, w)
          else (0, session\<lparr>cs_state := SESSION_DONE\<rparr>, loop, w)
        else (-1, session, loop, w))"

definition handle_sending_response :: "'k machine \<Rightarrow> ClientSession \<times> 'k world \<Rightarrow> int \<times> ClientSession \<times> 'k world" where
  "handle_sending_response M = (\<lambda>(session, w).
     let (n, k) = write_from_buffer (m_kernel M) (sockfd (cs_conn session))
                    (case cs_response_buf session of None \<Rightarrow> [] | Some b \<Rightarrow> b)
                    (cs_response_bytes_sent session) (cs_response_len session) (w_kernel w);
         w = w\<lparr>w_kernel := k\<rparr>
     in if n < 0 then (-1, session, w)
        else if n = 0 then (0, session, w)
        else
          let session = session\<lparr>cs_response_bytes_sent := cs_response_bytes_sent session + nat n\<rparr>
          in if cs_response_bytes_sent session = cs_response_len session
             then (0, session\<lparr>cs_state := SESSION_DONE\<rparr>, w)
             else (0, session, w))"

section \<open>Event callbacks\<close>

text \<open>One pass of the loop in \<^verbatim>\<open>rpc_on_client_event\<close>: the result, whether to go on, and the new state.\<close>

definition client_pass ::
  "'k machine \<Rightarrow> nat \<Rightarrow> u32 \<Rightarrow> ClientSession \<times> 'k program \<Rightarrow> int \<times> bool \<times> ClientSession \<times> 'k program" where
  "client_pass M p events = (\<lambda>(session, loop, w).
     case cs_state session of
       SESSION_READING_HEADER \<Rightarrow>
         if events AND EVENT_READ \<noteq> 0
         then let (rc, session, w) = handle_reading_header M (session, w)
              in (rc, cs_state session = SESSION_PROCESSING, session, loop, w)
         else (0, False, session, loop, w)
     | SESSION_READING_PAYLOAD \<Rightarrow>
         if events AND EVENT_READ \<noteq> 0
         then let (rc, session, w) = handle_reading_payload M (session, w)
              in (rc, cs_state session = SESSION_PROCESSING, session, loop, w)
         else (0, False, session, loop, w)
     | SESSION_PROCESSING \<Rightarrow>
         let (rc, session, loop, w) = handle_processing M p (session, loop, w)
         in (rc, cs_state session = SESSION_SENDING_RESPONSE, session, loop, w)
     | SESSION_SENDING_RESPONSE \<Rightarrow>
         if events AND EVENT_WRITE \<noteq> 0
         then let (rc, session, w) = handle_sending_response M (session, w)
              in (rc, False, session, loop, w)
         else (0, False, session, loop, w)
     | SESSION_DONE \<Rightarrow> (-1, False, session, loop, w))"

fun rank :: "SessionState \<Rightarrow> nat" where
  "rank SESSION_READING_HEADER = 2"
| "rank SESSION_READING_PAYLOAD = 2"
| "rank SESSION_PROCESSING = 1"
| "rank SESSION_SENDING_RESPONSE = 0"
| "rank SESSION_DONE = 0"

lemma client_pass_rank:
  "client_pass M p events st = (rc, True, st') \<Longrightarrow> rank (cs_state (fst st')) < rank (cs_state (fst st))"
  by (cases st; cases "cs_state (fst st)")
    (auto simp: client_pass_def split: if_splits prod.splits)

function client_loop :: "'k machine \<Rightarrow> nat \<Rightarrow> u32 \<Rightarrow> ClientSession \<times> 'k program \<Rightarrow> int \<times> ClientSession \<times> 'k program" where
  "client_loop M p events st =
     (case client_pass M p events st of
        (rc, go_on, st') \<Rightarrow> if go_on \<and> rc = 0 then client_loop M p events st' else (rc, st'))"
  by pat_completeness auto
termination
  by (relation "measure (\<lambda>(M, p, events, st). rank (cs_state (fst st)))") (auto dest!: client_pass_rank [OF sym])

declare client_loop.simps [simp del]

definition rpc_on_client_event :: "'k machine \<Rightarrow> nat \<Rightarrow> u32 \<Rightarrow> 'k program \<Rightarrow> fault + 'k program" where
  "rpc_on_client_event M p events = (\<lambda>(loop, w).
     case w_sessions w p of
       None \<Rightarrow> Inl UseAfterFree
     | Some session \<Rightarrow>
         if events AND EVENT_ERROR \<noteq> 0 then Inr (session_destroy M p session (loop, w))
         else
           (case client_loop M p events (session, loop, w) of
              (rc, session, loop, w) \<Rightarrow>
                if rc < 0 then Inr (session_destroy M p session (loop, w))
                else Inr (loop, w\<lparr>w_sessions := (w_sessions w)(p \<mapsto> session)\<rparr>)))"

definition rpc_on_accept :: "'k machine \<Rightarrow> int \<Rightarrow> 'k program \<Rightarrow> 'k program" where
  "rpc_on_accept M server_fd = (\<lambda>(loop, w).
     case tcp_server_accept (m_kernel M) server_fd (w_kernel w) of
       ((rc, None), k) \<Rightarrow> (loop, w\<lparr>w_kernel := k\<rparr>)
     | ((rc, Some client), k) \<Rightarrow>
         let (ok, k) = net_set_nonblocking (m_kernel M) (sockfd client) k;
             w = w\<lparr>w_kernel := k\<rparr>
         in if \<not> ok then (loop, w\<lparr>w_kernel := snd (tcp_close (m_kernel M) client k)\<rparr>)
            else
              (case m_new_session M w of
                 None \<Rightarrow> (loop, w\<lparr>w_kernel := snd (tcp_close (m_kernel M) client k)\<rparr>)
               | Some p \<Rightarrow>
                   let session = (session_create (sockfd client))\<lparr>cs_conn := client\<rparr>;
                       w = w\<lparr>w_sessions := (w_sessions w)(p \<mapsto> session)\<rparr>;
                       (rc, loop, w) = loop_add_fd (lift_poller (m_poller M)) (m_new_context M (loop, w)) loop
                                         (sockfd client) EVENT_READ (Some (OnClient p)) w
                   in if rc \<noteq> 0 then session_destroy M p session (loop, w) else (loop, w)))"

end
