(* ===== verification/Cluster_Members.thy ===== *)
theory Cluster_Members
  imports Cluster_Manager
begin

text \<open>
  The properties of cluster membership: the invariant of the member list, what joining gives both sides, the
  failure detector, gossip and leaving.
\<close>

section \<open>The invariant\<close>

definition wf_member :: "NodeInfo \<Rightarrow> bool" where
  "wf_member n \<longleftrightarrow> wf_cbuf 37 (ni_node_id n) \<and> wf_cbuf 46 (ni_ip_address n)"

text \<open>No two members have the same identity, as C strings.\<close>

definition wf_cluster :: "ClusterManager \<Rightarrow> bool" where
  "wf_cluster cm \<longleftrightarrow>
     wf_member (cm_self cm) \<and> list_all wf_member (cm_members cm) \<and>
     length (cm_members cm) \<le> cm_member_capacity cm \<and>
     distinct (map (cstr \<circ> ni_node_id) (cm_members cm))"

lemma wf_cbuf_terminate: "wf_cbuf (Suc n) b \<Longrightarrow> b[n := 0] = b"
  using last_conv_nth [of b] by (auto simp: wf_cbuf_def list_update_same_conv)

lemma strncpy_zeros [simp]:
  "wf_cbuf 37 (strncpy (zeros 37) s 36)" "wf_cbuf 46 (strncpy (zeros 46) s 45)"
  "(strncpy (zeros 37) s 36)[36 := 0] = strncpy (zeros 37) s 36"
  "(strncpy (zeros 46) s 45)[45 := 0] = strncpy (zeros 46) s 45"
proof -
  show 1: "wf_cbuf 37 (strncpy (zeros 37) s 36)" and 2: "wf_cbuf 46 (strncpy (zeros 46) s 45)"
    using strncpy_wf [of 36 "zeros 37" s] strncpy_wf [of 45 "zeros 46" s] by simp_all
  show "(strncpy (zeros 37) s 36)[36 := 0] = strncpy (zeros 37) s 36"
    and "(strncpy (zeros 46) s 45)[45 := 0] = strncpy (zeros 46) s 45"
    using wf_cbuf_terminate [of 36] wf_cbuf_terminate [of 45] 1 2 by simp_all
qed

lemma strncpy_cong: "cstr a = cstr b \<Longrightarrow> strncpy dst a n = strncpy dst b n"
  by (simp add: strncpy_def)

text \<open>An identity of at most 36 characters survives the copy.\<close>

lemma cstr_copy_id: "wf_cbuf 37 s \<Longrightarrow> cstr (strncpy (zeros 37) s 36) = cstr s"
  using cstr_strncpy_fits [of 36 "zeros 37" s] length_cstr_wf [of 37 s] by (simp add: strlen_def)

lemma find_member_Some:
  "find_member i ms nid = Some j \<Longrightarrow>
     i \<le> j \<and> j < i + length ms \<and> streq (ni_node_id (ms ! (j - i))) nid"
  by (induction i ms nid rule: find_member.induct) (auto split: if_splits simp: nth_Cons')

lemma find_member_None: "find_member i ms nid = None \<longleftrightarrow> cstr nid \<notin> set (map (cstr \<circ> ni_node_id) ms)"
  by (induction i ms nid rule: find_member.induct) (auto simp: streq_def)

lemma find_member_bound:
  assumes "find_member 0 ms nid = Some j"
  shows "j < length ms" and "streq (ni_node_id (ms ! j)) nid"
  using find_member_Some [OF assms] by simp_all

text \<open>Replacing a member by one of the same identity.\<close>

lemma wf_cluster_update:
  assumes "wf_cluster cm" and "j < length (cm_members cm)" and "ni_node_id m = ni_node_id (cm_members cm ! j)"
    and "wf_member m"
  shows "wf_cluster (cm\<lparr>cm_members := (cm_members cm)[j := m]\<rparr>)"
proof -
  have "map (cstr \<circ> ni_node_id) ((cm_members cm)[j := m]) = map (cstr \<circ> ni_node_id) (cm_members cm)"
    using assms(2,3) by (simp add: map_update list_update_same_conv)
  moreover have "list_all wf_member ((cm_members cm)[j := m])"
    using assms by (auto simp: wf_cluster_def list_all_length nth_list_update)
  ultimately show ?thesis
    using assms(1) by (simp add: wf_cluster_def)
qed

lemma wf_cluster_add:
  assumes "wf_cluster cm" and "wf_member m" and "cstr (ni_node_id m) \<notin> set (map (cstr \<circ> ni_node_id) (cm_members cm))"
    and "length (cm_members cm) < cm_member_capacity cm"
  shows "wf_cluster (cm\<lparr>cm_members := cm_members cm @ [m]\<rparr>)"
  using assms by (auto simp: wf_cluster_def)

lemma ensure_capacity_frame [simp]:
  "cm_members (ensure_capacity b cm) = cm_members cm" "cm_self (ensure_capacity b cm) = cm_self cm"
  "cm_state (ensure_capacity b cm) = cm_state cm"
  by (simp_all add: ensure_capacity_def Let_def)

lemma ensure_capacity_wf: "wf_cluster cm \<Longrightarrow> wf_cluster (ensure_capacity b cm)"
  by (auto simp: ensure_capacity_def Let_def wf_cluster_def)

lemma ensure_capacity_room:
  "length (cm_members cm) \<le> cm_member_capacity cm \<Longrightarrow> length (cm_members cm) < cm_member_capacity (ensure_capacity True cm)"
  by (auto simp: ensure_capacity_def Let_def)

lemma wf_cluster_members:
  "wf_cluster cm \<Longrightarrow> j < length (cm_members cm) \<Longrightarrow> wf_member (cm_members cm ! j)"
  by (simp add: wf_cluster_def list_all_length)

lemma update_status_wf:
  assumes "wf_cluster cm"
  shows "wf_cluster (snd (cluster_update_member_status now nid st cm))"
proof -
  have "wf_cluster (cm\<lparr>cm_members := (cm_members cm)[j := (cm_members cm ! j)\<lparr>ni_status := st, ni_last_updated_ts := now\<rparr>]\<rparr>)"
    if "find_member 0 (cm_members cm) nid = Some j" for j
    using wf_cluster_members [OF assms find_member_bound(1) [OF that]] find_member_bound(1) [OF that]
    by (intro wf_cluster_update [OF assms]) (simp_all add: wf_member_def)
  then show ?thesis
    using assms by (simp add: cluster_update_member_status_def split: option.split)
qed

lemma admit_wf:
  assumes "wf_cluster cm" and "wf_cbuf 37 (jr_node_id req)" and "admit e mem wall req cm = Some cm'"
  shows "wf_cluster cm'"
proof (cases "find_member 0 (cm_members cm) (jr_node_id req)")
  case None
  then have "cstr (strncpy (zeros 37) (jr_node_id req) 36) \<notin> set (map (cstr \<circ> ni_node_id) (cm_members cm))"
    using assms(2) by (simp add: find_member_None cstr_copy_id del: set_map)
  then have "wf_cluster (ensure_capacity mem cm\<lparr>cm_members := cm_members cm @ [m]\<rparr>)"
    if "wf_member m" "ni_node_id m = strncpy (zeros 37) (jr_node_id req) 36"
      "length (cm_members cm) < cm_member_capacity (ensure_capacity mem cm)" for m
    using wf_cluster_add [OF ensure_capacity_wf [OF assms(1), of mem] that(1)] that(2,3) by (simp del: set_map)
  then show ?thesis
    using assms(3) None by (auto simp: admit_def Let_def wf_member_def split: if_splits)
next
  case (Some j)
  note j = find_member_bound(1) [OF Some]
  have "wf_member (cm_members cm ! j)"
    by (rule wf_cluster_members [OF assms(1) j])
  then show ?thesis
    using assms(3) Some j strncpy_wf [of 45]
    by (auto simp: admit_def Let_def wf_member_def intro!: wf_cluster_update [OF assms(1)])
qed

lemma reaper_wf: "wf_cluster cm \<Longrightarrow> wf_cluster (cluster_reaper_tick now cm)"
proof -
  have "ni_node_id (reap now self m) = ni_node_id m" "ni_ip_address (reap now self m) = ni_ip_address m" for self m
    by (simp_all add: reap_def Let_def)
  then show "wf_cluster cm \<Longrightarrow> wf_cluster (cluster_reaper_tick now cm)"
    by (simp add: wf_cluster_def cluster_reaper_tick_def list_all_iff wf_member_def comp_def)
qed

lemma gossip_wf: "wf_cluster cm \<Longrightarrow> wf_cluster (fst (on_gossip_receive K e now sock (cm, k)))"
  by (simp add: on_gossip_receive_def Let_def split_beta update_status_wf)


definition sample_cluster :: ClusterManager where
  "sample_cluster = cluster_init ROLE_CONTROL_NODE [115, 49] [49, 46, 49] 9000 100"

definition sample_request :: JoinRequestPayload where
  "sample_request =
     \<lparr>jr_node_id = strncpy (zeros 37) [110, 50] 36, jr_ip_address = strncpy (zeros 46) [49, 46, 50] 45,
      jr_tcp_port = 1, jr_udp_port = 2, jr_role = 512\<rparr>"

definition sample_fresh :: "nat \<Rightarrow> bytes option" where
  "sample_fresh n = Some (replicate n 170)"

lemma sample_cluster_wf: "wf_cluster sample_cluster"
  by (simp add: sample_cluster_def cluster_init_def wf_cluster_def wf_member_def)


section \<open>Joining\<close>

lemma node_info_image_length:
  "wf_member n \<Longrightarrow> length old = sizeof_NodeInfo \<Longrightarrow> length (node_info_image e old n) = sizeof_NodeInfo"
  by (simp add: node_info_image_def wf_member_def wf_cbuf_def cluster_sizes)

lemma node_info_read_image:
  assumes "wf_member n" and "length old = sizeof_NodeInfo"
  shows "node_info_read e (node_info_image e old n) = n"
  using assms
  by (simp add: node_info_image_def node_info_read_def wf_member_def wf_cbuf_def cluster_sizes field_simps_at
      host_word_host_bytes nth_append field_at_Cons)

text \<open>The identities, addresses, role and status of a member: what a response carries to the joining node.\<close>

definition known :: "NodeInfo \<Rightarrow> bytes \<times> bytes \<times> u16 \<times> u16 \<times> u32 \<times> u32" where
  "known n = (ni_node_id n, ni_ip_address n, ni_tcp_port n, ni_udp_port n, ni_role n, ni_status n)"

definition short_enums :: "NodeInfo \<Rightarrow> bool" where
  "short_enums n \<longleftrightarrow> ni_role n < 2 ^ 16 \<and> ni_status n < 2 ^ 16"

lemma enum_roundtrip:
  assumes "(r :: u32) < 2 ^ 16"
  shows "(ucast (swap_net e 2 (ucast (ucast (swap_net e 2 (ucast r :: u16)) :: u32) :: u16)) :: u32) = r"
proof -
  have "(ucast (ucast (swap_net e 2 (ucast r :: u16)) :: u32) :: u16) = swap_net e 2 (ucast r :: u16)"
    by (rule bit_word_eqI) (simp add: bit_simps)
  then have "(ucast (swap_net e 2 (ucast (ucast (swap_net e 2 (ucast r :: u16)) :: u32) :: u16)) :: u32) = ucast (ucast r :: u16)"
    by (simp add: swap_net_swap_net)
  also have "\<dots> = take_bit 16 r"
    by (rule bit_word_eqI) (auto simp: bit_simps)
  also have "\<dots> = r"
    using assms by (simp add: word_unat_eq_iff unsigned_take_bit_eq word_less_nat_alt take_bit_nat_eq_self)
  finally show ?thesis .
qed

lemma wire_member_known:
  assumes "short_enums n"
  shows "known ((old :: NodeInfo)\<lparr>ni_node_id := ni_node_id (wire_member e n), ni_ip_address := ni_ip_address (wire_member e n),
      ni_tcp_port := ntohs e (ni_tcp_port (wire_member e n)), ni_udp_port := ntohs e (ni_udp_port (wire_member e n)),
      ni_role := ucast (ntohs e (ucast (ni_role (wire_member e n)))),
      ni_status := ucast (ntohs e (ucast (ni_status (wire_member e n)))), ni_last_updated_ts := now\<rparr>) = known n"
  using assms by (simp add: known_def wire_member_def swap_net_swap_net enum_roundtrip short_enums_def)

lemma wire_member_wf [simp]: "wf_member (wire_member e n) = wf_member n"
  by (simp add: wf_member_def wire_member_def)

text \<open>The import loop over the images of a list of members.\<close>

lemma import_images:
  assumes "list_all wf_member ns" and "list_all short_enums ns" and "length (cm_members cm) \<le> cm_member_capacity cm"
    and "\<And>j. j < length ns \<Longrightarrow> \<exists>o'. length o' = sizeof_NodeInfo \<and>
      field_at ((i + j) * sizeof_NodeInfo) sizeof_NodeInfo nodes = node_info_image e o' (wire_member e (ns ! j))"
    and "(i + length ns) * sizeof_NodeInfo \<le> length nodes"
  shows "\<exists>cm'. import_members e (\<lambda>_. True) old now nodes i (length ns) cm = Inr cm' \<and>
    cm_self cm' = cm_self cm \<and> length (cm_members cm') \<le> cm_member_capacity cm' \<and>
    (\<exists>new. cm_members cm' = cm_members cm @ new \<and>
      map known new = map known (filter (\<lambda>n. \<not> streq (ni_node_id n) (ni_node_id (cm_self cm))) ns) \<and>
      (\<forall>n \<in> set new. ni_last_updated_ts n = now))"
  using assms
proof (induction ns arbitrary: i cm)
  case Nil
  then show ?case by simp
next
  case (Cons n ns)
  obtain o' where o': "length o' = sizeof_NodeInfo"
    and img: "field_at (i * sizeof_NodeInfo) sizeof_NodeInfo nodes = node_info_image e o' (wire_member e n)"
    using Cons.prems(4) [of 0] by auto
  have src: "node_info_read e (field_at (i * sizeof_NodeInfo) sizeof_NodeInfo nodes) = wire_member e n"
    using Cons.prems(1) o' by (simp add: img node_info_read_image)
  have room: "\<not> length nodes < (i + 1) * sizeof_NodeInfo"
    using Cons.prems(5) by (simp add: algebra_simps)
  have rest: "\<And>j. j < length ns \<Longrightarrow> \<exists>o'. length o' = sizeof_NodeInfo \<and>
      field_at ((i + 1 + j) * sizeof_NodeInfo) sizeof_NodeInfo nodes = node_info_image e o' (wire_member e (ns ! j))"
    using Cons.prems(4) [of "Suc _"] by simp
  have len: "(i + 1 + length ns) * sizeof_NodeInfo \<le> length nodes"
    using Cons.prems(5) by simp
  note IH = Cons.IH [OF _ _ _ rest len]
  have same: "ni_node_id (wire_member e n) = ni_node_id n"
    by (simp add: wire_member_def)
  show ?case
  proof (cases "streq (ni_node_id n) (ni_node_id (cm_self cm))")
    case True
    then show ?thesis
      using IH [of cm] Cons.prems(1-3) room src same by (auto simp: Let_def)
  next
    case False
    let ?w = "wire_member e n"
    let ?dst = "(old i)\<lparr>ni_node_id := ni_node_id ?w, ni_ip_address := ni_ip_address ?w,
      ni_tcp_port := ntohs e (ni_tcp_port ?w), ni_udp_port := ntohs e (ni_udp_port ?w),
      ni_role := ucast (ntohs e (ucast (ni_role ?w))), ni_status := ucast (ntohs e (ucast (ni_status ?w))),
      ni_last_updated_ts := now\<rparr>"
    let ?cm = "(ensure_capacity True cm)\<lparr>cm_members := cm_members cm @ [?dst]\<rparr>"
    have cap: "length (cm_members cm) < cm_member_capacity (ensure_capacity True cm)"
      by (rule ensure_capacity_room [OF Cons.prems(3)])
    have run: "import_members e (\<lambda>_. True) old now nodes i (length (n # ns)) cm =
        import_members e (\<lambda>_. True) old now nodes (i + 1) (length ns) ?cm"
      using room src same False cap by (simp add: Let_def)
    have "length (cm_members ?cm) \<le> cm_member_capacity ?cm"
      using cap by simp
    then obtain cm' new where *: "import_members e (\<lambda>_. True) old now nodes (i + 1) (length ns) ?cm = Inr cm'"
      "cm_self cm' = cm_self ?cm" "length (cm_members cm') \<le> cm_member_capacity cm'"
      "cm_members cm' = cm_members ?cm @ new"
      "map known new = map known (filter (\<lambda>n. \<not> streq (ni_node_id n) (ni_node_id (cm_self ?cm))) ns)"
      "\<forall>n \<in> set new. ni_last_updated_ts n = now"
      using IH [of ?cm] Cons.prems(1,2) by auto
    have "known ?dst = known n"
      using Cons.prems(2) by (intro wire_member_known) simp
    then show ?thesis
      using * False unfolding run by (intro exI [of _ cm'] conjI exI [of _ "?dst # new"]) simp_all
  qed
qed

lemma member_images_length:
  "list_all wf_member ns \<Longrightarrow> length old = length ns * sizeof_NodeInfo \<Longrightarrow>
     length (member_images e old ns) = length ns * sizeof_NodeInfo"
  by (induction ns arbitrary: old) (simp_all add: node_info_image_length)

lemma member_images_nth:
  assumes "list_all wf_member ns" and "length old = length ns * sizeof_NodeInfo" and "j < length ns"
  shows "\<exists>o'. length o' = sizeof_NodeInfo \<and>
    field_at (j * sizeof_NodeInfo) sizeof_NodeInfo (member_images e old ns) = node_info_image e o' (wire_member e (ns ! j))"
  using assms
proof (induction ns arbitrary: old j)
  case (Cons n ns)
  let ?img = "node_info_image e (take sizeof_NodeInfo old) (wire_member e n)"
  have len: "length ?img = sizeof_NodeInfo"
    using Cons.prems(1,2) by (intro node_info_image_length) simp_all
  show ?case
  proof (cases j)
    case 0
    then show ?thesis
      using len Cons.prems(2) by (intro exI [of _ "take sizeof_NodeInfo old"]) (simp add: field_at_0)
  next
    case (Suc i)
    have "field_at (j * sizeof_NodeInfo) sizeof_NodeInfo (member_images e old (n # ns)) =
        field_at (i * sizeof_NodeInfo) sizeof_NodeInfo (member_images e (drop sizeof_NodeInfo old) ns)"
      using len Suc by (simp add: field_at_skip)
    then show ?thesis
      using Cons.IH [of "drop sizeof_NodeInfo old" i] Cons.prems Suc by simp
  qed
qed simp

lemma admit_members:
  assumes "wf_cluster cm" and "wf_cbuf 37 (jr_node_id req)" and "admit e mem wall req cm = Some cm'"
  shows "cm_self cm' = cm_self cm" and "\<exists>m \<in> set (cm_members cm'). streq (ni_node_id m) (jr_node_id req) \<and>
      ni_status m = NODE_STATUS_ALIVE \<and> ni_tcp_port m = ntohs e (jr_tcp_port req) \<and> ni_last_updated_ts m = wall"
    and "list_all short_enums (cm_members cm) \<Longrightarrow> list_all short_enums (cm_members cm')"
    and "length (cm_members cm') \<le> length (cm_members cm) + 1"
proof -
  have role: "(ucast (r :: u16) :: u32) < 2 ^ 16" for r
    using unsigned_less [of r, where ?'a = nat]
    by (simp add: word_less_nat_alt unsigned_ucast_eq le_less_trans [OF take_bit_nat_less_eq_self])
  have alive: "NODE_STATUS_ALIVE < 2 ^ 16"
    by (simp add: status_defs)
  consider j where "find_member 0 (cm_members cm) (jr_node_id req) = Some j" | "find_member 0 (cm_members cm) (jr_node_id req) = None"
    by (cases "find_member 0 (cm_members cm) (jr_node_id req)") auto
  then show "cm_self cm' = cm_self cm"
    using assms(3) by cases (auto simp: admit_def Let_def split: if_splits)
  show "\<exists>m \<in> set (cm_members cm'). streq (ni_node_id m) (jr_node_id req) \<and>
      ni_status m = NODE_STATUS_ALIVE \<and> ni_tcp_port m = ntohs e (jr_tcp_port req) \<and> ni_last_updated_ts m = wall"
  proof (cases "find_member 0 (cm_members cm) (jr_node_id req)")
    case None
    then show ?thesis
      using assms(3) cstr_copy_id [OF assms(2)] by (auto simp: admit_def Let_def streq_def split: if_splits)
  next
    case (Some j)
    then show ?thesis
      using assms(3) find_member_bound [OF Some] by (auto simp: admit_def Let_def intro!: bexI [OF _ set_update_memI])
  qed
  show "list_all short_enums (cm_members cm')" if "list_all short_enums (cm_members cm)"
  proof (cases "find_member 0 (cm_members cm) (jr_node_id req)")
    case None
    then show ?thesis
      using assms(3) that role alive by (auto simp: admit_def Let_def short_enums_def simp del: power_numeral split: if_splits)
  next
    case (Some j)
    then show ?thesis
      using assms(3) that role alive find_member_bound(1) [OF Some]
      by (auto simp: admit_def Let_def short_enums_def list_all_length nth_list_update simp del: power_numeral)
  qed
  show "length (cm_members cm') \<le> length (cm_members cm) + 1"
    using assms(3) by (auto simp: admit_def Let_def split: option.splits if_splits)
qed

lemma register_seed_lists:
  assumes "length (cm_members cm) \<le> cm_member_capacity cm" and "wf_cbuf 37 seed_id"
  shows "\<exists>rest. cm_members (register_seed True now ip port seed_id cm) = cm_members cm @ rest \<and>
      (\<forall>n \<in> set rest. ni_last_updated_ts n = now)"
    and "\<exists>m \<in> set (cm_members (register_seed True now ip port seed_id cm)). streq (ni_node_id m) seed_id"
proof -
  show "\<exists>rest. cm_members (register_seed True now ip port seed_id cm) = cm_members cm @ rest \<and>
      (\<forall>n \<in> set rest. ni_last_updated_ts n = now)"
    by (auto simp: register_seed_def Let_def)
  show "\<exists>m \<in> set (cm_members (register_seed True now ip port seed_id cm)). streq (ni_node_id m) seed_id"
  proof (cases "find_member 0 (cm_members cm) seed_id")
    case None
    then show ?thesis
      using ensure_capacity_room [OF assms(1)] cstr_copy_id [OF assms(2)] by (simp add: register_seed_def Let_def streq_def)
  next
    case (Some j)
    then show ?thesis
      using find_member_bound [OF Some] by (auto simp: register_seed_def)
  qed
qed

lemma response_read:
  assumes "wf_cluster cm" and "length old = sizeof_JoinResponseHeader + length (cm_members cm) * sizeof_NodeInfo"
  shows "length (join_response e old cm) = length old"
    and "response_header_read e (join_response e old cm) =
      \<lparr>js_status = 0, js_member_count = htonl e (of_nat (length (cm_members cm))),
       js_responder_id = strncpy (zeros 37) (ni_node_id (cm_self cm)) 36\<rparr>"
    and "drop sizeof_JoinResponseHeader (join_response e old cm) =
      member_images e (drop sizeof_JoinResponseHeader old) (cm_members cm)"
proof -
  let ?h = "response_header_image e \<lparr>js_status = 0, js_member_count = htonl e (of_nat (length (cm_members cm))),
      js_responder_id = strncpy (zeros 37) (ni_node_id (cm_self cm)) 36\<rparr>"
  have len: "length ?h = sizeof_JoinResponseHeader"
    by (simp add: response_header_image_def cluster_sizes length_strncpy)
  have resp: "join_response e old cm = ?h @ member_images e (drop sizeof_JoinResponseHeader old) (cm_members cm)"
    by (simp add: join_response_def)
  have "list_all wf_member (cm_members cm)"
    using assms(1) by (simp add: wf_cluster_def)
  then have "length (member_images e (drop sizeof_JoinResponseHeader old) (cm_members cm)) = length (cm_members cm) * sizeof_NodeInfo"
    using assms(2) by (intro member_images_length) simp_all
  then show "length (join_response e old cm) = length old"
    using len assms(2) by (simp add: resp)
  show "drop sizeof_JoinResponseHeader (join_response e old cm) =
      member_images e (drop sizeof_JoinResponseHeader old) (cm_members cm)"
    using len by (simp add: resp)
  show "response_header_read e (join_response e old cm) =
      \<lparr>js_status = 0, js_member_count = htonl e (of_nat (length (cm_members cm))),
       js_responder_id = strncpy (zeros 37) (ni_node_id (cm_self cm)) 36\<rparr>"
    by (simp add: resp response_header_read_def response_header_image_def field_simps_at host_word_host_bytes length_strncpy)
qed

text \<open>Processing the response of a seed.\<close>

lemma process_response_run:
  assumes "wf_cluster seed" and "list_all short_enums (cm_members seed)" and "length (cm_members seed) < 2 ^ 32"
    and "length old = sizeof_JoinResponseHeader + length (cm_members seed) * sizeof_NodeInfo"
    and "length (cm_members cm) \<le> cm_member_capacity cm"
  shows "\<exists>cm' new rest. process_join_response e (\<lambda>_. True) True slots now ip port (join_response e old seed) cm = Inr cm' \<and>
    cm_members cm' = cm_members cm @ new @ rest \<and>
    map known new = map known (filter (\<lambda>n. \<not> streq (ni_node_id n) (ni_node_id (cm_self cm))) (cm_members seed)) \<and>
    (\<forall>n \<in> set (new @ rest). ni_last_updated_ts n = now) \<and>
    (\<exists>m \<in> set (cm_members cm'). streq (ni_node_id m) (ni_node_id (cm_self seed)))"
proof -
  let ?nodes = "member_images e (drop sizeof_JoinResponseHeader old) (cm_members seed)"
  let ?id = "strncpy (zeros 37) (ni_node_id (cm_self seed)) 36"
  have wf: "list_all wf_member (cm_members seed)" and self: "wf_cbuf 37 (ni_node_id (cm_self seed))"
    using assms(1) by (simp_all add: wf_cluster_def wf_member_def)
  have len: "length (drop sizeof_JoinResponseHeader old) = length (cm_members seed) * sizeof_NodeInfo"
    using assms(4) by simp
  have "\<exists>o'. length o' = sizeof_NodeInfo \<and>
      field_at ((0 + j) * sizeof_NodeInfo) sizeof_NodeInfo ?nodes = node_info_image e o' (wire_member e (cm_members seed ! j))"
    if "j < length (cm_members seed)" for j
    using member_images_nth [OF wf len that] by simp
  then obtain cm1 new where imp: "import_members e (\<lambda>_. True) slots now ?nodes 0 (length (cm_members seed)) cm = Inr cm1"
    and cm1: "cm_self cm1 = cm_self cm" "length (cm_members cm1) \<le> cm_member_capacity cm1" "cm_members cm1 = cm_members cm @ new"
      "map known new = map known (filter (\<lambda>n. \<not> streq (ni_node_id n) (ni_node_id (cm_self cm))) (cm_members seed))"
      "\<forall>n \<in> set new. ni_last_updated_ts n = now"
    using import_images [OF wf assms(2,5), of 0 ?nodes e slots now] member_images_length [OF wf len, of e] by auto
  have count: "unat (ntohl e (htonl e (of_nat (length (cm_members seed))))) = length (cm_members seed)"
    using assms(3) by (simp add: swap_net_swap_net unat_of_nat_32)
  let ?cm' = "register_seed True now ip port ?id cm1"
  have copy: "strncpy (zeros 37) ?id 36 = ?id"
    by (rule strncpy_cong [OF cstr_copy_id [OF self]])
  have run: "process_join_response e (\<lambda>_. True) True slots now ip port (join_response e old seed) cm = Inr ?cm'"
    using imp count assms(4) copy
    by (simp add: process_join_response_def response_read [OF assms(1,4)] Let_def)
  obtain rest where "cm_members ?cm' = cm_members cm1 @ rest" "\<forall>n \<in> set rest. ni_last_updated_ts n = now"
    using register_seed_lists(1) [OF cm1(2), of ?id now ip port] by auto
  moreover have "\<exists>m \<in> set (cm_members ?cm'). streq (ni_node_id m) (ni_node_id (cm_self seed))"
    using register_seed_lists(2) [OF cm1(2), of ?id now ip port] cstr_copy_id [OF self] by (auto simp: streq_def)
  ultimately show ?thesis
    using run cm1 by (intro exI [of _ ?cm'] exI [of _ new] exI [of _ rest]) auto
qed

text \<open>
  A node that joins through a seed of the same byte order ends up with the seed's view: the seed lists it as alive under
  its address, the node lists every other member the seed knows with the same identity, addresses, role and status, the
  seed itself, and each with the local time of the join.
\<close>

lemma join_exchange:
  assumes "wf_cluster seed" and "wf_cluster joiner" and "cm_members joiner = []"
    and "list_all short_enums (cm_members seed)" and "length (cm_members seed) + 1 < 2 ^ 32"
    and fresh: "\<And>n. \<exists>old. fresh n = Some old \<and> length old = n"
  shows "\<exists>payload seed' joiner' new rest. length payload = sizeof_JoinResponseHeader + length (cm_members seed') * sizeof_NodeInfo \<and>
    length (cm_members seed') \<le> length (cm_members seed) + 1 \<and>
    cluster_handle_join_req e True fresh wall (join_request e joiner) seed = (0, Some payload, seed') \<and>
    process_join_response e (\<lambda>_. True) True slots now ip port payload joiner = Inr joiner' \<and>
    (\<exists>m \<in> set (cm_members seed'). streq (ni_node_id m) (ni_node_id (cm_self joiner)) \<and>
       ni_status m = NODE_STATUS_ALIVE \<and> ni_tcp_port m = ni_tcp_port (cm_self joiner)) \<and>
    cm_members joiner' = new @ rest \<and>
    map known new = map known (filter (\<lambda>n. \<not> streq (ni_node_id n) (ni_node_id (cm_self joiner))) (cm_members seed')) \<and>
    (\<exists>m \<in> set (cm_members joiner'). streq (ni_node_id m) (ni_node_id (cm_self seed))) \<and>
    (\<forall>n \<in> set (cm_members joiner'). ni_last_updated_ts n = now)"
proof -
  let ?req = "join_request e joiner"
  have id: "wf_cbuf 37 (jr_node_id ?req)"
    by (simp add: join_request_def)
  have "streq (jr_node_id ?req) (ni_node_id (cm_self joiner))" and port: "ntohs e (jr_tcp_port ?req) = ni_tcp_port (cm_self joiner)"
    using assms(2) by (simp_all add: join_request_def streq_def cstr_copy_id wf_cluster_def wf_member_def swap_net_swap_net)
  have "length (cm_members seed) \<le> cm_member_capacity seed"
    using assms(1) by (simp add: wf_cluster_def)
  then obtain seed' where adm: "admit e True wall ?req seed = Some seed'"
    using ensure_capacity_room [of seed] by (fastforce simp: admit_def Let_def split: option.split)
  note adm' = admit_members [OF assms(1) id adm]
  have wf': "wf_cluster seed'"
    by (rule admit_wf [OF assms(1) id adm])
  obtain old where old: "fresh (sizeof_JoinResponseHeader + length (cm_members seed') * sizeof_NodeInfo) = Some old"
    "length old = sizeof_JoinResponseHeader + length (cm_members seed') * sizeof_NodeInfo"
    using fresh by blast
  have small: "length (cm_members seed') < 2 ^ 32"
    using adm'(4) assms(5) by linarith
  have cap: "length (cm_members joiner) \<le> cm_member_capacity joiner"
    using assms(2) by (simp add: wf_cluster_def)
  obtain joiner' new rest where run: "process_join_response e (\<lambda>_. True) True slots now ip port (join_response e old seed') joiner = Inr joiner'"
    "cm_members joiner' = cm_members joiner @ new @ rest"
    "map known new = map known (filter (\<lambda>n. \<not> streq (ni_node_id n) (ni_node_id (cm_self joiner))) (cm_members seed'))"
    "\<forall>n \<in> set (new @ rest). ni_last_updated_ts n = now"
    "\<exists>m \<in> set (cm_members joiner'). streq (ni_node_id m) (ni_node_id (cm_self seed'))"
    using process_response_run [OF wf' adm'(3) [OF assms(4)] small old(2) cap, of e slots now ip port]
    by (elim exE conjE)
  have "cluster_handle_join_req e True fresh wall ?req seed = (0, Some (join_response e old seed'), seed')"
    using adm old(1) by (simp add: cluster_handle_join_req_def)
  moreover have "\<exists>m \<in> set (cm_members seed'). streq (ni_node_id m) (ni_node_id (cm_self joiner)) \<and>
       ni_status m = NODE_STATUS_ALIVE \<and> ni_tcp_port m = ni_tcp_port (cm_self joiner)"
    using adm'(2) port \<open>streq (jr_node_id ?req) _\<close> streq_trans by metis
  ultimately show ?thesis
    using run adm'(1,4) assms(3) response_read(1) [OF wf' old(2), of e] old(2) by auto
qed

definition sample_joiner :: ClusterManager where
  "sample_joiner = cluster_init ROLE_WORKER_NODE [110, 50] [49, 46, 50] 9001 5"

definition sample_slot :: NodeInfo where
  "sample_slot = cm_self sample_joiner"

section \<open>Failure detection\<close>

definition silent :: "u64 \<Rightarrow> NodeInfo \<Rightarrow> u64 \<Rightarrow> bool" where
  "silent d m now \<longleftrightarrow> ni_last_updated_ts m < now \<and> d < now - ni_last_updated_ts m"

definition verdict :: "u64 list \<Rightarrow> NodeInfo \<Rightarrow> u32" where
  "verdict ticks m =
     (if list_ex (silent 3000 m) ticks then NODE_STATUS_DEAD
      else if list_ex (silent 1500 m) ticks \<and> ni_status m = NODE_STATUS_ALIVE then NODE_STATUS_SUSPECT
      else ni_status m)"

lemma silent_longer: "silent 3000 m now \<Longrightarrow> silent 1500 m now"
  by (auto simp: silent_def intro: less_trans [of 1500 3000])

lemma reap_eq:
  "\<not> streq (ni_node_id m) self \<Longrightarrow> reap now self m = m\<lparr>ni_status := verdict [now] m\<rparr>"
  using silent_longer [of m now] by (auto simp: reap_def verdict_def silent_def Let_def)

lemma verdict_Cons:
  "verdict ticks (m\<lparr>ni_status := verdict [t] m\<rparr>) = verdict (t # ticks) m"
proof -
  have "silent d (m\<lparr>ni_status := st\<rparr>) = silent d m" for d st
    by (auto simp: silent_def fun_eq_iff)
  then show ?thesis
    using silent_longer by (auto simp: verdict_def status_defs)
qed

lemma reaper_fold:
  assumes "i < length (cm_members cm)" and "\<not> streq (ni_node_id (cm_members cm ! i)) (ni_node_id (cm_self cm))"
  shows "cm_members (fold cluster_reaper_tick ticks cm) ! i =
    (cm_members cm ! i)\<lparr>ni_status := verdict ticks (cm_members cm ! i)\<rparr>"
  using assms
proof (induction ticks arbitrary: cm)
  case Nil
  then show ?case by (simp add: verdict_def)
next
  case (Cons t ticks)
  let ?cm = "cluster_reaper_tick t cm"
  have i: "cm_members ?cm ! i = (cm_members cm ! i)\<lparr>ni_status := verdict [t] (cm_members cm ! i)\<rparr>"
    using Cons.prems by (simp add: cluster_reaper_tick_def reap_eq)
  have "cm_members (fold cluster_reaper_tick ticks ?cm) ! i =
      (cm_members ?cm ! i)\<lparr>ni_status := verdict ticks (cm_members ?cm ! i)\<rparr>"
    using Cons.prems i by (intro Cons.IH) (simp_all add: cluster_reaper_tick_def)
  then show ?case
    by (simp add: i verdict_Cons)
qed

text \<open>C33: After any sequence of failure detector ticks a member that was not heard of is dead when one tick came more than
  3000 ms after its last sign of life, suspect when one came more than 1500 ms after it and it was alive, and
  unchanged otherwise; nothing but the status changes and a dead member is never revived.\<close>

theorem failure_detection:
  assumes "i < length (cm_members cm)" and "\<not> streq (ni_node_id (cm_members cm ! i)) (ni_node_id (cm_self cm))"
  shows "cm_members (fold cluster_reaper_tick ticks cm) ! i =
    (cm_members cm ! i)\<lparr>ni_status :=
       (if \<exists>now \<in> set ticks. silent 3000 (cm_members cm ! i) now then NODE_STATUS_DEAD
        else if (\<exists>now \<in> set ticks. silent 1500 (cm_members cm ! i) now) \<and> ni_status (cm_members cm ! i) = NODE_STATUS_ALIVE
        then NODE_STATUS_SUSPECT
        else ni_status (cm_members cm ! i))\<rparr>"
  using reaper_fold [OF assms] by (simp add: verdict_def list_ex_iff)

definition sample_members :: ClusterManager where
  "sample_members =
     sample_cluster\<lparr>cm_member_capacity := 8, cm_members :=
       [(cm_self sample_joiner)\<lparr>ni_last_updated_ts := 1000\<rparr>]\<rparr>"

theorem failure_detection_witness:
  "ni_status (cm_members (fold cluster_reaper_tick [1500, 2600, 4100] sample_members) ! 0) = NODE_STATUS_DEAD \<and>
   ni_status (cm_members (fold cluster_reaper_tick [1500, 2600] sample_members) ! 0) = NODE_STATUS_SUSPECT"
proof -
  have 1: "0 < length (cm_members sample_members)" "ni_last_updated_ts (cm_members sample_members ! 0) = 1000"
    "ni_status (cm_members sample_members ! 0) = NODE_STATUS_ALIVE"
    by (simp_all add: sample_members_def sample_joiner_def cluster_init_def)
  have 2: "\<not> streq (ni_node_id (cm_members sample_members ! 0)) (ni_node_id (cm_self sample_members))"
    by code_simp
  show ?thesis
    using failure_detection [OF 1(1) 2, of "[1500, 2600, 4100]"] failure_detection [OF 1(1) 2, of "[1500, 2600]"] 1(2,3)
    by (simp add: silent_def)
qed

text \<open>C34: A member enters the list with the wall clock in seconds as its time of last contact, which the failure detector compares
  with a monotonic clock in milliseconds: as long as that clock shows less than the epoch's seconds, the member is never
  suspected, however long it is silent.\<close>

theorem joined_never_suspected:
  assumes "wf_cluster cm" and "wf_cbuf 37 (jr_node_id req)" and "\<not> streq (jr_node_id req) (ni_node_id (cm_self cm))"
    and "cluster_handle_join_req e mem fresh wall req cm = (0, resp, cm')" and "\<forall>now \<in> set ticks. now \<le> wall"
  shows "\<exists>m \<in> set (cm_members (fold cluster_reaper_tick ticks cm')).
    streq (ni_node_id m) (jr_node_id req) \<and> ni_status m = NODE_STATUS_ALIVE"
proof -
  have adm: "admit e mem wall req cm = Some cm'"
    using assms(4) by (auto simp: cluster_handle_join_req_def split: option.splits)
  note adm' = admit_members [OF assms(1,2) adm]
  obtain i where i: "i < length (cm_members cm')" "streq (ni_node_id (cm_members cm' ! i)) (jr_node_id req)"
    "ni_status (cm_members cm' ! i) = NODE_STATUS_ALIVE" "ni_last_updated_ts (cm_members cm' ! i) = wall"
    using adm'(2) by (auto simp: in_set_conv_nth)
  have "\<not> streq (ni_node_id (cm_members cm' ! i)) (ni_node_id (cm_self cm'))"
    using i(2) assms(3) adm'(1) by (auto simp: streq_def)
  note fold = reaper_fold [OF i(1) this, of ticks]
  have "verdict ticks (cm_members cm' ! i) = NODE_STATUS_ALIVE"
    using i(3,4) assms(5) by (auto simp: verdict_def silent_def list_ex_iff)
  then have "ni_status (cm_members (fold cluster_reaper_tick ticks cm') ! i) = NODE_STATUS_ALIVE"
    by (simp add: fold)
  moreover have "length (cm_members (fold cluster_reaper_tick ticks cm')) = length (cm_members cm')"
    by (induction ticks arbitrary: cm') (simp_all add: cluster_reaper_tick_def)
  then have "cm_members (fold cluster_reaper_tick ticks cm') ! i \<in> set (cm_members (fold cluster_reaper_tick ticks cm'))"
    using i(1) by (intro nth_mem) simp
  moreover have "ni_node_id (cm_members (fold cluster_reaper_tick ticks cm') ! i) = ni_node_id (cm_members cm' ! i)"
    by (simp add: fold)
  ultimately show ?thesis
    using i(2) by metis
qed

theorem joined_never_suspected_witness:
  "\<exists>cm'. cluster_handle_join_req Little True sample_fresh 1700000000 sample_request sample_cluster =
       (0, Some (join_response Little (replicate 157 170) cm'), cm') \<and>
     (\<exists>m \<in> set (cm_members (fold cluster_reaper_tick [5000, 90000, 1000000000] cm')).
        streq (ni_node_id m) (jr_node_id sample_request) \<and> ni_status m = NODE_STATUS_ALIVE)"
proof -
  have id: "wf_cbuf 37 (jr_node_id sample_request)"
    by (simp add: sample_request_def)
  have ne: "\<not> streq (jr_node_id sample_request) (ni_node_id (cm_self sample_cluster))"
    by code_simp
  obtain cm' where run: "cluster_handle_join_req Little True sample_fresh 1700000000 sample_request sample_cluster =
       (0, Some (join_response Little (replicate 157 170) cm'), cm')"
    by (simp add: cluster_handle_join_req_def admit_def sample_cluster_def cluster_init_def ensure_capacity_def Let_def
        sample_fresh_def cluster_sizes)
  show ?thesis
    using joined_never_suspected [OF sample_cluster_wf id ne run, of "[5000, 90000, 1000000000]"] run by auto
qed

section \<open>Gossip\<close>

lemma find_member_unique:
  assumes "distinct (map (cstr \<circ> ni_node_id) ms)" and "j < length ms" and "streq (ni_node_id (ms ! j)) nid"
  shows "find_member i ms nid = Some (i + j)"
  using assms
proof (induction i ms nid arbitrary: j rule: find_member.induct)
  case (2 i m ms nid)
  show ?case
  proof (cases j)
    case (Suc k)
    then have "cstr (ni_node_id (ms ! k)) \<in> (cstr \<circ> ni_node_id) ` set ms"
      using "2.prems" by (intro image_eqI [of _ _ "ms ! k"]) simp_all
    then have "\<not> streq (ni_node_id m) nid"
      using "2.prems" Suc by (auto simp: streq_def simp del: image_iff)
    then show ?thesis
      using "2.IH" [of k] "2.prems" Suc by simp
  qed (use "2.prems" in simp)
qed simp

text \<open>C35: A heartbeat packed on one host and received on another marks its sender, and no one else, alive there, and
  the sender stays alive through every tick of the failure detector in the next 1500 ms.\<close>

theorem gossip_keeps_alive:
  assumes "wf_cluster cm" and "wf_cluster sender" and "i < length (cm_members cm)"
    and "streq (ni_node_id (cm_members cm ! i)) (ni_node_id (cm_self sender))"
    and "\<not> streq (ni_node_id (cm_self sender)) (ni_node_id (cm_self cm))"
    and "sys_recvfrom K (us_sockfd sock) 2048 k =
      ((Received (serializer_pack_gossip e (heartbeat_packet t sender)), ip, port), k')"
    and "\<forall>tick \<in> set ticks. tick \<le> now + 1500" and "now \<le> now + 1500"
  shows "\<exists>cm'. on_gossip_receive K d now sock (cm, k) = (cm', k') \<and>
    cm' = cm\<lparr>cm_members := (cm_members cm)[i := (cm_members cm ! i)\<lparr>ni_status := NODE_STATUS_ALIVE, ni_last_updated_ts := now\<rparr>]\<rparr> \<and>
    ni_status (cm_members (fold cluster_reaper_tick ticks cm') ! i) = NODE_STATUS_ALIVE"
proof -
  let ?p = "heartbeat_packet t sender"
  let ?m = "(cm_members cm ! i)\<lparr>ni_status := NODE_STATUS_ALIVE, ni_last_updated_ts := now\<rparr>"
  let ?cm' = "cm\<lparr>cm_members := (cm_members cm)[i := ?m]\<rparr>"
  have wf: "wf_gossip ?p"
    by (simp add: wf_gossip_def heartbeat_packet_def MAX_NODE_ID_def length_strncpy)
  have magic: "g_magic ?p = GOSSIP_MAGIC"
    by (simp add: heartbeat_packet_def)
  have id: "cstr (g_node_id ?p) = cstr (ni_node_id (cm_self sender))"
    using assms(2) by (simp add: heartbeat_packet_def cstr_copy_id wf_cluster_def wf_member_def)
  then have "find_member 0 (cm_members cm) (g_node_id ?p) = Some i"
    using assms(1,3,4) find_member_unique [of "cm_members cm" i "g_node_id ?p" 0] by (simp add: wf_cluster_def streq_def)
  then have run: "on_gossip_receive K d now sock (cm, k) = (?cm', k')"
    using assms(6) gossip.unpack_pack [OF wf, of d e] gossip.pack_length [OF wf, of e]
    by (simp add: on_gossip_receive_def udp_recv_def cluster_update_member_status_def magic)
  have "\<not> streq (ni_node_id (cm_members ?cm' ! i)) (ni_node_id (cm_self ?cm'))"
    using assms(3,4,5) by (simp add: streq_def)
  then have fold: "cm_members (fold cluster_reaper_tick ticks ?cm') ! i = ?m\<lparr>ni_status := verdict ticks ?m\<rparr>"
    using reaper_fold [of i ?cm' ticks] assms(3) by simp
  have no_wrap: "unat (now + 1500) = unat now + 1500"
    using assms(8) unat_plus_simple [of now 1500] by simp
  have "\<not> silent 1500 ?m tick" if "tick \<in> set ticks" for tick
    using assms(7) that no_wrap by (auto simp: silent_def word_less_nat_alt word_le_nat_alt unat_sub_if')
  then have "verdict ticks ?m = NODE_STATUS_ALIVE"
    using silent_longer by (auto simp: verdict_def list_ex_iff)
  then show ?thesis
    using run fold by simp
qed

definition gossiping_kernel :: "demo_state kernel" where
  "gossiping_kernel = (demo_kernel True)\<lparr>sys_recvfrom := (\<lambda>_ _ k.
     ((Received (serializer_pack_gossip Big (heartbeat_packet 5 sample_joiner)), [], 0), k))\<rparr>"

theorem gossip_keeps_alive_witness:
  "\<exists>cm'. on_gossip_receive gossiping_kernel Little 9000 \<lparr>us_sockfd = 4, us_bind_port = 1\<rparr> (sample_members, ([], [], [])) =
       (cm', ([], [], [])) \<and>
     ni_status (cm_members (fold cluster_reaper_tick [9500, 10500] cm') ! 0) = NODE_STATUS_ALIVE"
proof -
  have wf: "wf_cluster sample_members" "wf_cluster sample_joiner"
    by (simp_all add: sample_members_def sample_cluster_def sample_joiner_def cluster_init_def wf_cluster_def wf_member_def)
  have i: "0 < length (cm_members sample_members)"
    "streq (ni_node_id (cm_members sample_members ! 0)) (ni_node_id (cm_self sample_joiner))"
    by (simp_all add: sample_members_def)
  have ne: "\<not> streq (ni_node_id (cm_self sample_joiner)) (ni_node_id (cm_self sample_members))"
    by code_simp
  have recv: "sys_recvfrom gossiping_kernel (us_sockfd \<lparr>us_sockfd = 4, us_bind_port = 1\<rparr>) 2048 ([], [], []) =
      ((Received (serializer_pack_gossip Big (heartbeat_packet 5 sample_joiner)), [], 0), ([], [], []))"
    by (simp add: gossiping_kernel_def)
  show ?thesis
    using gossip_keeps_alive [OF wf i ne recv, of "[9500, 10500]" 9000 Little] by auto
qed

section \<open>Leaving\<close>

definition told_on_leave :: "bytes \<Rightarrow> NodeInfo \<Rightarrow> bool" where
  "told_on_leave self m \<longleftrightarrow> \<not> streq (ni_node_id m) self \<and> ni_status m = NODE_STATUS_ALIVE"

lemma leave_loop_run:
  assumes "\<And>fd d k. tcp_send_all K fd d k \<noteq> None" and "sent \<le> 3"
  shows "\<exists>sent' n k'. leave_loop K self hbuf ms sent tried k =
      Some (sent', tried @ map ni_node_id (take n (filter (told_on_leave self) ms)), k') \<and>
    sent \<le> sent' \<and> sent' \<le> 3 \<and> sent' \<le> sent + n \<and> (sent' < 3 \<longrightarrow> length (filter (told_on_leave self) ms) \<le> n)"
  using assms(2)
proof (induction ms arbitrary: sent tried k)
  case (Cons m ms)
  consider "sent = 3" | "sent < 3" "\<not> told_on_leave self m" | "sent < 3" "told_on_leave self m"
    using Cons.prems by linarith
  then show ?case
  proof cases
    case 1
    then show ?thesis
      by (intro exI [of _ sent] exI [of _ 0]) simp
  next
    case 2
    then show ?thesis
      using Cons.IH [of sent tried k] by (auto simp: told_on_leave_def)
  next
    case 3
    have step: "\<exists>s1 k1. leave_loop K self hbuf (m # ms) sent tried k = leave_loop K self hbuf ms s1 (tried @ [ni_node_id m]) k1 \<and>
        sent \<le> s1 \<and> s1 \<le> 3 \<and> s1 \<le> sent + 1"
      using 3 by (auto simp: told_on_leave_def assms(1) split: prod.split option.split)
    then obtain s1 k1 where s1: "leave_loop K self hbuf (m # ms) sent tried k = leave_loop K self hbuf ms s1 (tried @ [ni_node_id m]) k1"
      "sent \<le> s1" "s1 \<le> 3" "s1 \<le> sent + 1" by blast
    obtain s2 n k2 where "leave_loop K self hbuf ms s1 (tried @ [ni_node_id m]) k1 =
        Some (s2, (tried @ [ni_node_id m]) @ map ni_node_id (take n (filter (told_on_leave self) ms)), k2)"
      "s1 \<le> s2" "s2 \<le> 3" "s2 \<le> s1 + n" "s2 < 3 \<longrightarrow> length (filter (told_on_leave self) ms) \<le> n"
      using Cons.IH [OF s1(3), of "tried @ [ni_node_id m]" k1] by blast
    then show ?thesis
      using s1 3 by (intro exI [of _ s2] exI [of _ "Suc n"]) simp
  qed
qed simp

text \<open>Leaving ends, marks the node as leaving and contacts living members other than the node itself one after the
  other, until three have got the message or there is none left.\<close>

lemma leave_tells_three:
  assumes "\<And>fd d k. tcp_send_all K fd d k \<noteq> None"
  shows "\<exists>sent n k'. cluster_leave K e (cm, k) =
      Some (sent, map ni_node_id (take n (filter (told_on_leave (ni_node_id (cm_self cm))) (cm_members cm))),
        cm\<lparr>cm_state := CLUSTER_STATE_LEAVING\<rparr>, k') \<and>
    sent \<le> 3 \<and> sent \<le> n \<and>
    (sent < 3 \<longrightarrow> length (filter (told_on_leave (ni_node_id (cm_self cm))) (cm_members cm)) \<le> n)"
  using leave_loop_run [OF assms, of 0 "ni_node_id (cm_self cm)"
      "serializer_pack_rpc e (leave_header (cm\<lparr>cm_state := CLUSTER_STATE_LEAVING\<rparr>))" "cm_members cm" "[]" k]
  by (auto simp: cluster_leave_def Let_def)

end
