(* ===== verification/Session_Safety.thy ===== *)
theory Session_Safety
  imports Rpc_Session Cluster_Members
begin

text \<open>
  What a session keeps while events drive it: its buffers stay within their sizes, it reassembles messages however
  they are cut, and it stays in step with the descriptor table, so that no event finds a session or a context
  that was freed.
\<close>

section \<open>Well-formed sessions\<close>

definition wf_session :: "ClientSession \<Rightarrow> bool" where
  "wf_session s \<longleftrightarrow>
     length (cs_header_buf s) \<le> sizeof_RpcHeader \<and>
     length (payload_of s) \<le> cs_payload_total s \<and> cs_payload_total s \<le> 10485760 \<and>
     (cs_state s = SESSION_READING_HEADER \<longrightarrow> cs_payload_buf s = None \<and> cs_payload_total s = 0) \<and>
     (cs_state s = SESSION_READING_PAYLOAD \<longrightarrow> cs_payload_buf s \<noteq> None) \<and>
     (cs_state s = SESSION_PROCESSING \<longrightarrow> length (payload_of s) = cs_payload_total s) \<and>
     (cs_state s = SESSION_SENDING_RESPONSE \<longrightarrow> (\<exists>b. cs_response_buf s = Some b \<and> cs_response_len s = length b)) \<and>
     (cs_state s \<noteq> SESSION_SENDING_RESPONSE \<and> cs_state s \<noteq> SESSION_DONE \<longrightarrow> cs_response_bytes_sent s = 0) \<and>
     cs_response_bytes_sent s \<le> cs_response_len s"

text \<open>Calls return at most what was asked for.\<close>

definition bounded_kernel :: "'k kernel \<Rightarrow> bool" where
  "bounded_kernel K \<longleftrightarrow>
     (\<forall>fd n k d k'. sys_recv K fd n k = (Received d, k') \<longrightarrow> length d \<le> n) \<and>
     (\<forall>fd d k n k'. sys_send K fd d k = (Sent n, k') \<longrightarrow> n \<le> length d)"

lemma stream_kernel_bounded: "stream_kernel K tx rx \<Longrightarrow> bounded_kernel K"
  unfolding bounded_kernel_def
  using stream_kernel_recv(2) [of K tx rx] stream_kernel_send(2) [of K tx rx] by blast

lemma read_into_buffer_bound:
  assumes "bounded_kernel K" and "read_into_buffer K fd off len k = ((n, d), k')" and "off \<le> len"
  shows "off + length d \<le> len" and "0 < n \<Longrightarrow> n = int (length d)" and "n \<le> 0 \<Longrightarrow> d = []"
  using assms unfolding bounded_kernel_def read_into_buffer_def
  by (fastforce simp: Let_def split: if_splits prod.splits recv_result.splits)+

lemma write_from_buffer_bound:
  assumes "bounded_kernel K" and "write_from_buffer K fd buf off len k = (n, k')" and "off \<le> len" and "len = length buf"
  shows "off + nat n \<le> len"
  using assms unfolding bounded_kernel_def write_from_buffer_def
  by (fastforce simp: Let_def split: if_splits prod.splits send_result.splits)

lemma session_create_wf: "wf_session ((session_create fd)\<lparr>cs_conn := c\<rparr>)"
  by (simp add: wf_session_def session_create_def payload_of_def)

lemma reading_header_wf:
  assumes "bounded_kernel (m_kernel M)" and "wf_session s" and "cs_state s = SESSION_READING_HEADER"
    and run: "handle_reading_header M (s, w) = (rc, s', w')"
  shows "wf_session s'"
proof -
  obtain n d k where read: "read_into_buffer (m_kernel M) (sockfd (cs_conn s)) (length (cs_header_buf s)) sizeof_RpcHeader
      (w_kernel w) = ((n, d), k)"
    by (metis surj_pair)
  have "length (cs_header_buf s) + length d \<le> sizeof_RpcHeader"
    using read_into_buffer_bound(1) [OF assms(1) read] assms(2) by (simp add: wf_session_def)
  moreover have "payload_of s = []"
    using assms(2,3) by (simp add: wf_session_def payload_of_def)
  moreover have "unat (payload_len h) \<le> 10485760" if "\<not> payload_len h > MAX_PAYLOAD_SIZE" for h
    using that by (simp add: MAX_PAYLOAD_SIZE_def word_less_nat_alt)
  ultimately show ?thesis
    using run assms(2,3) read
    by (auto simp: handle_reading_header_def Let_def wf_session_def payload_of_def split: if_splits)
qed

lemma reading_payload_wf:
  assumes "bounded_kernel (m_kernel M)" and "wf_session s" and "cs_state s = SESSION_READING_PAYLOAD"
    and run: "handle_reading_payload M (s, w) = (rc, s', w')"
  shows "wf_session s'"
proof -
  obtain n d k where read: "read_into_buffer (m_kernel M) (sockfd (cs_conn s)) (length (payload_of s)) (cs_payload_total s)
      (w_kernel w) = ((n, d), k)"
    by (metis surj_pair)
  have "length (payload_of s) + length d \<le> cs_payload_total s"
    using read_into_buffer_bound(1) [OF assms(1) read] assms(2) by (simp add: wf_session_def)
  then show ?thesis
    using run assms(2,3) read
    by (auto simp: handle_reading_payload_def Let_def wf_session_def payload_of_def split: if_splits)
qed

lemma sending_wf:
  assumes "bounded_kernel (m_kernel M)" and "wf_session s" and "cs_state s = SESSION_SENDING_RESPONSE"
    and run: "handle_sending_response M (s, w) = (rc, s', w')"
  shows "wf_session s'"
proof -
  obtain b where b: "cs_response_buf s = Some b" "cs_response_len s = length b"
    using assms(2,3) by (auto simp: wf_session_def)
  obtain n k where sent: "write_from_buffer (m_kernel M) (sockfd (cs_conn s)) b (cs_response_bytes_sent s) (cs_response_len s)
      (w_kernel w) = (n, k)"
    by (metis surj_pair)
  have "cs_response_bytes_sent s + nat n \<le> cs_response_len s"
    using write_from_buffer_bound [OF assms(1) sent] assms(2) b by (simp add: wf_session_def)
  then show ?thesis
    using run assms(2,3) sent b
    by (auto simp: handle_sending_response_def Let_def wf_session_def payload_of_def split: if_splits)
qed

lemma response_header_wf: "wf_rpc_header (response_header h n)"
  by (simp add: response_header_def wf_rpc_header_def MAX_NODE_ID_def length_strncpy)

lemma processing_wf:
  assumes "wf_session s" and "cs_state s = SESSION_PROCESSING"
    and run: "handle_processing M p (s, l, w) = (rc, s', l', w')"
  shows "wf_session s'"
proof -
  have "length (serializer_pack_rpc e (response_header h n)) = sizeof_RpcHeader" for e h n
    by (rule rpc.pack_length [OF response_header_wf])
  then show ?thesis
    using run assms
    by (auto simp: handle_processing_def Let_def wf_session_def payload_of_def
        split: if_splits prod.splits option.splits)
qed

section \<open>What the machine promises\<close>

text \<open>
  \<open>watch\<close> is epoll's list of descriptors. Calls on a connection leave it alone, \<^verbatim>\<open>accept\<close> gives a
  descriptor that was not in use, \<^verbatim>\<open>close\<close> drops the descriptor from it, and \<^verbatim>\<open>malloc\<close> gives addresses that are
  not in use.
\<close>

definition lawful_machine :: "'k machine \<Rightarrow> ('k \<Rightarrow> int \<Rightarrow> nat option) \<Rightarrow> bool" where
  "lawful_machine M watch \<longleftrightarrow>
     bounded_kernel (m_kernel M) \<and> epoll_kernel (m_poller M) watch \<and>
     (\<forall>fd n k. watch (snd (sys_recv (m_kernel M) fd n k)) = watch k) \<and>
     (\<forall>fd d k. watch (snd (sys_send (m_kernel M) fd d k)) = watch k) \<and>
     (\<forall>fd n k. watch (snd (sys_recvfrom (m_kernel M) fd n k)) = watch k) \<and>
     (\<forall>fd ip p d k. watch (snd (sys_sendto (m_kernel M) fd ip p d k)) = watch k) \<and>
     (\<forall>fd f k. watch (snd (sys_set_flags (m_kernel M) fd f k)) = watch k) \<and>
     (\<forall>fd k. watch (sys_close (m_kernel M) fd k) = (watch k)(fd := None)) \<and>
     (\<forall>k k'. m_timer M k = Some k' \<longrightarrow> watch k' = watch k) \<and>
     (\<forall>fd k r k'. sys_accept (m_kernel M) fd k = (r, k') \<longrightarrow> watch k' = watch k) \<and>
     (\<forall>fd k c ip p k'. sys_accept (m_kernel M) fd k = (Accepted c ip p, k') \<longrightarrow> 0 \<le> c \<and> watch k c = None) \<and>
     (\<forall>w p. m_new_session M w = Some p \<longrightarrow> w_sessions w p = None) \<and>
     (\<forall>l w a. wf_loop l \<longrightarrow> m_new_context M (l, w) = Some a \<longrightarrow> a \<noteq> 0 \<and> a \<notin> live (registered l))"

lemma lawful_machineD:
  assumes "lawful_machine M watch"
  shows "bounded_kernel (m_kernel M)" and "epoll_kernel (m_poller M) watch"
    and "watch (snd (sys_recv (m_kernel M) fd n k)) = watch k"
    and "watch (snd (sys_send (m_kernel M) fd d k)) = watch k"
    and "watch (snd (sys_recvfrom (m_kernel M) fd n k)) = watch k"
    and "watch (snd (sys_sendto (m_kernel M) fd ip q d k)) = watch k"
    and "watch (snd (sys_set_flags (m_kernel M) fd f k)) = watch k"
    and "watch (sys_close (m_kernel M) fd k) = (watch k)(fd := None)"
    and "m_timer M k = Some k' \<Longrightarrow> watch k' = watch k"
    and "sys_accept (m_kernel M) fd k = (r, k') \<Longrightarrow> watch k' = watch k"
    and "sys_accept (m_kernel M) fd k = (Accepted c ip q, k') \<Longrightarrow> 0 \<le> c \<and> watch k c = None"
    and "m_new_session M w = Some p \<Longrightarrow> w_sessions w p = None"
    and "wf_loop l \<Longrightarrow> m_new_context M (l, w) = Some a \<Longrightarrow> a \<noteq> 0 \<and> a \<notin> live (registered l)"
  using assms by (simp_all add: lawful_machine_def) blast

lemma lift_epoll:
  assumes "epoll_kernel P watch"
  shows "epoll_kernel (lift_poller P) (watch \<circ> w_kernel)"
proof -
  have del: "watch k' = (watch k)(fd := None)" if "ep_del P e fd k = (ok, k')" for e fd k ok k'
    using epoll_kernelD(3) [OF assms, of e fd k] that by simp
  show ?thesis
    unfolding epoll_kernel_def
    by (intro conjI allI impI; clarsimp simp: lift_poller_def at_kernel_def split: prod.splits)
      (use epoll_kernelD [OF assms] del in auto)
qed

text \<open>The operations of the loop change nothing of the world but the kernel.\<close>

lemma lifted_frame:
  "loop_add_fd (lift_poller P) addr l fd ev cb w = (rc, l', w') \<Longrightarrow> w_cluster w' = w_cluster w \<and> w_sessions w' = w_sessions w"
  "loop_mod_fd (lift_poller P) l fd ev cb w = (rc, l', w') \<Longrightarrow> w_cluster w' = w_cluster w \<and> w_sessions w' = w_sessions w"
  "loop_del_fd (lift_poller P) l fd w = (rc, l', w') \<Longrightarrow> w_cluster w' = w_cluster w \<and> w_sessions w' = w_sessions w"
  by (auto simp: loop_add_fd_def loop_mod_fd_def loop_del_fd_def lift_poller_def at_kernel_def Let_def insert_file_context_def
      split: option.splits if_splits prod.splits)

section \<open>The invariant of the daemon\<close>

text \<open>
  Sessions and table agree: the context of a session's descriptor is the session, and every context of that kind belongs
  to a session that is allocated.
\<close>

definition linked :: "(int \<Rightarrow> (nat \<times> closure) option) \<Rightarrow> (nat \<Rightarrow> ClientSession option) \<Rightarrow> bool" where
  "linked reg S \<longleftrightarrow>
     (\<forall>p s. S p = Some s \<longrightarrow> (\<exists>a. reg (sockfd (cs_conn s)) = Some (a, OnClient p))) \<and>
     (\<forall>fd a p. reg fd = Some (a, OnClient p) \<longrightarrow> (\<exists>s. S p = Some s \<and> sockfd (cs_conn s) = fd))"

text \<open>Names in the member list end within their arrays, and the list fits its array.\<close>

definition stored :: "ClusterManager \<Rightarrow> bool" where
  "stored cm \<longleftrightarrow> list_all wf_member (cm_members cm) \<and> length (cm_members cm) \<le> cm_member_capacity cm"

definition table_ok :: "('k \<Rightarrow> int \<Rightarrow> nat option) \<Rightarrow> closure EventLoop \<Rightarrow> 'k world \<Rightarrow> bool" where
  "table_ok watch l w \<longleftrightarrow>
     wf_loop l \<and> unique (registered l) \<and> 0 \<notin> live (registered l) \<and> in_sync (watch \<circ> w_kernel) l w"

definition consistent :: "('k \<Rightarrow> int \<Rightarrow> nat option) \<Rightarrow> 'k program \<Rightarrow> bool" where
  "consistent watch = (\<lambda>(l, w).
     table_ok watch l w \<and> linked (registered l) (w_sessions w) \<and>
     (\<forall>p s. w_sessions w p = Some s \<longrightarrow> wf_session s) \<and> stored (w_cluster w))"

text \<open>The world with the session the handlers work on put back.\<close>

definition put :: "nat \<Rightarrow> ClientSession \<Rightarrow> 'k world \<Rightarrow> 'k world" where
  "put p s w = w\<lparr>w_sessions := (w_sessions w)(p \<mapsto> s)\<rparr>"

lemma put_fields [simp]:
  "w_kernel (put p s w) = w_kernel w" "w_cluster (put p s w) = w_cluster w" "w_sessions (put p s w) = (w_sessions w)(p \<mapsto> s)"
  by (simp_all add: put_def)

lemma table_ok_cong:
  "watch (w_kernel w) = watch (w_kernel w') \<Longrightarrow> table_ok watch l w = table_ok watch l w'"
  by (simp add: table_ok_def in_sync_def)

lemma linked_replace: "linked reg (S(p \<mapsto> s)) \<Longrightarrow> sockfd (cs_conn s') = sockfd (cs_conn s) \<Longrightarrow> linked reg (S(p \<mapsto> s'))"
  unfolding linked_def by (auto split: if_splits)

lemma linked_at: "linked reg S \<Longrightarrow> S p = Some s \<Longrightarrow> \<exists>a. reg (sockfd (cs_conn s)) = Some (a, OnClient p)"
  by (simp add: linked_def)

lemma linked_drop:
  assumes "linked reg S" and "S p = Some s"
  shows "linked (reg(sockfd (cs_conn s) := None)) (S(p := None))"
proof -
  obtain a where "reg (sockfd (cs_conn s)) = Some (a, OnClient p)"
    using linked_at [OF assms] by blast
  then show ?thesis
    using assms unfolding linked_def by (simp, intro conjI allI impI) (metis closure.inject option.inject prod.inject)+
qed

lemma linked_insert:
  assumes "linked reg S" and "S p = None" and "reg (sockfd (cs_conn s)) = None"
  shows "linked (reg(sockfd (cs_conn s) \<mapsto> (a, OnClient p))) (S(p \<mapsto> s))"
  using assms unfolding linked_def by (fastforce split: if_splits)

text \<open>Members added or changed keep what is stored.\<close>

lemma stored_update_status: "stored cm \<Longrightarrow> stored (snd (cluster_update_member_status now nid st cm))"
  using find_member_bound(1) [of "cm_members cm" nid]
  by (auto simp: cluster_update_member_status_def stored_def list_all_length nth_list_update wf_member_def split: option.splits)

lemma stored_reap: "stored cm \<Longrightarrow> stored (cluster_reaper_tick now cm)"
proof -
  have "wf_member (reap now self m) = wf_member m" for self m
    by (simp add: reap_def wf_member_def Let_def)
  then show "stored cm \<Longrightarrow> stored (cluster_reaper_tick now cm)"
    by (simp add: stored_def cluster_reaper_tick_def list_all_iff)
qed

lemma stored_admit:
  assumes "stored cm" and "admit e mem wall req cm = Some cm'"
  shows "stored cm'"
proof (cases "find_member 0 (cm_members cm) (jr_node_id req)")
  case None
  then show ?thesis
    using assms by (auto simp: admit_def Let_def stored_def wf_member_def split: if_splits)
next
  case (Some j)
  then show ?thesis
    using assms find_member_bound(1) [OF Some] strncpy_wf [of 45]
    by (auto simp: admit_def Let_def stored_def list_all_length nth_list_update wf_member_def)
qed

lemma stored_join: "stored cm \<Longrightarrow> stored (snd (snd (cluster_handle_join_req e mem fresh wall req cm)))"
  using stored_admit [of cm e mem wall req]
  by (auto simp: cluster_handle_join_req_def stored_def ensure_capacity_def Let_def split: option.split)

section \<open>Session handlers keep the invariant\<close>

lemma read_watch:
  assumes "lawful_machine M watch"
  shows "watch (snd (read_into_buffer (m_kernel M) fd off len k)) = watch k"
  using lawful_machineD(3) [OF assms, of fd "len - off" k]
  by (auto simp: read_into_buffer_def Let_def split: prod.split recv_result.split)

lemma write_watch:
  assumes "lawful_machine M watch"
  shows "watch (snd (write_from_buffer (m_kernel M) fd b off len k)) = watch k"
  using lawful_machineD(4) [OF assms, of fd "take (len - off) (drop off b)" k]
  by (auto simp: write_from_buffer_def Let_def split: prod.split send_result.split)

text \<open>A handler's frame: connection, cluster, other sessions and epoll's list are as before.\<close>

definition quiet :: "('k \<Rightarrow> int \<Rightarrow> nat option) \<Rightarrow> ClientSession \<times> 'k world \<Rightarrow> ClientSession \<times> 'k world \<Rightarrow> bool" where
  "quiet watch = (\<lambda>(s, w) (s', w').
     cs_conn s' = cs_conn s \<and> w_cluster w' = w_cluster w \<and> w_sessions w' = w_sessions w \<and>
     watch (w_kernel w') = watch (w_kernel w))"

lemma handlers_quiet:
  assumes "lawful_machine M watch"
  shows "handle_reading_header M (s, w) = (rc, st') \<Longrightarrow> quiet watch (s, w) st'"
    and "handle_reading_payload M (s, w) = (rc, st') \<Longrightarrow> quiet watch (s, w) st'"
    and "handle_sending_response M (s, w) = (rc, st') \<Longrightarrow> quiet watch (s, w) st'"
  using read_watch [OF assms] write_watch [OF assms]
  by (auto simp: handle_reading_header_def handle_reading_payload_def handle_sending_response_def quiet_def Let_def split_beta
      split: if_splits)

lemma consistent_wf: "consistent watch (l, put p s w) \<Longrightarrow> wf_session s"
  by (auto simp: consistent_def split: if_splits)

lemma quiet_consistent:
  assumes "consistent watch (l, put p s w)" and "quiet watch (s, w) (s', w')" and "wf_session s'"
  shows "consistent watch (l, put p s' w')"
proof -
  have "linked (registered l) ((w_sessions w)(p \<mapsto> s'))"
    using assms(1,2) by (auto simp: consistent_def quiet_def intro: linked_replace)
  moreover have "table_ok watch l (put p s' w') = table_ok watch l (put p s w)"
    using assms(2) by (intro table_ok_cong) (simp add: quiet_def)
  moreover have "\<forall>q t. ((w_sessions w)(p \<mapsto> s')) q = Some t \<longrightarrow> wf_session t"
    using assms(1,3) by (auto simp: consistent_def split: if_splits)
  ultimately show ?thesis
    using assms(1,2) by (simp add: consistent_def quiet_def)
qed

lemma handle_processing_frame:
  assumes "lawful_machine M watch" and "consistent watch (l, put p s w)"
    and run: "handle_processing M p (s, l, w) = (rc, s', l', w')"
  shows "cs_conn s' = cs_conn s \<and> w_sessions w' = w_sessions w \<and> stored (w_cluster w') \<and>
    registered l' = registered l \<and> table_ok watch l' w'"
proof -
  have "table_ok watch l (put p s w)" and stored: "stored (w_cluster w)" and "linked (registered l) ((w_sessions w)(p \<mapsto> s))"
    using assms(2) by (simp_all add: consistent_def)
  then obtain a where tab: "table_ok watch l w" and reg: "registered l (sockfd (cs_conn s)) = Some (a, OnClient p)"
    using linked_at [of "registered l" "(w_sessions w)(p \<mapsto> s)" p s] table_ok_cong [of watch "put p s w" w] by auto
  have cluster: "table_ok watch l1 (v\<lparr>w_cluster := cm\<rparr>) = table_ok watch l1 v" for l1 v cm
    by (rule table_ok_cong) simp
  have changed: "registered l2 = registered l \<and> table_ok watch l2 w2 \<and> w_cluster w2 = w_cluster v \<and> w_sessions w2 = w_sessions v"
    if "loop_mod_fd (lift_poller (m_poller M)) l (sockfd (cs_conn s)) EVENT_WRITE (Some (OnClient p)) v = (r, l2, w2)"
      and "table_ok watch l v" for v r l2 w2
  proof -
    have wf: "wf_loop l" and sync: "in_sync (watch \<circ> w_kernel) l v" and uniq: "unique (registered l)" "0 \<notin> live (registered l)"
      using that(2) by (simp_all add: table_ok_def)
    have "registered l2 = registered l"
      using registry.modify_law [OF wf that(1)] reg by (auto simp: fun_upd_idem)
    then show ?thesis
      using registry.modify_law [OF wf that(1)] sync_mod [OF lift_epoll [OF lawful_machineD(2) [OF assms(1)]] wf sync that(1)] uniq
        lifted_frame(2) [OF that(1)]
      by (simp add: table_ok_def)
  qed
  have joined: "stored cm" if "cluster_handle_join_req e mem fresh wall req (w_cluster w) = (r, resp, cm)"
    for e mem fresh wall req r resp cm
    using stored_join [OF stored, of e mem fresh wall req] that by simp
  show ?thesis
    using run tab stored stored_update_status [OF stored]
    by (auto simp: handle_processing_def Let_def cluster split: if_splits prod.splits option.splits
        dest!: changed joined)
qed

lemma processing_consistent:
  assumes "lawful_machine M watch" and "consistent watch (l, put p s w)" and "cs_state s = SESSION_PROCESSING"
    and run: "handle_processing M p (s, l, w) = (rc, s', l', w')"
  shows "consistent watch (l', put p s' w') \<and> registered l' = registered l \<and> sockfd (cs_conn s') = sockfd (cs_conn s)"
proof -
  have frame: "cs_conn s' = cs_conn s" "w_sessions w' = w_sessions w" "stored (w_cluster w')" "registered l' = registered l"
      "table_ok watch l' w'"
    using handle_processing_frame [OF assms(1,2) run] by simp_all
  have "wf_session s'"
    using processing_wf [OF consistent_wf [OF assms(2)] assms(3) run] .
  then have "\<forall>q t. ((w_sessions w)(p \<mapsto> s')) q = Some t \<longrightarrow> wf_session t"
    using assms(2) by (auto simp: consistent_def split: if_splits)
  moreover have "linked (registered l) ((w_sessions w)(p \<mapsto> s'))"
    using assms(2) frame(1) by (auto simp: consistent_def intro: linked_replace)
  moreover have "table_ok watch l' (put p s' w')"
    using frame(5) table_ok_cong [of watch "put p s' w'" w'] by simp
  ultimately show ?thesis
    using frame by (simp add: consistent_def)
qed

lemma pass_consistent:
  assumes M: "lawful_machine M watch" and inv: "consistent watch (l, put p s w)"
    and run: "client_pass M p ev (s, l, w) = (rc, go, s', l', w')"
  shows "consistent watch (l', put p s' w') \<and> registered l' = registered l \<and> sockfd (cs_conn s') = sockfd (cs_conn s)"
proof -
  note wf = consistent_wf [OF inv]
  note bound = lawful_machineD(1) [OF M]
  have step: "?thesis" if "quiet watch (s, w) (s', w')" "wf_session s'" "l' = l"
    using quiet_consistent [OF inv that(1,2)] that(1,3) by (simp add: quiet_def)
  show ?thesis
  proof (cases "cs_state s")
    case SESSION_READING_HEADER
    then show ?thesis
      using run inv step handlers_quiet(1) [OF M, of s w] reading_header_wf [OF bound wf, of w]
      by (fastforce simp: client_pass_def split: if_splits prod.splits)
  next
    case SESSION_READING_PAYLOAD
    then show ?thesis
      using run inv step handlers_quiet(2) [OF M, of s w] reading_payload_wf [OF bound wf, of w]
      by (fastforce simp: client_pass_def split: if_splits prod.splits)
  next
    case SESSION_PROCESSING
    then show ?thesis
      using run processing_consistent [OF M inv] by (auto simp: client_pass_def split: prod.splits)
  next
    case SESSION_SENDING_RESPONSE
    then show ?thesis
      using run inv step handlers_quiet(3) [OF M, of s w] sending_wf [OF bound wf, of w]
      by (fastforce simp: client_pass_def split: if_splits prod.splits)
  next
    case SESSION_DONE
    then show ?thesis
      using run inv by (auto simp: client_pass_def)
  qed
qed

lemma loop_consistent:
  assumes "lawful_machine M watch"
  shows "consistent watch (l, put p s w) \<Longrightarrow> client_loop M p ev (s, l, w) = (rc, s', l', w') \<Longrightarrow>
    consistent watch (l', put p s' w') \<and> registered l' = registered l \<and> sockfd (cs_conn s') = sockfd (cs_conn s)"
proof (induction "rank (cs_state s)" arbitrary: s l w rule: less_induct)
  case less
  obtain rc1 go s1 l1 w1 where pass: "client_pass M p ev (s, l, w) = (rc1, go, s1, l1, w1)"
    by (metis surj_pair)
  note inv1 = pass_consistent [OF assms less.prems(1) pass]
  show ?case
  proof (cases "go \<and> rc1 = 0")
    case True
    then have "client_loop M p ev (s1, l1, w1) = (rc, s', l', w')" and "rank (cs_state s1) < rank (cs_state s)"
      using less.prems(2) pass client_pass_rank [of M p ev "(s, l, w)" rc1 "(s1, l1, w1)"]
      by (simp_all add: client_loop.simps [of M p ev "(s, l, w)"])
    then show ?thesis
      using less.hyps inv1 by metis
  next
    case False
    then show ?thesis
      using less.prems(2) pass inv1 by (auto simp: client_loop.simps [of M p ev "(s, l, w)"] split: if_splits)
  qed
qed

lemma destroy_table:
  assumes M: "lawful_machine M watch" and tab: "table_ok watch l w" and "0 \<le> sockfd (cs_conn s)"
    and run: "session_destroy M p s (l, w) = (l', w')"
  shows "table_ok watch l' w' \<and> registered l' = (registered l)(sockfd (cs_conn s) := None) \<and>
    w_sessions w' = (w_sessions w)(p := None) \<and> w_cluster w' = w_cluster w"
proof -
  let ?fd = "sockfd (cs_conn s)"
  obtain rc l1 w1 where del: "loop_del_fd (lift_poller (m_poller M)) l ?fd w = (rc, l1, w1)"
    by (metis surj_pair)
  have wf: "wf_loop l" and sync: "in_sync (watch \<circ> w_kernel) l w" and uniq: "unique (registered l)" "0 \<notin> live (registered l)"
    using tab by (simp_all add: table_ok_def)
  note law = registry.del_law [OF wf del]
  have eq: "l' = l1" "w' = w1\<lparr>w_kernel := sys_close (m_kernel M) ?fd (w_kernel w1), w_sessions := (w_sessions w1)(p := None)\<rparr>"
    using run del assms(3) by (simp_all add: session_destroy_def tcp_close_def)
  have "in_sync (watch \<circ> w_kernel) l1 w1"
    by (rule sync_del [OF lift_epoll [OF lawful_machineD(2) [OF M]] wf sync del])
  then have "in_sync (watch \<circ> w_kernel) l' w'"
    using law lawful_machineD(8) [OF M] eq by (auto simp: in_sync_def)
  moreover have "0 \<notin> live ((registered l)(?fd := None))"
    using uniq(2) by (auto simp: live_iff split: if_splits)
  ultimately show ?thesis
    using law eq lifted_frame(3) [OF del] unique_delete [OF uniq(1)] by (simp add: table_ok_def)
qed

lemma destroy_consistent:
  assumes M: "lawful_machine M watch" and inv: "consistent watch (l, put p s w)"
    and run: "session_destroy M p s (l, w) = (l', w')"
  shows "consistent watch (l', w') \<and> registered l' = (registered l)(sockfd (cs_conn s) := None)"
proof -
  have tab: "table_ok watch l w"
    using inv table_ok_cong [of watch "put p s w" w] by (simp add: consistent_def)
  have lk: "linked (registered l) ((w_sessions w)(p \<mapsto> s))"
    using inv by (simp add: consistent_def)
  have "0 \<le> sockfd (cs_conn s)"
    using linked_at [OF lk, of p s] registered_nonneg [of l "sockfd (cs_conn s)"] tab by (auto simp: table_ok_def)
  note d = destroy_table [OF M tab this run]
  have "\<forall>q t. ((w_sessions w)(p := None)) q = Some t \<longrightarrow> wf_session t"
    using inv by (auto simp: consistent_def split: if_splits)
  moreover have "linked ((registered l)(sockfd (cs_conn s) := None)) ((w_sessions w)(p := None))"
    using linked_drop [OF lk, of p s] by simp
  ultimately show ?thesis
    using d inv by (simp add: consistent_def)
qed

text \<open>A client event: the session is there, and only its own context may go.\<close>

lemma client_event_handled:
  assumes M: "lawful_machine M watch" and inv: "consistent watch (l, w)"
    and reg: "registered l fd = Some (a, OnClient p)"
  shows "\<exists>l' w'. rpc_on_client_event M p ev (l, w) = Inr (l', w') \<and> consistent watch (l', w') \<and>
    (registered l' = registered l \<or> registered l' = (registered l)(fd := None))"
proof -
  obtain s where s: "w_sessions w p = Some s" "sockfd (cs_conn s) = fd"
    using inv reg by (simp add: consistent_def linked_def) blast
  then have "put p s w = w"
    by (simp add: put_def fun_upd_idem)
  with inv have inv: "consistent watch (l, put p s w)"
    by simp
  obtain rc s1 l1 w1 where loop: "client_loop M p ev (s, l, w) = (rc, s1, l1, w1)"
    by (metis surj_pair)
  note inv1 = loop_consistent [OF M inv loop]
  obtain l2 w2 l3 w3 where d: "session_destroy M p s (l, w) = (l2, w2)" "session_destroy M p s1 (l1, w1) = (l3, w3)"
    by (metis surj_pair)
  show ?thesis
    using destroy_consistent [OF M inv d(1)] destroy_consistent [OF M _ d(2)] inv1 d loop s
    by (auto simp: rpc_on_client_event_def put_def)
qed

lemma sync_unwatched: "in_sync (watch \<circ> w_kernel) l w \<Longrightarrow> watch (w_kernel w) fd = None \<Longrightarrow> registered l fd = None"
  by (simp add: in_sync_def)

text \<open>Registering an accepted connection, with the session already allocated at \<open>p\<close>.\<close>

lemma register_session:
  assumes M: "lawful_machine M watch" and inv: "consistent watch (l, w)"
    and fresh: "w_sessions w p = None" "watch (w_kernel w) (sockfd (cs_conn s)) = None" "0 \<le> sockfd (cs_conn s)"
    and s: "wf_session s"
    and run: "loop_add_fd (lift_poller (m_poller M)) (m_new_context M (l, put p s w)) l (sockfd (cs_conn s)) EVENT_READ
      (Some (OnClient p)) (put p s w) = (rc, l1, w1)"
  shows "rc = 0 \<Longrightarrow> consistent watch (l1, w1) \<and> live (registered l) \<subseteq> live (registered l1)"
    and "rc \<noteq> 0 \<Longrightarrow> session_destroy M p s (l1, w1) = (l2, w2) \<Longrightarrow> consistent watch (l2, w2) \<and> registered l2 = registered l"
proof -
  have tab: "table_ok watch l (put p s w)" and lk: "linked (registered l) (w_sessions w)"
    and wfs: "\<forall>q t. w_sessions w q = Some t \<longrightarrow> wf_session t" and st: "stored (w_cluster w)"
    using inv table_ok_cong [of watch "put p s w" w] by (simp_all add: consistent_def)
  then have wf: "wf_loop l" and sync: "in_sync (watch \<circ> w_kernel) l (put p s w)" and uniq: "unique (registered l)"
      and nz: "0 \<notin> live (registered l)"
    by (simp_all add: table_ok_def)
  have free: "registered l (sockfd (cs_conn s)) = None"
    using sync_unwatched [OF sync] fresh(2) by simp
  have addr: "m_new_context M (l, put p s w) = Some a \<Longrightarrow> a \<noteq> 0 \<and> a \<notin> live (registered l)" for a
    by (rule lawful_machineD(13) [OF M wf])
  note law = registry.add_law [OF wf run] and frame = lifted_frame(1) [OF run]
  have sync1: "in_sync (watch \<circ> w_kernel) l1 w1"
    by (rule sync_add [OF lift_epoll [OF lawful_machineD(2) [OF M]] wf sync run])
  have uniq1: "unique (registered l1)"
    using registry.add_unique [OF wf run uniq] addr by blast
  have tab1: "table_ok watch l1 w1"
    using law sync1 uniq1 nz addr free by (auto simp: table_ok_def live_insert)
  show "consistent watch (l1, w1) \<and> live (registered l) \<subseteq> live (registered l1)" if rc: "rc = 0"
  proof -
    obtain b where b: "registered l1 = (registered l)(sockfd (cs_conn s) \<mapsto> (b, OnClient p))"
      using law rc by auto
    have "linked (registered l1) ((w_sessions w)(p \<mapsto> s))"
      unfolding b by (rule linked_insert [OF lk fresh(1) free])
    moreover have "\<forall>q t. ((w_sessions w)(p \<mapsto> s)) q = Some t \<longrightarrow> wf_session t"
      using wfs s by simp
    ultimately show ?thesis
      using tab1 frame st registry.add_live [OF wf run] by (simp add: consistent_def)
  qed
  show "consistent watch (l2, w2) \<and> registered l2 = registered l"
    if "rc \<noteq> 0" and d: "session_destroy M p s (l1, w1) = (l2, w2)"
  proof -
    have same: "registered l1 = registered l"
      using law that(1) by auto
    have "(w_sessions w)(p := None) = w_sessions w"
      using fresh(1) by (simp add: fun_upd_idem)
    then show ?thesis
      using destroy_table [OF M tab1 fresh(3) d] same free frame lk wfs st
      by (simp add: consistent_def fun_upd_idem)
  qed
qed

lemma accept_handled:
  assumes M: "lawful_machine M watch" and inv: "consistent watch (l, w)"
  shows "\<exists>l' w'. rpc_on_accept M fd (l, w) = (l', w') \<and> consistent watch (l', w') \<and> live (registered l) \<subseteq> live (registered l')"
proof -
  have kernel: "consistent watch (l, w\<lparr>w_kernel := k\<rparr>)" if "watch k = watch (w_kernel w)" for k
    using inv table_ok_cong [of watch "w\<lparr>w_kernel := k\<rparr>" w l] that by (simp add: consistent_def)
  obtain r k where acc: "sys_accept (m_kernel M) fd (w_kernel w) = (r, k)"
    by (metis surj_pair)
  note wk = lawful_machineD(10) [OF M acc]
  show ?thesis
  proof (cases r)
    case (Accepted c ip port)
    let ?conn = "\<lparr>sockfd = c, remote_ip = ip, remote_port = port\<rparr>"
    let ?s = "(session_create c)\<lparr>cs_conn := ?conn\<rparr>"
    have c: "0 \<le> c" "watch (w_kernel w) c = None"
      using lawful_machineD(11) [OF M acc [unfolded Accepted]] by simp_all
    obtain ok k1 where nb: "net_set_nonblocking (m_kernel M) c k = (ok, k1)"
      by (metis surj_pair)
    then have wk1: "watch k1 = watch (w_kernel w)"
      using lawful_machineD(7) [OF M] wk by (auto simp: net_set_nonblocking_def split: option.splits) (metis snd_conv)
    then have inv1: "consistent watch (l, w\<lparr>w_kernel := k1\<rparr>)"
      by (rule kernel)
    have closed: "consistent watch (l, w\<lparr>w_kernel := snd (tcp_close (m_kernel M) ?conn k1)\<rparr>)"
      using c wk1 lawful_machineD(8) [OF M] by (intro kernel) (simp add: tcp_close_def fun_upd_idem)
    show ?thesis
    proof (cases "ok \<and> m_new_session M (w\<lparr>w_kernel := k1\<rparr>) \<noteq> None")
      case False
      then show ?thesis
        using acc Accepted nb closed
        by (cases ok) (auto simp: rpc_on_accept_def tcp_server_accept_def Let_def)
    next
      case True
      then obtain p where p: "m_new_session M (w\<lparr>w_kernel := k1\<rparr>) = Some p"
        by auto
      obtain rc l1 w1 where add: "loop_add_fd (lift_poller (m_poller M)) (m_new_context M (l, put p ?s (w\<lparr>w_kernel := k1\<rparr>))) l
          (sockfd (cs_conn ?s)) EVENT_READ (Some (OnClient p)) (put p ?s (w\<lparr>w_kernel := k1\<rparr>)) = (rc, l1, w1)"
        by (metis surj_pair)
      obtain l2 w2 where d: "session_destroy M p ?s (l1, w1) = (l2, w2)"
        by (metis surj_pair)
      have fresh: "w_sessions (w\<lparr>w_kernel := k1\<rparr>) p = None"
        by (rule lawful_machineD(12) [OF M p])
      have run: "rpc_on_accept M fd (l, w) = (if rc \<noteq> 0 then (l2, w2) else (l1, w1))"
        using acc Accepted nb True p add d by (simp add: rpc_on_accept_def tcp_server_accept_def put_def)
      show ?thesis
        using register_session [OF M inv1 fresh _ _ session_create_wf add] run d c wk1 by (cases "rc = 0") auto
    qed
  qed (use acc kernel [OF wk] in \<open>auto simp: rpc_on_accept_def tcp_server_accept_def\<close>)
qed

end
