(* ===== verification/Daemon.thy ===== *)
theory Daemon
  imports Session_Safety
begin

text \<open>
  The node process, \<^verbatim>\<open>src/main.c\<close>: arguments, start, the dispatch of events to the callbacks, and shutdown.

  \<^item> The loop and the cluster of \<^verbatim>\<open>NodeContext\<close> are the components of the program's state; the record here has the
    descriptors.
  \<^item> \<^verbatim>\<open>main\<close> declares \<^verbatim>\<open>role\<close> twice and names two enumerators that do not exist. The model takes the second declaration, the one
    marked as corrected, and reads past the assignments to the first.
  \<^item> What the process gets from outside besides the machine, as the answers to its allocations, is the record \<open>boot\<close>.
\<close>

section \<open>Arguments\<close>

definition chars :: "string \<Rightarrow> bytes" where
  "chars s = map of_char s"

fun atoi_digits :: "int \<Rightarrow> bytes \<Rightarrow> int" where
  "atoi_digits n [] = n"
| "atoi_digits n (c # cs) = (if 48 \<le> c \<and> c \<le> 57 then atoi_digits (10 * n + (uint c - 48)) cs else n)"

definition atoi :: "bytes \<Rightarrow> int" where
  "atoi s =
     (case dropWhile (\<lambda>c. c = 32 \<or> 9 \<le> c \<and> c \<le> 13) s of
        [] \<Rightarrow> 0
      | c # cs \<Rightarrow> if c = 45 then - atoi_digits 0 cs else if c = 43 then atoi_digits 0 cs else atoi_digits 0 (c # cs))"

text \<open>The flags that have an effect; a flag needs a value after it.\<close>

fun parse_flags :: "bytes list \<Rightarrow> bytes \<times> u16 \<Rightarrow> bytes \<times> u16" where
  "parse_flags (x # v # rest) (node_id, port) =
     (if x = chars ''--node-id'' then parse_flags rest (v, port)
      else if x = chars ''--port'' then parse_flags rest (node_id, word_of_int (atoi v))
      else if x = chars ''--role'' then parse_flags rest (node_id, port)
      else if x = chars ''--join'' then parse_flags rest (node_id, port)
      else parse_flags (v # rest) (node_id, port))"
| "parse_flags _ r = r"

section \<open>Callbacks\<close>

record NodeContext =
  nc_gossip_sock :: UdpSocket
  nc_tcp_server_fd :: int
  nc_heartbeat_timer_fd :: int
  nc_reaper_timer_fd :: int

text \<open>The callback with the context pointer it was registered with.\<close>

fun dispatch :: "'k machine \<Rightarrow> UdpSocket \<Rightarrow> (closure, 'k world) handler" where
  "dispatch M sock OnAccept fd ev st = Some (Inr (rpc_on_accept M fd st))"
| "dispatch M sock (OnClient p) fd ev st = Some (rpc_on_client_event M p ev st)"
| "dispatch M sock OnGossip fd ev (l, w) =
     (case on_gossip_receive (m_kernel M) (m_endian M) (m_clock M w) sock (w_cluster w, w_kernel w) of
        (cm, k) \<Rightarrow> Some (Inr (l, w\<lparr>w_cluster := cm, w_kernel := k\<rparr>)))"
| "dispatch M sock OnHeartbeat fd ev (l, w) =
     (case on_heartbeat_timer (m_kernel M) (m_endian M) (m_timer M) (m_clock M w) (m_rand M w) sock (w_cluster w, w_kernel w) of
        (cm, k) \<Rightarrow> Some (Inr (l, w\<lparr>w_cluster := cm, w_kernel := k\<rparr>)))"
| "dispatch M sock OnReaper fd ev (l, w) =
     Some (Inr (l, w\<lparr>w_cluster := cluster_reaper_tick (m_clock M w) (w_cluster w)\<rparr>))"

definition handle_shutdown :: "'c EventLoop option \<Rightarrow> 'c EventLoop option" where
  "handle_shutdown global_loop = map_option loop_stop global_loop"

definition set_timer_ms :: "'k poller \<Rightarrow> int \<Rightarrow> u64 \<Rightarrow> 'k \<Rightarrow> 'k" where
  "set_timer_ms P fd ms k = snd (tm_settime P fd (unat ms div 1000) (unat ms mod 1000 * 1000000) k)"

section \<open>Start and shutdown\<close>

record 'k boot =
  b_logger :: bool
  b_loop_mem :: bool
  b_table_mem :: bool
  b_rpc_ctx :: bool
  b_signalled :: "'k world \<Rightarrow> bool"
  b_join_mem :: "u64 \<Rightarrow> bool"
  b_member_mem :: "nat \<Rightarrow> bool"
  b_seed_mem :: bool
  b_slot :: "nat \<Rightarrow> NodeInfo"

definition any_address :: bytes where "any_address = chars ''0.0.0.0''"

text \<open>What \<^verbatim>\<open>memset\<close> leaves of the cluster.\<close>

definition zero_cluster :: ClusterManager where
  "zero_cluster =
     \<lparr>cm_self = \<lparr>ni_node_id = zeros 37, ni_ip_address = zeros 46, ni_tcp_port = 0, ni_udp_port = 0, ni_role = 0, ni_status = 0,
                 ni_cpu_load = 0, ni_mem_load = 0, ni_last_updated_ts = 0\<rparr>,
      cm_state = CLUSTER_STATE_INIT, cm_members = [], cm_member_capacity = 0,
      cm_cluster_name = zeros 32, cm_heartbeat_interval_ms = 0\<rparr>"

text \<open>Sections 3 and 4 of \<^verbatim>\<open>main\<close>: loop, cluster and sockets. \<open>None\<close> is an exit with failure.\<close>

definition open_node :: "'k machine \<Rightarrow> 'k boot \<Rightarrow> bytes \<Rightarrow> u16 \<Rightarrow> u32 \<Rightarrow> 'k \<Rightarrow> (int \<times> UdpSocket \<times> 'k program) option \<times> 'k" where
  "open_node M B node_id port role k =
     (case loop_create (m_poller M) (b_loop_mem B) (b_table_mem B) 1024 k of
        (None, k) \<Rightarrow> (None, k)
      | (Some loop, k) \<Rightarrow>
          let cluster = cluster_init role node_id any_address port
                (m_clock M \<lparr>w_kernel = k, w_cluster = zero_cluster, w_sessions = (\<lambda>_. None)\<rparr>);
              (fd, k) = tcp_server_listen (m_kernel M) any_address port 128 k
          in if fd < 0 then (None, loop_free (m_poller M) loop k)
             else
               (case udp_init (m_kernel M) any_address port k of
                  ((rc, None), k) \<Rightarrow> (None, loop_free (m_poller M) loop (sys_close (m_kernel M) fd k))
                | ((rc, Some sock), k) \<Rightarrow>
                    (Some (fd, sock, loop, \<lparr>w_kernel = k, w_cluster = cluster, w_sessions = (\<lambda>_. None)\<rparr>), k)))"

text \<open>Sections 5 and 6: handlers and timers. A registration that fails is logged and start goes on.\<close>

definition register_handlers :: "'k machine \<Rightarrow> int \<Rightarrow> UdpSocket \<Rightarrow> 'k program \<Rightarrow> NodeContext \<times> 'k program" where
  "register_handlers M server_fd sock = (\<lambda>(loop, w).
     let P = lift_poller (m_poller M);
         (rc, loop, w) = loop_add_fd P (m_new_context M (loop, w)) loop server_fd EVENT_READ (Some OnAccept) w;
         (rc, loop, w) = loop_add_fd P (m_new_context M (loop, w)) loop (us_sockfd sock) EVENT_READ (Some OnGossip) w;
         (heartbeat, loop, w) = loop_add_timer P (m_new_context M (loop, w)) loop 1000 (Some OnHeartbeat) w;
         (reaper, loop, w) = loop_add_timer P (m_new_context M (loop, w)) loop 500 (Some OnReaper) w
     in (\<lparr>nc_gossip_sock = sock, nc_tcp_server_fd = server_fd, nc_heartbeat_timer_fd = heartbeat,
          nc_reaper_timer_fd = reaper\<rparr>, loop, w))"

text \<open>Section 7, with the arguments of the seed.\<close>

definition join_seed :: "'k machine \<Rightarrow> 'k boot \<Rightarrow> bytes list \<Rightarrow> 'k world \<Rightarrow> (fault + 'k world) option" where
  "join_seed M B argv w =
     (if length argv \<ge> 6
      then
        (case cluster_join (m_kernel M) (m_endian M) (b_join_mem B) (b_member_mem B) (b_seed_mem B) (b_slot B) (m_clock M w)
                (argv ! 4) (word_of_int (atoi (argv ! 5))) (w_cluster w, w_kernel w) of
           None \<Rightarrow> None
         | Some (Inl f) \<Rightarrow> Some (Inl f)
         | Some (Inr (rc, cm, k)) \<Rightarrow> Some (Inr (w\<lparr>w_cluster := cm, w_kernel := k\<rparr>)))
      else Some (Inr w))"

text \<open>Section 8 after the loop has ended.\<close>

definition shut_down :: "'k machine \<Rightarrow> NodeContext \<Rightarrow> 'k program \<Rightarrow> 'k world option" where
  "shut_down M ctx = (\<lambda>(loop, w).
     let P = lift_poller (m_poller M)
     in (case cluster_leave (m_kernel M) (m_endian M) (w_cluster w, w_kernel w) of
           None \<Rightarrow> None
         | Some (sent, tried, cm, k) \<Rightarrow>
             let w = w\<lparr>w_cluster := cm, w_kernel := k\<rparr>;
                 (rc, loop, w) = loop_del_fd P loop (nc_tcp_server_fd ctx) w;
                 w = w\<lparr>w_kernel := sys_close (m_kernel M) (nc_tcp_server_fd ctx) (w_kernel w)\<rparr>;
                 (rc, loop, w) = loop_del_fd P loop (us_sockfd (nc_gossip_sock ctx)) w;
                 w = w\<lparr>w_kernel := snd (udp_close (m_kernel M) (nc_gossip_sock ctx) (w_kernel w))\<rparr>
             in Some (loop_free P loop w)))"

definition EXIT_SUCCESS :: int where "EXIT_SUCCESS = 0"
definition EXIT_FAILURE :: int where "EXIT_FAILURE = 1"

text \<open>The exit code with the kernel's state at the end; \<open>None\<close> when the process runs on.\<close>

definition main :: "'k machine \<Rightarrow> 'k boot \<Rightarrow> bytes list \<Rightarrow> 'k \<Rightarrow> (fault + int \<times> 'k) option" where
  "main M B argv k =
     (if \<not> b_logger B then Some (Inr (EXIT_FAILURE, k))
      else if length argv < 4 then Some (Inr (EXIT_FAILURE, k))
      else
        let (node_id, port) = parse_flags (tl argv) (chars ''default'', 9000);
            role = (if argv ! 3 = chars ''-c'' then ROLE_CONTROL_NODE else ROLE_WORKER_NODE)
        in (case open_node M B node_id port role k of
              (None, k) \<Rightarrow> Some (Inr (EXIT_FAILURE, k))
            | (Some (server_fd, sock, st), k) \<Rightarrow>
                if \<not> b_rpc_ctx B then Some (Inl NullDeref)
                else
                  let (ctx, loop, w) = register_handlers M server_fd sock st
                  in (case join_seed M B argv w of
                        None \<Rightarrow> None
                      | Some (Inl f) \<Rightarrow> Some (Inl f)
                      | Some (Inr w) \<Rightarrow>
                          (case loop_run (lift_poller (m_poller M)) (b_signalled B) (dispatch M sock) (loop, w) of
                             None \<Rightarrow> None
                           | Some (Inl f) \<Rightarrow> Some (Inl f)
                           | Some (Inr st) \<Rightarrow>
                               map_option (\<lambda>w. Inr (EXIT_SUCCESS, w_kernel w)) (shut_down M ctx st)))))"

section \<open>Every callback keeps the discipline\<close>

lemma sends_watch:
  assumes "lawful_machine M watch"
  shows "watch (fold (\<lambda>m k. snd (udp_send (m_kernel M) sock (ni_ip_address m) (ni_udp_port m) out k)) ms k) = watch k"
  by (induction ms arbitrary: k) (simp_all add: udp_send_def lawful_machineD(6) [OF assms])

lemma heartbeat_frame:
  assumes "lawful_machine M watch"
    and "on_heartbeat_timer (m_kernel M) e (m_timer M) now rnd sock (cm, k) = (cm', k')"
  shows "cm' = cm \<and> watch k' = watch k"
  using assms(2) lawful_machineD(9) [OF assms(1), of k]
  by (auto simp: on_heartbeat_timer_def Let_def sends_watch [OF assms(1)] split: option.splits)

lemma gossip_frame:
  assumes "lawful_machine M watch" and "stored cm"
    and "on_gossip_receive (m_kernel M) e now sock (cm, k) = (cm', k')"
  shows "stored cm' \<and> watch k' = watch k"
proof -
  have "watch (snd (udp_recv (m_kernel M) sock 2048 k)) = watch k"
    using lawful_machineD(5) [OF assms(1), of "us_sockfd sock" 2048 k]
    by (auto simp: udp_recv_def split: prod.split recv_result.split)
  then show ?thesis
    using assms(2,3) stored_update_status [OF assms(2)]
    by (auto simp: on_gossip_receive_def Let_def split: if_splits prod.splits)
qed

lemma consistent_world:
  assumes "consistent watch (l, w)" and "watch k = watch (w_kernel w)" and "stored cm"
  shows "consistent watch (l, w\<lparr>w_cluster := cm, w_kernel := k\<rparr>)"
  using assms table_ok_cong [of watch "w\<lparr>w_cluster := cm, w_kernel := k\<rparr>" w l] by (simp add: consistent_def)

lemma dispatch_handled:
  assumes M: "lawful_machine M watch" and inv: "consistent watch (l, w)" and reg: "registered l fd = Some (a, c)"
  shows "\<exists>l' w'. dispatch M sock c fd ev (l, w) = Some (Inr (l', w')) \<and> consistent watch (l', w') \<and>
    live (registered l) - {a} \<subseteq> live (registered l')"
proof (cases c)
  case OnAccept
  then show ?thesis
    using accept_handled [OF M inv, of fd] by auto
next
  case (OnClient p)
  then show ?thesis
    using client_event_handled [OF M inv, of fd a p ev] reg live_delete [of "registered l" fd a c] by fastforce
next
  case OnGossip
  obtain cm k where g: "on_gossip_receive (m_kernel M) (m_endian M) (m_clock M w) sock (w_cluster w, w_kernel w) = (cm, k)"
    by (metis surj_pair)
  have "stored (w_cluster w)"
    using inv by (simp add: consistent_def)
  then show ?thesis
    using OnGossip g consistent_world [OF inv] gossip_frame [OF M _ g] by auto
next
  case OnHeartbeat
  obtain cm k where g: "on_heartbeat_timer (m_kernel M) (m_endian M) (m_timer M) (m_clock M w) (m_rand M w) sock
      (w_cluster w, w_kernel w) = (cm, k)"
    by (metis surj_pair)
  have "stored (w_cluster w)"
    using inv by (simp add: consistent_def)
  then show ?thesis
    using OnHeartbeat g consistent_world [OF inv, of k "w_cluster w"] heartbeat_frame [OF M g] by auto
next
  case OnReaper
  have "stored (w_cluster w)"
    using inv by (simp add: consistent_def)
  then show ?thesis
    using OnReaper consistent_world [OF inv refl stored_reap [of "w_cluster w"]] by auto
qed

lemma consistent_wait:
  assumes M: "lawful_machine M watch" and inv: "consistent watch (l, w)"
    and wait: "ep_wait (lift_poller (m_poller M)) e n w = (r, w')"
  shows "consistent watch (l, w')"
proof -
  obtain k where "w' = w\<lparr>w_kernel := k\<rparr>" "watch k = watch (w_kernel w)"
    using wait epoll_kernelD(5) [OF lawful_machineD(2) [OF M]]
    by (auto simp: lift_poller_def at_kernel_def split: prod.splits)
  then show ?thesis
    using consistent_world [OF inv, of k "w_cluster w"] inv by (simp add: consistent_def)
qed

lemma registered_running [simp]: "registered (l\<lparr>running := b\<rparr>) = registered l"
  by (rule ext) (simp add: registered_def find_file_context_def)

lemma consistent_running: "consistent watch (l\<lparr>running := b\<rparr>, w) = consistent watch (l, w)"
  by (simp add: consistent_def table_ok_def in_sync_def wf_loop_def)

interpretation daemon: callback_discipline "lift_poller (m_poller M)" "watch \<circ> w_kernel" "dispatch M sock"
    "\<lambda>st. lawful_machine M watch \<and> consistent watch st"
  for M :: "'k machine" and watch sock
proof
  fix l :: "closure EventLoop" and w w' :: "'k world" and e n r b fd a c ev
  assume good: "lawful_machine M watch \<and> consistent watch (l, w)"
  then show "epoll_kernel (lift_poller (m_poller M)) (watch \<circ> w_kernel)"
    using lift_epoll lawful_machineD(2) by blast
  show "wf_loop l \<and> unique (registered l) \<and> 0 \<notin> live (registered l) \<and> in_sync (watch \<circ> w_kernel) l w"
    using good by (simp add: consistent_def table_ok_def)
  show "lawful_machine M watch \<and> consistent watch (l\<lparr>running := b\<rparr>, w)"
    using good by (simp add: consistent_running)
  show "lawful_machine M watch \<and> consistent watch (l, w')" if "ep_wait (lift_poller (m_poller M)) e n w = (r, w')"
    using good consistent_wait [OF _ _ that] by blast
  show "\<exists>l' w'. dispatch M sock c fd ev (l, w) = Some (Inr (l', w')) \<and> (lawful_machine M watch \<and> consistent watch (l', w')) \<and>
      live (registered l) - {a} \<subseteq> live (registered l')"
    if "registered l fd = Some (a, c)"
    using good dispatch_handled [OF _ _ that] by blast
qed

section \<open>Start\<close>

text \<open>What opening sockets and timers does to epoll's list: nothing, and new descriptors are not in it.\<close>

definition lawful_start :: "'k machine \<Rightarrow> ('k \<Rightarrow> int \<Rightarrow> nat option) \<Rightarrow> bool" where
  "lawful_start M watch \<longleftrightarrow>
     (\<forall>k r k'. sys_socket (m_kernel M) k = (r, k') \<longrightarrow> watch k' = watch k) \<and>
     (\<forall>fd k. watch (snd (sys_setsockopt (m_kernel M) fd k)) = watch k) \<and>
     (\<forall>fd ip p k. watch (snd (sys_bind (m_kernel M) fd ip p k)) = watch k) \<and>
     (\<forall>fd n k. watch (snd (sys_listen (m_kernel M) fd n k)) = watch k) \<and>
     (\<forall>k. watch (snd (ep_create (m_poller M) k)) = watch k) \<and>
     (\<forall>fd s n k. watch (snd (tm_settime (m_poller M) fd s n k)) = watch k) \<and>
     (\<forall>k fd k'. tm_create (m_poller M) k = (fd, k') \<longrightarrow> watch k' = watch k \<and> (fd \<noteq> -1 \<longrightarrow> watch k fd = None))"

lemma lawful_startD:
  assumes "lawful_start M watch"
  shows "sys_socket (m_kernel M) k = (r, k') \<Longrightarrow> watch k' = watch k"
    and "watch (snd (sys_setsockopt (m_kernel M) fd k)) = watch k"
    and "watch (snd (sys_bind (m_kernel M) fd ip q k)) = watch k"
    and "watch (snd (sys_listen (m_kernel M) fd n k)) = watch k"
    and "watch (snd (ep_create (m_poller M) k)) = watch k"
    and "watch (snd (tm_settime (m_poller M) fd sec nsec k)) = watch k"
    and "tm_create (m_poller M) k = (fd, k') \<Longrightarrow> watch k' = watch k \<and> (fd \<noteq> -1 \<longrightarrow> watch k fd = None)"
  using assms by (simp_all add: lawful_start_def)

text \<open>A handler that is not a session's can be registered any time.\<close>

lemma add_consistent:
  assumes M: "lawful_machine M watch" and inv: "consistent watch (l, w)" and c: "\<And>p. c \<noteq> OnClient p"
    and run: "loop_add_fd (lift_poller (m_poller M)) (m_new_context M (l, w0)) l fd ev (Some c) w = (rc, l', w')"
  shows "consistent watch (l', w')" and "rc \<noteq> 0 \<Longrightarrow> registered l' = registered l"
proof -
  have wf: "wf_loop l" and sync: "in_sync (watch \<circ> w_kernel) l w" and uniq: "unique (registered l)"
    and nz: "0 \<notin> live (registered l)" and lk: "linked (registered l) (w_sessions w)"
    using inv by (simp_all add: consistent_def table_ok_def)
  have addr: "m_new_context M (l, w0) = Some a \<Longrightarrow> a \<noteq> 0 \<and> a \<notin> live (registered l)" for a
    by (rule lawful_machineD(13) [OF M wf])
  note law = registry.add_law [OF wf run]
  have sync': "in_sync (watch \<circ> w_kernel) l' w'"
    by (rule sync_add [OF lift_epoll [OF lawful_machineD(2) [OF M]] wf sync run])
  have uniq': "unique (registered l')"
    using registry.add_unique [OF wf run uniq] addr by blast
  have nz': "0 \<notin> live (registered l')"
    using law addr nz by (auto simp: live_insert)
  have "linked (registered l') (w_sessions w)"
    using law lk c unfolding linked_def by (auto split: if_splits) (metis option.distinct(1))+
  then show "consistent watch (l', w')"
    using inv law sync' uniq' nz' lifted_frame(1) [OF run] by (simp add: consistent_def table_ok_def)
  show "rc \<noteq> 0 \<Longrightarrow> registered l' = registered l"
    using law by auto
qed

lemma timer_consistent:
  assumes M: "lawful_machine M watch" "lawful_start M watch" and inv: "consistent watch (l, w)" and c: "\<And>p. c \<noteq> OnClient p"
    and run: "loop_add_timer (lift_poller (m_poller M)) (m_new_context M (l, w0)) l ms (Some c) w = (rc, l', w')"
  shows "consistent watch (l', w')"
proof -
  let ?P = "lift_poller (m_poller M)"
  obtain tfd k1 where tm: "tm_create (m_poller M) (w_kernel w) = (tfd, k1)"
    by (metis surj_pair)
  obtain ok k2 where arm: "tm_settime (m_poller M) tfd (unat ms div 1000) (unat ms mod 1000 * 1000000) k1 = (ok, k2)"
    by (metis surj_pair)
  obtain r l3 w3 where add: "loop_add_fd ?P (m_new_context M (l, w0)) l tfd EVENT_READ (Some c) (w\<lparr>w_kernel := k2\<rparr>) = (r, l3, w3)"
    by (metis surj_pair)
  have w: "watch k1 = watch (w_kernel w)" "tfd \<noteq> -1 \<Longrightarrow> watch (w_kernel w) tfd = None" "watch k2 = watch k1"
    using lawful_startD(7) [OF M(2) tm] lawful_startD(6) [OF M(2), of tfd "unat ms div 1000" "unat ms mod 1000 * 1000000" k1] arm
    by simp_all
  have kernel: "consistent watch (l, w\<lparr>w_kernel := k\<rparr>)" if "watch k = watch (w_kernel w)" for k
    using consistent_world [OF inv that, of "w_cluster w"] inv by (simp add: consistent_def)
  note close = epoll_kernelD(4) [OF lawful_machineD(2) [OF M(1)]]
  note inv3 = add_consistent [OF M(1) kernel c add]
  have closed: "consistent watch (l3, w3\<lparr>w_kernel := ep_close (m_poller M) tfd (w_kernel w3)\<rparr>)" if "r \<noteq> 0" "tfd \<noteq> -1"
  proof -
    have "consistent watch (l3, w3)" and "registered l3 = registered l"
      using inv3 that w by simp_all
    then have "watch (w_kernel w3) = watch (w_kernel w)"
      using inv by (simp add: consistent_def table_ok_def in_sync_def)
    then show ?thesis
      using consistent_world [OF \<open>consistent watch (l3, w3)\<close>, of "ep_close (m_poller M) tfd (w_kernel w3)" "w_cluster w3"]
        close w(2) [OF that(2)] \<open>consistent watch (l3, w3)\<close>
      by (simp add: consistent_def fun_upd_idem)
  qed
  have "(l', w') = (l, w\<lparr>w_kernel := k1\<rparr>) \<or> tfd \<noteq> -1 \<and> (l', w') \<in> {(l, w\<lparr>w_kernel := ep_close (m_poller M) tfd k2\<rparr>),
      (if r \<noteq> 0 then (l3, w3\<lparr>w_kernel := ep_close (m_poller M) tfd (w_kernel w3)\<rparr>) else (l3, w3))}"
    using run tm arm add by (auto simp: loop_add_timer_def lift_poller_def at_kernel_def split: if_splits)
  then show ?thesis
    using kernel [of k1] kernel [of "ep_close (m_poller M) tfd k2"] closed inv3(1) w close
    by (auto simp: fun_upd_idem split: if_splits)
qed

lemma register_handlers_consistent:
  assumes M: "lawful_machine M watch" "lawful_start M watch" and inv: "consistent watch st"
    and run: "register_handlers M fd sock st = (ctx, st')"
  shows "consistent watch st'"
proof -
  obtain l w where st: "st = (l, w)" by (cases st)
  let ?P = "lift_poller (m_poller M)"
  obtain r1 l1 w1 where 1: "loop_add_fd ?P (m_new_context M (l, w)) l fd EVENT_READ (Some OnAccept) w = (r1, l1, w1)"
    by (metis surj_pair)
  obtain r2 l2 w2 where 2: "loop_add_fd ?P (m_new_context M (l1, w1)) l1 (us_sockfd sock) EVENT_READ (Some OnGossip) w1 = (r2, l2, w2)"
    by (metis surj_pair)
  obtain r3 l3 w3 where 3: "loop_add_timer ?P (m_new_context M (l2, w2)) l2 1000 (Some OnHeartbeat) w2 = (r3, l3, w3)"
    by (metis surj_pair)
  obtain r4 l4 w4 where 4: "loop_add_timer ?P (m_new_context M (l3, w3)) l3 500 (Some OnReaper) w3 = (r4, l4, w4)"
    by (metis surj_pair)
  have "consistent watch (l1, w1)"
    by (rule add_consistent(1) [OF M(1) inv [unfolded st] _ 1]) simp
  then have "consistent watch (l2, w2)"
    by (rule add_consistent(1) [OF M(1) _ _ 2]) simp
  then have "consistent watch (l3, w3)"
    by (rule timer_consistent [OF M _ _ 3]) simp
  then have "consistent watch (l4, w4)"
    by (rule timer_consistent [OF M _ _ 4]) simp
  then show ?thesis
    using run 1 2 3 4 by (simp add: register_handlers_def st)
qed

lemma create_empty:
  assumes "loop_create P m1 m2 n k = (Some l, k')"
  shows "wf_loop l" and "registered l = (\<lambda>_. None)" and "k' = snd (ep_create P k)"
  using assms fd_hash_less
  by (auto simp: loop_create_def Let_def wf_loop_def FD_HASH_SIZE_def registered_def find_file_context_def fun_eq_iff
      split: if_splits prod.splits)

lemma listen_watch:
  assumes "lawful_machine M watch" "lawful_start M watch" and "tcp_server_listen (m_kernel M) ip port n k = (fd, k')" and "0 \<le> fd"
  shows "watch k' = watch k"
proof -
  note laws = lawful_startD(1) [OF assms(2)] lawful_startD(2-4) [OF assms(2)]
  show ?thesis
    using assms(3,4)
    by (auto simp: tcp_server_listen_def Let_def split: if_splits prod.splits) (metis laws snd_conv)
qed

lemma udp_init_watch:
  assumes "lawful_machine M watch" "lawful_start M watch" and "udp_init (m_kernel M) ip port k = ((rc, Some sock), k')"
  shows "watch k' = watch k"
proof -
  have "watch k2 = watch k1" if "net_set_nonblocking (m_kernel M) fd k1 = (ok, k2)" for fd k1 ok k2
    using that lawful_machineD(7) [OF assms(1)] by (auto simp: net_set_nonblocking_def split: option.splits) (metis snd_conv)
  note laws = this lawful_startD(1) [OF assms(2)] lawful_startD(3) [OF assms(2)]
  show ?thesis
    using assms(3) by (auto simp: udp_init_def Let_def split: if_splits prod.splits) (metis laws snd_conv)
qed

lemma open_node_consistent:
  assumes M: "lawful_machine M watch" "lawful_start M watch" and "watch k = (\<lambda>_. None)"
    and run: "open_node M B nid port role k = (Some (fd, sock, l, w), k')"
  shows "consistent watch (l, w)"
proof -
  obtain k1 k2 rc where l: "loop_create (m_poller M) (b_loop_mem B) (b_table_mem B) 1024 k = (Some l, k1)"
    and t: "tcp_server_listen (m_kernel M) any_address port 128 k1 = (fd, k2)" "0 \<le> fd"
    and u: "udp_init (m_kernel M) any_address port k2 = ((rc, Some sock), k')"
    and w: "w_kernel w = k'" "w_sessions w = (\<lambda>_. None)" "stored (w_cluster w)"
    using run by (auto simp: open_node_def Let_def stored_def cluster_init_def split: prod.splits option.splits if_splits)
  have "watch k' = (\<lambda>_. None)"
    using udp_init_watch [OF M u] listen_watch [OF M t] create_empty(3) [OF l] lawful_startD(5) [OF M(2), of k] assms(3) by simp
  then show ?thesis
    using create_empty [OF l] w
    by (auto simp: consistent_def table_ok_def in_sync_def unique_def live_iff linked_def fun_eq_iff)
qed

section \<open>Safety of the running node\<close>

text \<open>C4: Once started, the node never runs into freed memory, whatever connections come, what they send and how events are
  batched: in every state its loop reaches, sessions and registered contexts belong together one to one, every session's buffers are
  within their sizes, and the next round handles all its events to the end unless epoll itself fails.\<close>

theorem daemon_stays_consistent:
  assumes "lawful_machine M watch" and "consistent watch st"
    and "(loop_step (lift_poller (m_poller M)) signalled (dispatch M sock))\<^sup>*\<^sup>* st (l, w)"
  shows "consistent watch (l, w) \<and>
    (running l \<longrightarrow> \<not> signalled w \<longrightarrow>
      (\<exists>st'. loop_step (lift_poller (m_poller M)) signalled (dispatch M sock) (l, w) st') \<or>
      (\<exists>w'. ep_wait (lift_poller (m_poller M)) (epoll_fd l) (max_events l) w = (WaitError, w')))"
  using daemon.reachable_good [OF assms(3), of watch] daemon.round_progress [of M watch l w signalled sock] assms(1,2) by blast

text \<open>A machine on which descriptors are numbers in turn and the state is epoll's list with the next number.\<close>

type_synonym demo_os = "(int \<Rightarrow> nat option) \<times> int"

definition demo_machine :: "demo_os machine" where
  "demo_machine =
     \<lparr>m_kernel =
        \<lparr>sys_socket = (\<lambda>(m, n). (n, (m, n + 1))), sys_setsockopt = (\<lambda>_ k. (True, k)), sys_inet_pton = (\<lambda>_. True),
         sys_bind = (\<lambda>_ _ _ k. (True, k)), sys_listen = (\<lambda>_ _ k. (True, k)), sys_connect = (\<lambda>_ _ _ k. (False, k)),
         sys_accept = (\<lambda>_ (m, n). if 0 \<le> n \<and> m n = None then (Accepted n (zeros 46) 0, (m, n + 1)) else (AcceptAgain, (m, n))),
         sys_get_flags = (\<lambda>_ _. Some 0), sys_set_flags = (\<lambda>_ _ k. (True, k)), sys_send = (\<lambda>_ _ k. (SendAgain, k)),
         sys_recv = (\<lambda>_ _ k. (RecvAgain, k)), sys_sendto = (\<lambda>_ _ _ d k. (int (length d), k)),
         sys_recvfrom = (\<lambda>_ _ k. ((RecvAgain, [], 0), k)), sys_close = (\<lambda>fd (m, n). (m(fd := None), n))\<rparr>,
      m_poller =
        \<lparr>ep_create = (\<lambda>(m, n). (n, (m, n + 1))), ep_add = (\<lambda>_ fd a _ (m, n). (True, (m(fd \<mapsto> a), n))),
         ep_mod = (\<lambda>_ fd a _ (m, n). (True, (m(fd \<mapsto> a), n))), ep_del = (\<lambda>_ fd (m, n). (True, (m(fd := None), n))),
         ep_wait = (\<lambda>_ _ (m, n). (case m 4 of None \<Rightarrow> WaitIntr | Some a \<Rightarrow> Ready [(a, EPOLLIN)], (m, n))),
         ep_close = (\<lambda>fd (m, n). (m(fd := None), n)),
         tm_create = (\<lambda>(m, n). if m n = None then (n, (m, n + 1)) else (-1, (m, n))),
         tm_settime = (\<lambda>_ _ _ k. (True, k))\<rparr>,
      m_endian = Little, m_realloc = (\<lambda>_. True), m_payload_mem = (\<lambda>_. True), m_response_mem = (\<lambda>_. True),
      m_fresh = (\<lambda>_ n. Some (zeros n)), m_new_session = (\<lambda>w. if w_sessions w 0 = None then Some 0 else None),
      m_new_context = (\<lambda>(l, _). Some (Suc (sum_list (map fc_addr (concat (fd_table l)))))),
      m_wall = (\<lambda>_. 0), m_gettime = (\<lambda>_. Some (0, 0)), m_rand = (\<lambda>_. 0), m_timer = Some\<rparr>"

lemma live_below_sum:
  assumes "wf_loop l" and "a \<in> live (registered l)"
  shows "a \<le> sum_list (map fc_addr (concat (fd_table l)))"
proof -
  obtain fd c where "registered l fd = Some (a, c)"
    using assms(2) by (auto simp: live_iff)
  then have "\<lparr>fc_addr = a, fc_fd = fd, fc_callback = c\<rparr> \<in> set (concat (fd_table l))"
    by (simp only: contexts_registered [OF assms(1)]) simp
  from imageI [OF this, of fc_addr] have "a \<in> set (map fc_addr (concat (fd_table l)))"
    by (simp only: set_map) simp
  then show ?thesis
    by (rule member_le_sum_list) simp
qed

lemma demo_machine_lawful: "lawful_machine demo_machine fst" and demo_machine_start: "lawful_start demo_machine fst"
proof -
  have "\<exists>fds. distinct fds \<and> map (Some \<circ> fst) evs = map (fst s) fds"
    if "(case s of (m, n) \<Rightarrow> (case m 4 of None \<Rightarrow> WaitIntr | Some a \<Rightarrow> Ready [(a, EPOLLIN)], m, n)) = (Ready evs, s')"
    for s s' :: demo_os and evs
    using that by (intro exI [of _ "[4]"]) (auto split: prod.splits option.splits)
  then have "epoll_kernel (m_poller demo_machine) fst"
    by (auto simp: epoll_kernel_def demo_machine_def split: prod.splits)
  moreover have "Suc (sum_list (map fc_addr (concat (fd_table l)))) \<notin> live (registered l)" if "wf_loop l"
    for l :: "closure EventLoop"
    using live_below_sum [OF that] by fastforce
  ultimately show "lawful_machine demo_machine fst"
    unfolding lawful_machine_def bounded_kernel_def
    by (simp add: demo_machine_def split: prod.splits)
  show "lawful_start demo_machine fst"
    by (auto simp: lawful_start_def demo_machine_def split: prod.splits if_splits)
qed

definition sample_sock :: UdpSocket where
  "sample_sock = \<lparr>us_sockfd = 5, us_bind_port = 9000\<rparr>"

definition demo_world :: "demo_os world" where
  "demo_world = \<lparr>w_kernel = (\<lambda>_. None, 5), w_cluster = sample_cluster, w_sessions = (\<lambda>_. None)\<rparr>"

lemma demo_consistent: "consistent fst (new_loop\<lparr>running := True\<rparr>, demo_world)"
  unfolding consistent_running using new_loop_wf
  by (auto simp: consistent_def table_ok_def new_loop_empty in_sync_def unique_def live_iff linked_def demo_world_def
      stored_def sample_cluster_def cluster_init_def)

theorem daemon_stays_consistent_witness:
  "\<exists>l w. loop_add_fd (lift_poller (m_poller demo_machine)) (Some 1) (new_loop\<lparr>running := True\<rparr>) 4 EVENT_READ (Some OnAccept)
      demo_world = (0, l, w) \<and> registered l 4 = Some (1, OnAccept) \<and>
     (\<exists>st'. loop_step (lift_poller (m_poller demo_machine)) (\<lambda>_. False) (dispatch demo_machine sample_sock) (l, w) st')"
proof -
  let ?P = "lift_poller (m_poller demo_machine)" and ?l = "new_loop\<lparr>running := True\<rparr> :: closure EventLoop"
  obtain rc l w where run: "loop_add_fd ?P (m_new_context demo_machine (?l, demo_world)) ?l 4 EVENT_READ (Some OnAccept)
      demo_world = (rc, l, w)"
    by (metis surj_pair)
  have addr: "m_new_context demo_machine (?l, demo_world) = Some 1"
    by (simp add: demo_machine_def new_loop_def)
  have inv: "consistent fst (l, w)"
    by (rule add_consistent(1) [OF demo_machine_lawful demo_consistent _ run]) simp
  have rc: "rc = 0" and "running l" and "\<forall>e n w'. ep_wait ?P e n w \<noteq> (WaitError, w')" and reg: "registered l 4 = Some (1, OnAccept)"
    using run
    by (auto simp: addr loop_add_fd_def insert_file_context_def find_file_context_def new_loop_def fd_hash_mod FD_HASH_SIZE_def
        demo_machine_def demo_world_def lift_poller_def at_kernel_def registered_def)
  then show ?thesis
    using daemon_stays_consistent [OF demo_machine_lawful inv rtranclp.rtrancl_refl, of "\<lambda>_. False" sample_sock] run addr by auto
qed


definition demo_boot :: "demo_os boot" where
  "demo_boot =
     \<lparr>b_logger = True, b_loop_mem = True, b_table_mem = True, b_rpc_ctx = True, b_signalled = (\<lambda>_. False),
      b_join_mem = (\<lambda>_. True), b_member_mem = (\<lambda>_. True), b_seed_mem = True, b_slot = (\<lambda>_. sample_slot)\<rparr>"


end
