(* ===== verification/Session_Stream.thy ===== *)
theory Session_Stream
  imports Session_Safety
begin

text \<open>
  A join request over a byte stream: however the kernel cuts request and response into pieces, the session reassembles the
  request, answers it once and sends the whole answer.
\<close>

section \<open>Reading\<close>

text \<open>How far a session has come with the message of header \<open>h\<close> and payload \<open>p\<close>; \<open>rest\<close> is what follows.\<close>

definition arrived :: "endian \<Rightarrow> RpcHeader \<Rightarrow> bytes \<Rightarrow> bytes \<Rightarrow> bytes \<Rightarrow> ClientSession \<Rightarrow> bool" where
  "arrived e h p rest rx s \<longleftrightarrow>
     (case cs_state s of
        SESSION_READING_HEADER \<Rightarrow>
          cs_header_buf s @ rx = serializer_pack_rpc e h @ p @ rest \<and> length (cs_header_buf s) < sizeof_RpcHeader \<and>
          cs_payload_buf s = None \<and> cs_payload_total s = 0
      | SESSION_READING_PAYLOAD \<Rightarrow>
          cs_header_buf s = serializer_pack_rpc e h \<and> cs_header s = h \<and> payload_of s @ rx = p @ rest \<and>
          cs_payload_total s = length p \<and> length (payload_of s) < length p
      | SESSION_PROCESSING \<Rightarrow>
          cs_header_buf s = serializer_pack_rpc e h \<and> cs_header s = h \<and> payload_of s = p \<and> rx = rest \<and>
          cs_payload_total s = length p
      | _ \<Rightarrow> False)"

definition missing :: "bytes \<Rightarrow> ClientSession \<Rightarrow> nat" where
  "missing p s = sizeof_RpcHeader + length p - length (cs_header_buf s) - length (payload_of s)"

definition valid_request :: "RpcHeader \<Rightarrow> bytes \<Rightarrow> bool" where
  "valid_request h p \<longleftrightarrow>
     wf_rpc_header h \<and> magic h = RPC_MAGIC \<and> unat (payload_len h) = length p \<and> length p \<le> 10485760"

lemma read_some:
  assumes "stream_kernel K tx rx" and "healthy_kernel K rx" and "off < len" and "rx fd k \<noteq> []"
  shows "\<exists>d k'. read_into_buffer K fd off len k = ((int (length d), d), k') \<and> 0 < length d \<and> off + length d \<le> len \<and>
    rx fd k = d @ rx fd k' \<and> tx fd k' = tx fd k"
proof -
  obtain d k' where call: "sys_recv K fd (len - off) k = (Received d, k')" and "d \<noteq> []"
    using healthy_kernel_recv [OF assms(2), of "len - off" fd k] assms(3,4) by auto
  then show ?thesis
    using stream_kernel_recv(1) [OF assms(1) call] stream_kernel_recv(2) [OF assms(1) call refl] assms(3)
    by (intro exI [of _ d] exI [of _ k']) (auto simp: read_into_buffer_def)
qed

text \<open>One read event moves at least one byte, and none past the message.\<close>

lemma header_pass:
  assumes K: "stream_kernel (m_kernel M) tx rx" "healthy_kernel (m_kernel M) rx" and req: "valid_request h p"
    and mem: "\<And>w. m_payload_mem M w"
    and inv: "arrived (m_endian M) h p rest (rx fd (w_kernel w)) s" and st: "cs_state s = SESSION_READING_HEADER"
    and fd: "sockfd (cs_conn s) = fd"
  shows "\<exists>s' k'. handle_reading_header M (s, w) = (0, s', w\<lparr>w_kernel := k'\<rparr>) \<and>
    arrived (m_endian M) h p rest (rx fd k') s' \<and> missing p s' < missing p s \<and> cs_conn s' = cs_conn s \<and>
    cs_response_bytes_sent s' = cs_response_bytes_sent s \<and> tx fd k' = tx fd (w_kernel w)"
proof -
  have h: "length (serializer_pack_rpc (m_endian M) h) = sizeof_RpcHeader"
    and un: "serializer_unpack_rpc (m_endian M) (serializer_pack_rpc (m_endian M) h) = h"
    using req rpc.pack_length rpc.unpack_pack by (auto simp: valid_request_def)
  have buf: "cs_header_buf s @ rx fd (w_kernel w) = serializer_pack_rpc (m_endian M) h @ p @ rest"
    and len: "length (cs_header_buf s) < sizeof_RpcHeader" and no: "cs_payload_buf s = None" "cs_payload_total s = 0"
    using inv st by (simp_all add: arrived_def)
  have "rx fd (w_kernel w) \<noteq> []"
    using arg_cong [OF buf, of length] h len by auto
  then obtain d k' where read: "read_into_buffer (m_kernel M) fd (length (cs_header_buf s)) sizeof_RpcHeader (w_kernel w) =
      ((int (length d), d), k')" and d: "0 < length d" "length (cs_header_buf s) + length d \<le> sizeof_RpcHeader"
      "rx fd (w_kernel w) = d @ rx fd k'" "tx fd k' = tx fd (w_kernel w)"
    using read_some [OF K len] by blast
  have all: "(cs_header_buf s @ d) @ rx fd k' = serializer_pack_rpc (m_endian M) h @ p @ rest"
    using buf d(3) by simp
  have full: "cs_header_buf s @ d = serializer_pack_rpc (m_endian M) h \<and> rx fd k' = p @ rest"
    if "length (cs_header_buf s) + length d = sizeof_RpcHeader"
    using all that h by (intro append_eq_append_conv [THEN iffD1]) auto
  have size: "payload_len h \<le> MAX_PAYLOAD_SIZE" "0 < payload_len h \<longleftrightarrow> p \<noteq> []" "magic h = RPC_MAGIC"
    using req by (auto simp: valid_request_def MAX_PAYLOAD_SIZE_def word_le_nat_alt word_less_nat_alt)
  have "sizeof_RpcHeader + length p - (length (cs_header_buf s) + length d) < sizeof_RpcHeader + length p - length (cs_header_buf s)"
    using d(1) len by linarith
  then show ?thesis
    using read d all full size un no fd st len req mem h
    by (auto simp: handle_reading_header_def Let_def arrived_def missing_def payload_of_def valid_request_def intro!: exI [of _ k'])
qed

lemma payload_pass:
  assumes K: "stream_kernel (m_kernel M) tx rx" "healthy_kernel (m_kernel M) rx" and req: "valid_request h p"
    and inv: "arrived (m_endian M) h p rest (rx fd (w_kernel w)) s" and st: "cs_state s = SESSION_READING_PAYLOAD"
    and fd: "sockfd (cs_conn s) = fd"
  shows "\<exists>s' k'. handle_reading_payload M (s, w) = (0, s', w\<lparr>w_kernel := k'\<rparr>) \<and>
    arrived (m_endian M) h p rest (rx fd k') s' \<and> missing p s' < missing p s \<and> cs_conn s' = cs_conn s \<and>
    cs_response_bytes_sent s' = cs_response_bytes_sent s \<and> tx fd k' = tx fd (w_kernel w)"
proof -
  have h: "length (serializer_pack_rpc (m_endian M) h) = sizeof_RpcHeader"
    using req rpc.pack_length by (auto simp: valid_request_def)
  have buf: "payload_of s @ rx fd (w_kernel w) = p @ rest" and len: "length (payload_of s) < length p"
    and ok: "cs_header_buf s = serializer_pack_rpc (m_endian M) h" "cs_header s = h" "cs_payload_total s = length p"
    using inv st by (simp_all add: arrived_def)
  have "rx fd (w_kernel w) \<noteq> []"
    using arg_cong [OF buf, of length] len by auto
  then obtain d k' where read: "read_into_buffer (m_kernel M) fd (length (payload_of s)) (length p) (w_kernel w) =
      ((int (length d), d), k')" and d: "0 < length d" "length (payload_of s) + length d \<le> length p"
      "rx fd (w_kernel w) = d @ rx fd k'" "tx fd k' = tx fd (w_kernel w)"
    using read_some [OF K len] by blast
  have all: "(payload_of s @ d) @ rx fd k' = p @ rest"
    using buf d(3) by simp
  have full: "payload_of s @ d = p \<and> rx fd k' = rest" if "length (payload_of s) + length d = length p"
    using all that by (intro append_eq_append_conv [THEN iffD1]) auto
  have new: "payload_of (s\<lparr>cs_payload_buf := Some q\<rparr>) = q" "payload_of (s\<lparr>cs_payload_buf := Some q, cs_state := t\<rparr>) = q" for q t
    by (simp_all add: payload_of_def)
  have "length p - (length (payload_of s) + length d) < length p - length (payload_of s)"
    using d(1) len by linarith
  then show ?thesis
    using read d all full ok fd st len h
    by (auto simp: handle_reading_payload_def Let_def arrived_def missing_def new intro!: exI [of _ k'])
qed

section \<open>Events in sequence\<close>

text \<open>The events of one session, one call of the callback's loop each; an error ends it.\<close>

fun serve :: "'k machine \<Rightarrow> nat \<Rightarrow> u32 list \<Rightarrow> ClientSession \<times> 'k program \<Rightarrow> int \<times> ClientSession \<times> 'k program" where
  "serve M p [] st = (0, st)"
| "serve M p (ev # evs) st =
     (case client_loop M p ev st of (rc, st') \<Rightarrow> if rc < 0 then (rc, st') else serve M p evs st')"

lemma serve_append:
  "serve M p (xs @ ys) st = (case serve M p xs st of (rc, st') \<Rightarrow> if rc < 0 then (rc, st') else serve M p ys st')"
  by (induction xs arbitrary: st) (auto split: prod.split)

lemma waiting_to_send: "cs_state s = SESSION_SENDING_RESPONSE \<Longrightarrow> serve M q (replicate n EVENT_READ) (s, st) = (0, s, st)"
proof (induction n)
  case (Suc n)
  have "client_pass M q EVENT_READ (s, st) = (0, False, s, st)"
    using Suc.prems by (cases st) (simp add: client_pass_def event_defs)
  then show ?case
    using Suc by (simp add: client_loop.simps [of M q EVENT_READ "(s, st)"])
qed simp

text \<open>Read events bring the whole message to the processing step.\<close>

lemma read_phase:
  assumes K: "stream_kernel (m_kernel M) tx rx" "healthy_kernel (m_kernel M) rx" and req: "valid_request h p"
    and mem: "\<And>w. m_payload_mem M w"
  shows "arrived (m_endian M) h p rest (rx fd (w_kernel w)) s \<Longrightarrow> cs_state s \<noteq> SESSION_PROCESSING \<Longrightarrow> sockfd (cs_conn s) = fd \<Longrightarrow>
    missing p s \<le> n \<Longrightarrow>
    \<exists>s' k' j. arrived (m_endian M) h p rest (rx fd k') s' \<and> cs_state s' = SESSION_PROCESSING \<and> cs_conn s' = cs_conn s \<and>
      cs_response_bytes_sent s' = cs_response_bytes_sent s \<and> tx fd k' = tx fd (w_kernel w) \<and>
      serve M q (replicate n EVENT_READ) (s, l, w) =
        (case client_loop M q EVENT_READ (s', l, w\<lparr>w_kernel := k'\<rparr>) of
           (rc, st') \<Rightarrow> if rc < 0 then (rc, st') else serve M q (replicate j EVENT_READ) st')"
proof (induction n arbitrary: s w)
  case 0
  then have "missing p s = 0" by simp
  moreover have "missing p s > 0"
    using 0 header_pass [OF K req mem, of rest fd w s] payload_pass [OF K req, of rest fd w s]
    by (cases "cs_state s") (auto simp: arrived_def)
  ultimately show ?case by simp
next
  case (Suc n)
  obtain s1 k1 where pass: "client_pass M q EVENT_READ (s, l, w) = (0, cs_state s1 = SESSION_PROCESSING, s1, l, w\<lparr>w_kernel := k1\<rparr>)"
    and s1: "arrived (m_endian M) h p rest (rx fd k1) s1" "missing p s1 < missing p s" "cs_conn s1 = cs_conn s"
      "cs_response_bytes_sent s1 = cs_response_bytes_sent s" "tx fd k1 = tx fd (w_kernel w)"
    using Suc.prems header_pass [OF K req mem, of rest fd w s] payload_pass [OF K req, of rest fd w s]
    by (cases "cs_state s") (auto simp: arrived_def client_pass_def event_defs)
  note unfold = client_loop.simps [of M q EVENT_READ "(s, l, w)", unfolded pass prod.case]
  show ?case
  proof (cases "cs_state s1 = SESSION_PROCESSING")
    case True
    then show ?thesis
      using s1 by (intro exI [of _ s1] exI [of _ k1] exI [of _ n]) (simp add: unfold)
  next
    case False
    obtain s' k' j where "arrived (m_endian M) h p rest (rx fd k') s'" "cs_state s' = SESSION_PROCESSING" "cs_conn s' = cs_conn s1"
      "cs_response_bytes_sent s' = cs_response_bytes_sent s1" "tx fd k' = tx fd k1"
      "serve M q (replicate n EVENT_READ) (s1, l, w\<lparr>w_kernel := k1\<rparr>) =
        (case client_loop M q EVENT_READ (s', l, w\<lparr>w_kernel := k'\<rparr>) of
           (rc, st') \<Rightarrow> if rc < 0 then (rc, st') else serve M q (replicate j EVENT_READ) st')"
      using Suc.IH [of "w\<lparr>w_kernel := k1\<rparr>" s1] s1 False Suc.prems(3,4) by auto
    then show ?thesis
      using s1 False by (intro exI [of _ s'] exI [of _ k'] exI [of _ j]) (simp add: unfold)
  qed
qed

section \<open>Sending\<close>

lemma write_some:
  assumes "stream_kernel K tx rx" and "healthy_kernel K rx" and "off < length b"
  shows "\<exists>n k'. write_from_buffer K fd b off (length b) k = (int n, k') \<and> 0 < n \<and> off + n \<le> length b \<and>
    tx fd k' = tx fd k @ take n (drop off b)"
proof -
  obtain n k' where call: "sys_send K fd (drop off b) k = (Sent n, k')" and "0 < n"
    using healthy_kernel_send [OF assms(2), of "drop off b" fd k] assms(3) by auto
  then show ?thesis
    using stream_kernel_send(2) [OF assms(1) call refl] assms(3)
    by (intro exI [of _ n] exI [of _ k']) (auto simp: write_from_buffer_def)
qed

lemma write_phase:
  assumes K: "stream_kernel (m_kernel M) tx rx" "healthy_kernel (m_kernel M) rx"
  shows "cs_state s = SESSION_SENDING_RESPONSE \<Longrightarrow> cs_response_buf s = Some b \<Longrightarrow> cs_response_len s = length b \<Longrightarrow>
    cs_response_bytes_sent s < length b \<Longrightarrow> sockfd (cs_conn s) = fd \<Longrightarrow> length b - cs_response_bytes_sent s \<le> n \<Longrightarrow>
    \<exists>rc s' k'. serve M q (replicate n EVENT_WRITE) (s, l, w) = (rc, s', l, w\<lparr>w_kernel := k'\<rparr>) \<and>
      cs_state s' = SESSION_DONE \<and> tx fd k' = tx fd (w_kernel w) @ drop (cs_response_bytes_sent s) b"
proof (induction n arbitrary: s w)
  case (Suc n)
  let ?off = "cs_response_bytes_sent s"
  obtain m k1 where wr: "write_from_buffer (m_kernel M) fd b ?off (length b) (w_kernel w) = (int m, k1)"
    and m: "0 < m" "?off + m \<le> length b" "tx fd k1 = tx fd (w_kernel w) @ take m (drop ?off b)"
    using write_some [OF K Suc.prems(4)] by blast
  let ?s = "s\<lparr>cs_response_bytes_sent := ?off + m\<rparr>"
  have sent: "take m (drop ?off b) @ drop (?off + m) b = drop ?off b"
    by (metis append_take_drop_id drop_drop add.commute)
  have pass: "client_pass M q EVENT_WRITE (s, l, w) =
      (0, False, if ?off + m = length b then ?s\<lparr>cs_state := SESSION_DONE\<rparr> else ?s, l, w\<lparr>w_kernel := k1\<rparr>)"
    using Suc.prems wr m by (simp add: client_pass_def handle_sending_response_def event_defs)
  note unfold = client_loop.simps [of M q EVENT_WRITE "(s, l, w)", unfolded pass prod.case]
  show ?case
  proof (cases "?off + m = length b")
    case True
    let ?d = "?s\<lparr>cs_state := SESSION_DONE\<rparr>"
    have "\<exists>rc. serve M q (replicate n EVENT_WRITE) (?d, l, w\<lparr>w_kernel := k1\<rparr>) = (rc, ?d, l, w\<lparr>w_kernel := k1\<rparr>)"
      by (cases n) (simp_all add: client_loop.simps [of M q EVENT_WRITE "(?d, l, w\<lparr>w_kernel := k1\<rparr>)"] client_pass_def)
    then show ?thesis
      using True m sent by (auto simp: unfold)
  next
    case False
    then have "\<exists>rc s' k'. serve M q (replicate n EVENT_WRITE) (?s, l, w\<lparr>w_kernel := k1\<rparr>) = (rc, s', l, w\<lparr>w_kernel := k'\<rparr>) \<and>
        cs_state s' = SESSION_DONE \<and> tx fd k' = tx fd k1 @ drop (?off + m) b"
      using Suc.IH [of ?s "w\<lparr>w_kernel := k1\<rparr>"] Suc.prems m by simp
    then show ?thesis
      using False m sent by (auto simp: unfold)
  qed
qed simp

section \<open>A join request served\<close>

text \<open>Memory is there, and epoll accepts the change of interest.\<close>

definition serving_machine :: "'k machine \<Rightarrow> (int \<Rightarrow> 'k \<Rightarrow> bytes) \<Rightarrow> bool" where
  "serving_machine M tx \<longleftrightarrow>
     (\<forall>w. m_payload_mem M w \<and> m_response_mem M w \<and> m_realloc M w) \<and>
     (\<forall>w n. \<exists>b. m_fresh M w n = Some b \<and> length b = n) \<and>
     (\<forall>e fd a m k. \<exists>k'. ep_mod (m_poller M) e fd a m k = (True, k') \<and> (\<forall>fd. tx fd k' = tx fd k))"

lemma join_request_read_image:
  assumes "length (jr_node_id r) = 37" and "length (jr_ip_address r) = 46"
  shows "join_request_read e (join_request_image e r) = r"
    and "length (join_request_image e r) = sizeof_JoinRequestPayload"
  using assms
  by (simp_all add: join_request_read_def join_request_image_def field_at_0 field_at_skip field_at_all host_word_host_bytes
      cluster_sizes)

lemma process_join:
  assumes M: "serving_machine M tx" and l: "wf_loop l" "registered l (sockfd (cs_conn s)) = Some (a, OnClient q)"
    and s: "cs_state s = SESSION_PROCESSING" "command_type (cs_header s) = RPC_CMD_JOIN_REQ"
      "cs_payload_total s = sizeof_JoinRequestPayload"
    and run: "cluster_handle_join_req (m_endian M) (m_realloc M w) (m_fresh M w) (m_wall M w)
      (join_request_read (m_endian M) (payload_of s)) (w_cluster w) = (0, Some payload, cm)"
  shows "\<exists>s' l' w'. client_loop M q EVENT_READ (s, l, w) = (0, s', l', w') \<and> cs_state s' = SESSION_SENDING_RESPONSE \<and>
    cs_response_buf s' = Some (serializer_pack_rpc (m_endian M) (response_header (cs_header s) (length payload)) @ payload) \<and>
    cs_response_len s' = sizeof_RpcHeader + length payload \<and> cs_response_bytes_sent s' = cs_response_bytes_sent s \<and>
    cs_conn s' = cs_conn s \<and> w_cluster w' = cm \<and> tx (sockfd (cs_conn s)) (w_kernel w') = tx (sockfd (cs_conn s)) (w_kernel w)"
proof -
  let ?fd = "sockfd (cs_conn s)" and ?w = "w\<lparr>w_cluster := cm\<rparr>"
  let ?s = "s\<lparr>cs_response_len := sizeof_RpcHeader + length payload, cs_response_buf :=
      Some (serializer_pack_rpc (m_endian M) (response_header (cs_header s) (length payload)) @ payload),
      cs_state := SESSION_SENDING_RESPONSE\<rparr>"
  obtain fc where fc: "find_file_context l ?fd = Some fc"
    using l(2) by (auto simp: registered_def)
  have "0 \<le> ?fd"
    using registered_nonneg [OF l(1), of ?fd] l(2) by simp
  let ?l = "update_context ?fd (OnClient q) l"
  obtain k' where ep: "ep_mod (m_poller M) (epoll_fd ?l) ?fd (fc_addr fc) (epoll_mask EVENT_WRITE) (w_kernel w) = (True, k')"
    "\<forall>fd. tx fd k' = tx fd (w_kernel w)"
    using M unfolding serving_machine_def by blast
  have mod: "loop_mod_fd (lift_poller (m_poller M)) l ?fd EVENT_WRITE (Some (OnClient q)) ?w = (0, ?l, ?w\<lparr>w_kernel := k'\<rparr>)"
    using fc ep(1) \<open>0 \<le> ?fd\<close> by (simp add: loop_mod_fd_def lift_poller_def at_kernel_def)
  have "handle_processing M q (s, l, w) = (0, ?s, ?l, ?w\<lparr>w_kernel := k'\<rparr>)"
    using s run mod M by (simp add: handle_processing_def serving_machine_def)
  then have pass: "client_pass M q EVENT_READ (s, l, w) = (0, True, ?s, ?l, ?w\<lparr>w_kernel := k'\<rparr>)"
    using s(1) by (simp add: client_pass_def)
  have stop: "client_loop M q EVENT_READ (?s, ?l, ?w\<lparr>w_kernel := k'\<rparr>) = (0, ?s, ?l, ?w\<lparr>w_kernel := k'\<rparr>)"
    by (subst client_loop.simps) (simp add: client_pass_def event_defs)
  show ?thesis
    using stop ep(2) by (simp add: client_loop.simps [of M q EVENT_READ "(s, l, w)"] pass)
qed

lemma fresh_arrived:
  assumes "rx = serializer_pack_rpc e h @ p @ rest" and "wf_rpc_header h"
  shows "arrived e h p rest rx ((session_create fd)\<lparr>cs_conn := c\<rparr>)" and "missing p ((session_create fd)\<lparr>cs_conn := c\<rparr>) = sizeof_RpcHeader + length p"
  using assms by (simp_all add: arrived_def missing_def session_create_def payload_of_def sizeof_RpcHeader_def)

lemma join_request_valid:
  "valid_request (join_header cm) (join_request_image e (join_request e cm))"
  "command_type (join_header cm) = RPC_CMD_JOIN_REQ" "wf_rpc_header (join_header cm)"
  by (simp_all add: valid_request_def join_header_def wf_rpc_header_def MAX_NODE_ID_def length_strncpy join_request_def
      join_request_read_image(2) cluster_sizes)

text \<open>C5: Joining over the network: whatever pieces the kernel hands out, a session that is sent a join request reads it, admits
  the node, and sends the whole response, after at most one event for each byte. The joining node, given the payload of that
  response, ends up with the seed's view of the cluster, and the seed lists it as alive under its port.\<close>

theorem join_served:
  assumes K: "stream_kernel (m_kernel M) tx rx" "healthy_kernel (m_kernel M) rx" and M: "serving_machine M tx"
    and seed: "wf_cluster (w_cluster w)" "list_all short_enums (cm_members (w_cluster w))" "length (cm_members (w_cluster w)) + 1 < 2 ^ 32"
    and joiner: "wf_cluster joiner" "cm_members joiner = []"
    and l: "wf_loop l" "registered l (sockfd c) = Some (a, OnClient q)"
    and sent: "rx (sockfd c) (w_kernel w) = serializer_pack_rpc (m_endian M) (join_header joiner) @
      join_request_image (m_endian M) (join_request (m_endian M) joiner)"
    and n: "sizeof_RpcHeader + sizeof_JoinRequestPayload \<le> n"
    and m: "sizeof_RpcHeader + sizeof_JoinResponseHeader + (length (cm_members (w_cluster w)) + 1) * sizeof_NodeInfo \<le> m"
  shows "\<exists>rc s' l' w' payload joiner' new rest.
    serve M q (replicate n EVENT_READ @ replicate m EVENT_WRITE) ((session_create fd)\<lparr>cs_conn := c\<rparr>, l, w) = (rc, s', l', w') \<and>
    cs_state s' = SESSION_DONE \<and>
    tx (sockfd c) (w_kernel w') = tx (sockfd c) (w_kernel w) @
      serializer_pack_rpc (m_endian M) (response_header (join_header joiner) (length payload)) @ payload \<and>
    process_join_response (m_endian M) (\<lambda>_. True) True slots now ip port payload joiner = Inr joiner' \<and>
    cm_members joiner' = new @ rest \<and>
    map known new = map known (filter (\<lambda>n. \<not> streq (ni_node_id n) (ni_node_id (cm_self joiner))) (cm_members (w_cluster w'))) \<and>
    (\<exists>m \<in> set (cm_members (w_cluster w')). streq (ni_node_id m) (ni_node_id (cm_self joiner)) \<and>
       ni_status m = NODE_STATUS_ALIVE \<and> ni_tcp_port m = ni_tcp_port (cm_self joiner))"
proof -
  let ?e = "m_endian M" and ?s = "(session_create fd)\<lparr>cs_conn := c\<rparr>" and ?h = "join_header joiner"
  let ?p = "join_request_image ?e (join_request ?e joiner)"
  have len: "length ?p = sizeof_JoinRequestPayload" and read: "join_request_read ?e ?p = join_request ?e joiner"
    using join_request_read_image [of "join_request ?e joiner" ?e] by (simp_all add: join_request_def length_strncpy)
  have mem: "\<And>w. m_payload_mem M w" and fresh: "\<And>v n. \<exists>b. m_fresh M v n = Some b \<and> length b = n" and re: "\<And>w. m_realloc M w"
    using M by (simp_all add: serving_machine_def)
  have arr: "arrived ?e ?h ?p [] (rx (sockfd c) (w_kernel w)) ?s" "missing ?p ?s \<le> n"
    using fresh_arrived [of _ ?e ?h ?p "[]"] sent n len join_request_valid(3) by simp_all
  obtain s1 k1 j where s1: "arrived ?e ?h ?p [] (rx (sockfd c) k1) s1" "cs_state s1 = SESSION_PROCESSING" "cs_conn s1 = c"
      "cs_response_bytes_sent s1 = 0" "tx (sockfd c) k1 = tx (sockfd c) (w_kernel w)"
    and run1: "serve M q (replicate n EVENT_READ) (?s, l, w) =
        (case client_loop M q EVENT_READ (s1, l, w\<lparr>w_kernel := k1\<rparr>) of
           (rc, st') \<Rightarrow> if rc < 0 then (rc, st') else serve M q (replicate j EVENT_READ) st')"
    using read_phase [OF K join_request_valid(1) mem arr(1) _ _ arr(2), of q l] by (auto simp: session_create_def)
  let ?w = "w\<lparr>w_kernel := k1\<rparr>"
  obtain payload cm joiner' new rest where plen: "length payload = sizeof_JoinResponseHeader + length (cm_members cm) * sizeof_NodeInfo"
      "length (cm_members cm) \<le> length (cm_members (w_cluster w)) + 1"
    and handle: "cluster_handle_join_req ?e True (m_fresh M ?w) (m_wall M ?w) (join_request ?e joiner) (w_cluster w) = (0, Some payload, cm)"
    and result: "process_join_response ?e (\<lambda>_. True) True slots now ip port payload joiner = Inr joiner'"
      "cm_members joiner' = new @ rest"
      "map known new = map known (filter (\<lambda>n. \<not> streq (ni_node_id n) (ni_node_id (cm_self joiner))) (cm_members cm))"
      "\<exists>m \<in> set (cm_members cm). streq (ni_node_id m) (ni_node_id (cm_self joiner)) \<and>
         ni_status m = NODE_STATUS_ALIVE \<and> ni_tcp_port m = ni_tcp_port (cm_self joiner)"
    using join_exchange [where fresh = "m_fresh M ?w" and e = ?e and wall = "m_wall M ?w" and slots = slots and now = now
        and ip = ip and port = port, OF seed(1) joiner seed(2,3) fresh]
    by (elim exE conjE)
  have s1': "cs_header s1 = ?h" "payload_of s1 = ?p" "cs_payload_total s1 = sizeof_JoinRequestPayload"
    using s1(1,2) len by (simp_all add: arrived_def)
  obtain s2 l2 w2 where loop: "client_loop M q EVENT_READ (s1, l, ?w) = (0, s2, l2, w2)"
    and s2: "cs_state s2 = SESSION_SENDING_RESPONSE" "cs_conn s2 = c" "cs_response_bytes_sent s2 = 0"
      "cs_response_buf s2 = Some (serializer_pack_rpc ?e (response_header ?h (length payload)) @ payload)"
      "cs_response_len s2 = sizeof_RpcHeader + length payload" "w_cluster w2 = cm" "tx (sockfd c) (w_kernel w2) = tx (sockfd c) k1"
    using process_join [OF M l(1), of s1 a q ?w payload cm] l(2) s1 s1' handle read re join_request_valid(2) by auto
  let ?b = "serializer_pack_rpc ?e (response_header ?h (length payload)) @ payload"
  have blen: "length ?b = sizeof_RpcHeader + length payload"
    using rpc.pack_length [of "response_header ?h (length payload)" ?e] by (simp add: response_header_wf)
  have "(length (cm_members cm)) * sizeof_NodeInfo \<le> (length (cm_members (w_cluster w)) + 1) * sizeof_NodeInfo"
    using plen(2) by (rule mult_le_mono1)
  then have "length ?b \<le> m" and "0 < length ?b"
    using m plen(1) blen by (simp_all add: sizeof_RpcHeader_def)
  then obtain rc s3 k3 where "serve M q (replicate m EVENT_WRITE) (s2, l2, w2) = (rc, s3, l2, w2\<lparr>w_kernel := k3\<rparr>)"
    "cs_state s3 = SESSION_DONE" "tx (sockfd c) k3 = tx (sockfd c) (w_kernel w2) @ ?b"
    using write_phase [OF K s2(1,4), of "sockfd c" m q l2 w2] s2 blen by (auto simp: sizeof_RpcHeader_def)
  then show ?thesis
    using run1 loop s2 s1(5) result waiting_to_send [OF s2(1), of M q j "(l2, w2)"] by (auto simp: serve_append)
qed

definition idle_poller :: "'k poller" where
  "idle_poller =
     \<lparr>ep_create = (\<lambda>k. (3, k)), ep_add = (\<lambda>_ _ _ _ k. (True, k)), ep_mod = (\<lambda>_ _ _ _ k. (True, k)),
      ep_del = (\<lambda>_ _ k. (True, k)), ep_wait = (\<lambda>_ _ k. (WaitIntr, k)), ep_close = (\<lambda>_ k. k),
      tm_create = (\<lambda>k. (4, k)), tm_settime = (\<lambda>_ _ _ k. (True, k))\<rparr>"

definition stream_machine :: "demo_state machine" where
  "stream_machine =
     \<lparr>m_kernel = demo_kernel True, m_poller = idle_poller, m_endian = Little, m_realloc = (\<lambda>_. True),
      m_payload_mem = (\<lambda>_. True), m_response_mem = (\<lambda>_. True), m_fresh = (\<lambda>_. sample_fresh), m_new_session = (\<lambda>_. Some 0),
      m_new_context = (\<lambda>_. Some 1), m_wall = (\<lambda>_. 1700000000), m_gettime = (\<lambda>_. Some (0, 5000000)), m_rand = (\<lambda>_. 0), m_timer = Some\<rparr>"

definition joining_world :: "demo_state world" where
  "joining_world =
     \<lparr>w_kernel = ([], [], serializer_pack_rpc Little (join_header sample_joiner) @ join_request_image Little (join_request Little sample_joiner)),
      w_cluster = sample_cluster, w_sessions = (\<lambda>_. None)\<rparr>"

text \<open>The kernel of the example moves two bytes at a time.\<close>

theorem join_served_witness:
  "\<exists>l rc s' l' w' payload joiner'. registered l 7 = Some (64, OnClient 0) \<and>
    serve stream_machine 0 (replicate 179 EVENT_READ @ replicate 247 EVENT_WRITE)
      ((session_create 7)\<lparr>cs_conn := \<lparr>sockfd = 7, remote_ip = zeros 46, remote_port = 0\<rparr>\<rparr>, l, joining_world) = (rc, s', l', w') \<and>
    cs_state s' = SESSION_DONE \<and>
    process_join_response Little (\<lambda>_. True) True (\<lambda>_. sample_slot) 77 [49] 9000 payload sample_joiner = Inr joiner' \<and>
    (\<exists>m \<in> set (cm_members (w_cluster w')). ni_tcp_port m = 9001)"
proof -
  let ?l = "new_loop\<lparr>fd_table := (fd_table new_loop)[fd_hash 7 := [\<lparr>fc_addr = 64, fc_fd = 7, fc_callback = OnClient 0\<rparr>]]\<rparr>"
  have l: "wf_loop ?l" "registered ?l 7 = Some (64, OnClient 0)"
    using wf_with_chain [OF new_loop_wf, of "[\<lparr>fc_addr = 64, fc_fd = 7, fc_callback = OnClient 0\<rparr>]" 7]
    by (simp_all add: registered_def find_with_chain [OF new_loop_wf])
  have K: "stream_kernel (m_kernel stream_machine) (\<lambda>_ (tab, tx, rx). tx) (\<lambda>_ (tab, tx, rx). rx)"
    "healthy_kernel (m_kernel stream_machine) (\<lambda>_ (tab, tx, rx). rx)"
    using demo_kernel_stream demo_kernel_healthy by (simp_all add: stream_machine_def)
  have M: "serving_machine stream_machine (\<lambda>_ (tab, tx, rx). tx)"
    by (simp add: serving_machine_def stream_machine_def sample_fresh_def idle_poller_def)
  have j: "wf_cluster sample_joiner" "cm_members sample_joiner = []" "cm_members sample_cluster = []" "ni_tcp_port (cm_self sample_joiner) = 9001"
    by (simp_all add: sample_joiner_def sample_cluster_def cluster_init_def wf_cluster_def wf_member_def)
  have w: "w_cluster joining_world = sample_cluster" "m_endian stream_machine = Little"
    "w_kernel joining_world = ([], [], serializer_pack_rpc Little (join_header sample_joiner) @
       join_request_image Little (join_request Little sample_joiner))"
    by (simp_all add: joining_world_def stream_machine_def)
  show ?thesis
    using join_served [OF K M, of joining_world sample_joiner ?l "\<lparr>sockfd = 7, remote_ip = zeros 46, remote_port = 0\<rparr>" 64 0 179 247 7
        "\<lambda>_. sample_slot" 77 "[49]" 9000] sample_cluster_wf l j
    by (simp add: w cluster_sizes sizeof_RpcHeader_def MAX_NODE_ID_def) blast
qed

end
