(* ===== verification/Logger.thy ===== *)
theory Logger
  imports Prelude
begin

text \<open>
  The logger, \<^verbatim>\<open>src/common/logger.c\<close>: a ring of 4096 entries between the thread that logs and the thread that prints.
  The two threads interleave, so their code is cut at the accesses to shared memory: \<^verbatim>\<open>log_msg\<close> decides on the two indices, writes
  the entry, and publishes it; the worker takes a snapshot of the indices, prints entry by entry, and releases what it has
  printed. Indices are words and wrap around. The text of \<^verbatim>\<open>vsnprintf\<close> and the clock come from outside. The state
  has one history variable, \<open>accepted\<close>, the entries published so far.
\<close>

section \<open>Data\<close>

datatype LogLevel = LOG_DEBUG | LOG_INFO | LOG_WARN | LOG_ERROR

definition LOG_BUFFER_SIZE :: nat where "LOG_BUFFER_SIZE = 4096"
definition LOG_MSG_LEN :: nat where "LOG_MSG_LEN = 128"

record LogEntry =
  le_timestamp :: u64
  le_level :: LogLevel
  le_message :: bytes

text \<open>Where each thread is, with its local variables.\<close>

datatype producer = P_Idle | P_Writing LogEntry u64 | P_Publishing LogEntry u64
datatype worker = W_Idle | W_Printing u64 u64 | W_Exited

record logger =
  ring_buffer :: "LogEntry list"
  write_idx :: u64
  read_idx :: u64
  lg_running :: bool
  lg_producer :: producer
  lg_worker :: worker
  printed :: "(u64 \<times> string \<times> bytes) list"
  accepted :: "LogEntry list"

section \<open>Code\<close>

fun level_str :: "LogLevel \<Rightarrow> string" where
  "level_str LOG_ERROR = ''ERR''"
| "level_str LOG_WARN = ''WARN''"
| "level_str LOG_INFO = ''INFO''"
| "level_str LOG_DEBUG = ''DEBUG''"

definition ring_index :: "u64 \<Rightarrow> nat" where
  "ring_index i = unat (i AND (of_nat LOG_BUFFER_SIZE - 1))"

text \<open>What \<^verbatim>\<open>vsnprintf\<close> stores of the formatted text, and what \<^verbatim>\<open>%s\<close> prints of an entry.\<close>

definition stored_message :: "bytes \<Rightarrow> bytes" where
  "stored_message text = take (LOG_MSG_LEN - 1) (cstr text) @ [0]"

definition log_line :: "LogEntry \<Rightarrow> u64 \<times> string \<times> bytes" where
  "log_line e = (le_timestamp e, level_str (le_level e), cstr (le_message e))"

text \<open>\<open>fresh\<close> is what the allocated ring holds; \<open>None\<close> for NULL. The thread starts idle.\<close>

definition logger_init :: "LogEntry list option \<Rightarrow> bool \<Rightarrow> logger option" where
  "logger_init fresh thread_ok =
     (case fresh of
        None \<Rightarrow> None
      | Some ring \<Rightarrow>
          if \<not> thread_ok then None
          else Some \<lparr>ring_buffer = ring, write_idx = 0, read_idx = 0, lg_running = True, lg_producer = P_Idle,
                     lg_worker = W_Idle, printed = [], accepted = []\<rparr>)"

text \<open>\<^verbatim>\<open>log_msg\<close> up to the test: a full ring drops the message.\<close>

definition log_msg :: "LogLevel \<Rightarrow> bytes \<Rightarrow> u64 \<Rightarrow> logger \<Rightarrow> logger" where
  "log_msg level text now st =
     (if write_idx st - read_idx st \<ge> of_nat LOG_BUFFER_SIZE then st
      else st\<lparr>lg_producer := P_Writing \<lparr>le_timestamp = now, le_level = level, le_message = stored_message text\<rparr> (write_idx st)\<rparr>)"

definition write_entry :: "LogEntry \<Rightarrow> u64 \<Rightarrow> logger \<Rightarrow> logger" where
  "write_entry e w st = st\<lparr>ring_buffer := (ring_buffer st)[ring_index w := e], lg_producer := P_Publishing e w\<rparr>"

definition publish :: "LogEntry \<Rightarrow> u64 \<Rightarrow> logger \<Rightarrow> logger" where
  "publish e w st = st\<lparr>write_idx := w + 1, lg_producer := P_Idle, accepted := accepted st @ [e]\<rparr>"

text \<open>The worker at the head of its loop: print, sleep, or end.\<close>

definition worker_poll :: "logger \<Rightarrow> logger" where
  "worker_poll st =
     (if read_idx st = write_idx st
      then (if lg_running st then st else st\<lparr>lg_worker := W_Exited\<rparr>)
      else st\<lparr>lg_worker := W_Printing (read_idx st) (write_idx st)\<rparr>)"

definition worker_print :: "u64 \<Rightarrow> u64 \<Rightarrow> logger \<Rightarrow> logger" where
  "worker_print r w st =
     (if r \<noteq> w
      then st\<lparr>printed := printed st @ [log_line (ring_buffer st ! ring_index r)], lg_worker := W_Printing (r + 1) w\<rparr>
      else st\<lparr>read_idx := r, lg_worker := W_Idle\<rparr>)"

text \<open>The thread that logs also shuts the logger down, and then waits for the worker.\<close>

definition logger_shutdown :: "logger \<Rightarrow> logger" where
  "logger_shutdown st = st\<lparr>lg_running := False\<rparr>"

inductive logger_step :: "logger \<Rightarrow> logger \<Rightarrow> bool" where
  log: "lg_producer st = P_Idle \<Longrightarrow> lg_running st \<Longrightarrow> logger_step st (log_msg level text now st)"
| fill: "lg_producer st = P_Writing e w \<Longrightarrow> logger_step st (write_entry e w st)"
| publish: "lg_producer st = P_Publishing e w \<Longrightarrow> logger_step st (publish e w st)"
| poll: "lg_worker st = W_Idle \<Longrightarrow> logger_step st (worker_poll st)"
| print: "lg_worker st = W_Printing r w \<Longrightarrow> logger_step st (worker_print r w st)"
| stop: "lg_producer st = P_Idle \<Longrightarrow> logger_step st (logger_shutdown st)"

section \<open>Indices\<close>

lemma ring_index_of_nat: "ring_index (of_nat n) = n mod LOG_BUFFER_SIZE"
proof -
  have "(of_nat LOG_BUFFER_SIZE - 1 :: u64) = mask 12"
    by (simp add: LOG_BUFFER_SIZE_def mask_eq_exp_minus_1)
  then have "ring_index (of_nat n) = unat (take_bit 12 (of_nat n :: u64))"
    by (simp add: ring_index_def take_bit_eq_mask)
  also have "\<dots> = take_bit 12 (take_bit 64 n)"
    by (simp add: unsigned_take_bit_eq unsigned_of_nat)
  also have "\<dots> = n mod LOG_BUFFER_SIZE"
    by (simp add: take_bit_eq_mod mod_mod_cancel LOG_BUFFER_SIZE_def)
  finally show ?thesis .
qed

lemma index_distance:
  assumes "r \<le> w" and "w \<le> r + LOG_BUFFER_SIZE"
  shows "unat (of_nat w - of_nat r :: u64) = w - r" and "(of_nat r :: u64) = of_nat w \<longleftrightarrow> r = w"
proof -
  have "(of_nat w - of_nat r :: u64) = of_nat (w - r)"
    using assms(1) by (simp add: of_nat_diff)
  then show d: "unat (of_nat w - of_nat r :: u64) = w - r"
    using assms(2) by (simp add: unat_of_nat LOG_BUFFER_SIZE_def)
  show "(of_nat r :: u64) = of_nat w \<longleftrightarrow> r = w"
    using d assms(1) by (metis diff_self le_add_diff_inverse unat_0 add_0_right)
qed

lemma mod_distinct:
  assumes "(i :: nat) < j" and "j < i + LOG_BUFFER_SIZE"
  shows "i mod LOG_BUFFER_SIZE \<noteq> j mod LOG_BUFFER_SIZE"
proof
  assume "i mod LOG_BUFFER_SIZE = j mod LOG_BUFFER_SIZE"
  then have "LOG_BUFFER_SIZE dvd j - i"
    using assms(1) by (metis mod_eq_dvd_iff_nat less_imp_le)
  then show False
    using assms by (auto dest: dvd_imp_le)
qed

section \<open>The invariant\<close>

text \<open>
  \<open>R\<close> entries are released, \<open>r\<close> printed; the entries from \<open>r\<close> on are still in their slots.
\<close>

definition logger_inv :: "nat \<Rightarrow> nat \<Rightarrow> logger \<Rightarrow> bool" where
  "logger_inv R r st \<longleftrightarrow>
     length (ring_buffer st) = LOG_BUFFER_SIZE \<and> R \<le> r \<and> r \<le> length (accepted st) \<and>
     length (accepted st) \<le> R + LOG_BUFFER_SIZE \<and>
     read_idx st = of_nat R \<and> write_idx st = of_nat (length (accepted st)) \<and>
     printed st = map log_line (take r (accepted st)) \<and>
     (\<forall>i. r \<le> i \<and> i < length (accepted st) \<longrightarrow> ring_buffer st ! (i mod LOG_BUFFER_SIZE) = accepted st ! i) \<and>
     (case lg_producer st of
        P_Idle \<Rightarrow> True
      | P_Writing e w \<Rightarrow> lg_running st \<and> w = write_idx st \<and> length (accepted st) < R + LOG_BUFFER_SIZE
      | P_Publishing e w \<Rightarrow> lg_running st \<and> w = write_idx st \<and> length (accepted st) < R + LOG_BUFFER_SIZE \<and>
          ring_buffer st ! (length (accepted st) mod LOG_BUFFER_SIZE) = e) \<and>
     (case lg_worker st of
        W_Idle \<Rightarrow> r = R
      | W_Printing r' w' \<Rightarrow> \<exists>w. r' = of_nat r \<and> w' = of_nat w \<and> r \<le> w \<and> w \<le> length (accepted st)
      | W_Exited \<Rightarrow> \<not> lg_running st \<and> r = length (accepted st))"

lemma inv_bounds:
  assumes "logger_inv R r st"
  shows "R \<le> length (accepted st)" and "length (accepted st) \<le> R + LOG_BUFFER_SIZE"
  using assms by (simp_all add: logger_inv_def)

lemma log_msg_inv:
  assumes "logger_inv R r st" and "lg_producer st = P_Idle" and "lg_running st"
  shows "logger_inv R r (log_msg level text now st)"
proof -
  have "length (accepted st) < R + LOG_BUFFER_SIZE" if "\<not> of_nat LOG_BUFFER_SIZE \<le> write_idx st - read_idx st"
    using that assms(1) index_distance(1) [OF inv_bounds [OF assms(1)]]
    by (auto simp: logger_inv_def word_le_nat_alt LOG_BUFFER_SIZE_def)
  then show ?thesis
    using assms by (auto simp: log_msg_def logger_inv_def split: worker.splits)
qed

lemma write_entry_inv:
  assumes inv: "logger_inv R r st" and "lg_producer st = P_Writing e w"
  shows "logger_inv R r (write_entry e w st)"
proof -
  let ?n = "length (accepted st)"
  have w: "ring_index w = ?n mod LOG_BUFFER_SIZE" and room: "?n < R + LOG_BUFFER_SIZE" and run: "lg_running st" "w = write_idx st"
    using assms ring_index_of_nat [of ?n] by (simp_all add: logger_inv_def)
  have "i mod LOG_BUFFER_SIZE \<noteq> ?n mod LOG_BUFFER_SIZE" if "r \<le> i" "i < ?n" for i
    using mod_distinct [OF that(2)] that room inv by (simp add: logger_inv_def)
  moreover have "?n mod LOG_BUFFER_SIZE < length (ring_buffer st)"
    using inv by (simp add: logger_inv_def LOG_BUFFER_SIZE_def)
  moreover have "\<forall>i. r \<le> i \<and> i < ?n \<longrightarrow> ring_buffer st ! (i mod LOG_BUFFER_SIZE) = accepted st ! i"
    using inv by (simp add: logger_inv_def)
  ultimately have slots: "(ring_buffer st)[?n mod LOG_BUFFER_SIZE := e] ! (?n mod LOG_BUFFER_SIZE) = e"
    "\<forall>i. r \<le> i \<and> i < ?n \<longrightarrow> (ring_buffer st)[?n mod LOG_BUFFER_SIZE := e] ! (i mod LOG_BUFFER_SIZE) = accepted st ! i"
    by (metis nth_list_update_eq, metis nth_list_update_neq)
  show ?thesis
    using inv w room run slots by (cases "lg_worker st") (simp_all add: write_entry_def logger_inv_def)
qed

lemma publish_inv:
  assumes "logger_inv R r st" and "lg_producer st = P_Publishing e w"
  shows "logger_inv R r (publish e w st)"
  using assms
  by (auto simp: publish_def logger_inv_def nth_append less_Suc_eq le_Suc_eq add.commute split: worker.splits)

lemma worker_poll_inv:
  assumes "logger_inv R r st" and "lg_worker st = W_Idle"
  shows "logger_inv R r (worker_poll st)"
  using assms index_distance(2) [OF inv_bounds [OF assms(1)]]
  by (auto simp: worker_poll_def logger_inv_def split: producer.splits)

lemma worker_print_inv:
  assumes inv: "logger_inv R r st" and at: "lg_worker st = W_Printing r' w'"
  shows "\<exists>R' r2. logger_inv R' r2 (worker_print r' w' st)"
proof -
  obtain w where w: "r' = of_nat r" "w' = of_nat w" "r \<le> w" "w \<le> length (accepted st)"
    using inv at by (auto simp: logger_inv_def)
  have "w \<le> r + LOG_BUFFER_SIZE"
    using w(4) inv by (simp add: logger_inv_def)
  then have eq: "r' = w' \<longleftrightarrow> r = w"
    using index_distance(2) [OF w(3)] w(1,2) by simp
  show ?thesis
  proof (cases "r = w")
    case True
    then have "logger_inv r r (worker_print r' w' st)"
      using inv w eq by (auto simp: worker_print_def logger_inv_def split: producer.splits)
    then show ?thesis by blast
  next
    case False
    then have "r < length (accepted st)"
      using w by simp
    then have "logger_inv R (Suc r) (worker_print r' w' st)"
      using inv w eq False ring_index_of_nat [of r]
      by (auto simp: worker_print_def logger_inv_def take_Suc_conv_app_nth split: producer.splits intro!: exI [of _ w])
    then show ?thesis by blast
  qed
qed

lemma shutdown_inv: "logger_inv R r st \<Longrightarrow> lg_producer st = P_Idle \<Longrightarrow> logger_inv R r (logger_shutdown st)"
  by (auto simp: logger_shutdown_def logger_inv_def split: worker.splits)

lemma step_inv:
  assumes "logger_step st st'" and inv: "logger_inv R r st"
  shows "\<exists>R' r'. logger_inv R' r' st'"
  using assms(1)
proof cases
  case (log level msg now)
  then show ?thesis
    using log_msg_inv [OF inv] by blast
next
  case (fill e w)
  then show ?thesis
    using write_entry_inv [OF inv] by blast
next
  case (publish e w)
  then show ?thesis
    using publish_inv [OF inv] by blast
next
  case poll
  then show ?thesis
    using worker_poll_inv [OF inv] by blast
next
  case (print a b)
  then show ?thesis
    using worker_print_inv [OF inv] by blast
next
  case stop
  then show ?thesis
    using shutdown_inv [OF inv] by blast
qed

lemma reachable_inv: "logger_step\<^sup>*\<^sup>* st st' \<Longrightarrow> logger_inv R r st \<Longrightarrow> \<exists>R' r'. logger_inv R' r' st'"
  by (induction rule: rtranclp_induct) (auto dest: step_inv)


definition blank_entry :: LogEntry where
  "blank_entry = \<lparr>le_timestamp = 0, le_level = LOG_DEBUG, le_message = [0]\<rparr>"

definition fresh_logger :: logger where
  "fresh_logger = \<lparr>ring_buffer = replicate LOG_BUFFER_SIZE blank_entry, write_idx = 0, read_idx = 0, lg_running = True,
     lg_producer = P_Idle, lg_worker = W_Idle, printed = [], accepted = []\<rparr>"


end
