(* ===== verification/Rules.thy ===== *)
theory Rules
  imports Prelude
begin

text \<open>
  Rules: the store from keys to rule chains, \<^verbatim>\<open>src/cluster/kv_store.c\<close>, and their execution,
  \<^verbatim>\<open>src/cluster/rule_engine.c\<close>. The store keeps pointers to chains it does not own, so a chain is an address in a
  heap of rules, \<open>None\<close> for NULL. The static array is the list of its used slots. Printing is left out.
\<close>

section \<open>The store\<close>

record Rule =
  rule_definition :: bytes
  rule_next :: "nat option"

record RuleConfig =
  rc_key :: bytes
  rc_rule_head :: "nat option"

definition MAX_KV_ENTRIES :: nat where "MAX_KV_ENTRIES = 1024"

definition kv_init :: "RuleConfig list" where
  "kv_init = []"

text \<open>The search both operations make.\<close>

fun find_config :: "nat \<Rightarrow> RuleConfig list \<Rightarrow> bytes \<Rightarrow> nat option" where
  "find_config i [] k = None"
| "find_config i (c # cs) k = (if streq (rc_key c) k then Some i else find_config (i + 1) cs k)"

definition kv_update_rule :: "bool \<Rightarrow> bytes \<Rightarrow> nat option \<Rightarrow> RuleConfig list \<Rightarrow> int \<times> RuleConfig list" where
  "kv_update_rule mem k rules store =
     (case find_config 0 store k of
        Some i \<Rightarrow> (0, store[i := (store ! i)\<lparr>rc_rule_head := rules\<rparr>])
      | None \<Rightarrow>
          if length store \<ge> MAX_KV_ENTRIES then (-1, store)
          else if \<not> mem then (-1, store)
          else (0, store @ [\<lparr>rc_key = strncpy (zeros 64) k 63, rc_rule_head = rules\<rparr>]))"

definition kv_get_rules :: "bytes \<Rightarrow> RuleConfig list \<Rightarrow> nat option" where
  "kv_get_rules k store =
     (case find_config 0 store k of None \<Rightarrow> None | Some i \<Rightarrow> rc_rule_head (store ! i))"

definition kv_destroy :: "RuleConfig list \<Rightarrow> RuleConfig list" where
  "kv_destroy store = []"

section \<open>Execution\<close>

fun starts_with :: "bytes \<Rightarrow> bytes \<Rightarrow> bool" where
  "starts_with s [] = True"
| "starts_with [] (p # ps) = False"
| "starts_with (c # s) (p # ps) = (c = p \<and> starts_with s ps)"

fun strstr :: "bytes \<Rightarrow> bytes \<Rightarrow> bool" where
  "strstr [] p = starts_with [] p"
| "strstr (c # s) p = (starts_with (c # s) p \<or> strstr s p)"

definition REJECT :: bytes where "REJECT = [82, 69, 74, 69, 67, 84]"

text \<open>The loop along the chain; a pointer outside the heap is a rule that was freed.\<close>

partial_function (option) execute_rules :: "(nat \<Rightarrow> Rule option) \<Rightarrow> nat option \<Rightarrow> (fault + int) option" where
  "execute_rules heap current =
     (case current of
        None \<Rightarrow> Some (Inr 0)
      | Some p \<Rightarrow>
          (case heap p of
             None \<Rightarrow> Some (Inl UseAfterFree)
           | Some rule \<Rightarrow>
               if strstr (cstr (rule_definition rule)) REJECT then Some (Inr (-1))
               else execute_rules heap (rule_next rule)))"

section \<open>The store as a map\<close>

definition wf_store :: "RuleConfig list \<Rightarrow> bool" where
  "wf_store store \<longleftrightarrow>
     length store \<le> MAX_KV_ENTRIES \<and> (\<forall>c \<in> set store. wf_cbuf 64 (rc_key c)) \<and> distinct (map (cstr \<circ> rc_key) store)"

definition rules_of :: "RuleConfig list \<Rightarrow> bytes \<Rightarrow> nat option option" where
  "rules_of store = map_of (map (\<lambda>c. (cstr (rc_key c), rc_rule_head c)) store)"

lemma find_config_Some:
  "find_config i store k = Some j \<Longrightarrow>
     i \<le> j \<and> j < i + length store \<and> cstr (rc_key (store ! (j - i))) = cstr k \<and> rules_of store (cstr k) = Some (rc_rule_head (store ! (j - i)))"
  by (induction i store k rule: find_config.induct) (auto simp: rules_of_def streq_def nth_Cons' split: if_splits)

lemma find_config_None: "find_config i store k = None \<longleftrightarrow> rules_of store (cstr k) = None"
  by (induction i store k rule: find_config.induct) (auto simp: rules_of_def streq_def)

lemma rules_of_update:
  assumes "distinct (map (cstr \<circ> rc_key) store)" and "j < length store"
  shows "rules_of (store[j := (store ! j)\<lparr>rc_rule_head := r\<rparr>]) = (rules_of store)(cstr (rc_key (store ! j)) \<mapsto> r)"
  using assms
proof (induction store arbitrary: j)
  case (Cons c store)
  show ?case
  proof (cases j)
    case 0
    then show ?thesis by (auto simp: rules_of_def)
  next
    case (Suc i)
    then have "i < length store" and "cstr (rc_key c) \<noteq> cstr (rc_key (store ! i))"
      using Cons.prems by auto
    then show ?thesis
      using Cons Suc by (auto simp: rules_of_def fun_eq_iff)
  qed
qed simp

lemma rules_of_append: "rules_of store k = None \<Longrightarrow> rules_of (store @ [c]) k = rules_of [c] k"
  "rules_of store k = Some r \<Longrightarrow> rules_of (store @ [c]) k = Some r"
  by (simp_all add: rules_of_def map_add_def)

text \<open>C37: For keys of at most 63 characters the store is a map: an update inserts or replaces exactly the rules of its key, or fails
  without a change, which needs a new key and either 1024 keys already there or no memory; a lookup gives what was stored
  last. The store stays well-formed throughout.\<close>

theorem kv_refines_map:
  assumes "wf_store store" and "strlen k \<le> 63"
  shows "(case kv_update_rule mem k rules store of (rc, store') \<Rightarrow>
      wf_store store' \<and>
      (if rules_of store (cstr k) = None \<and> (length store = MAX_KV_ENTRIES \<or> \<not> mem) then rc = -1 \<and> store' = store
       else rc = 0 \<and> rules_of store' = (rules_of store)(cstr k \<mapsto> rules) \<and> kv_get_rules k store' = rules)) \<and>
    kv_get_rules k store = (case rules_of store (cstr k) of None \<Rightarrow> None | Some r \<Rightarrow> r) \<and>
    wf_store kv_init \<and> rules_of (kv_destroy store) = (\<lambda>_. None)"
proof -
  have get: "kv_get_rules k s = (case rules_of s (cstr k) of None \<Rightarrow> None | Some r \<Rightarrow> r)" for s
    using find_config_None [of 0 s k] find_config_Some [of 0 s k]
    by (auto simp: kv_get_rules_def split: option.splits)
  have copy: "cstr (strncpy (zeros 64) k 63) = cstr k" "wf_cbuf 64 (strncpy (zeros 64) k 63)"
    using cstr_strncpy_fits [of 63 "zeros 64" k] strncpy_wf [of 63 "zeros 64" k] assms(2) by simp_all
  have "wf_store kv_init" "rules_of (kv_destroy store) = (\<lambda>_. None)"
    by (simp_all add: kv_init_def kv_destroy_def wf_store_def rules_of_def)
  moreover have "case kv_update_rule mem k rules store of (rc, store') \<Rightarrow>
      wf_store store' \<and>
      (if rules_of store (cstr k) = None \<and> (length store = MAX_KV_ENTRIES \<or> \<not> mem) then rc = -1 \<and> store' = store
       else rc = 0 \<and> rules_of store' = (rules_of store)(cstr k \<mapsto> rules) \<and> kv_get_rules k store' = rules)"
  proof (cases "find_config 0 store k")
    case None
    then have new: "rules_of store (cstr k) = None"
      by (simp add: find_config_None)
    let ?c = "\<lparr>rc_key = strncpy (zeros 64) k 63, rc_rule_head = rules\<rparr>"
    have "rules_of (store @ [?c]) = (rules_of store)(cstr k \<mapsto> rules)"
      using new copy(1) by (auto simp: rules_of_def fun_eq_iff map_add_def split: option.split)
    moreover have "cstr k \<notin> (cstr \<circ> rc_key) ` set store"
      using new by (auto simp: rules_of_def map_of_eq_None_iff image_image)
    ultimately show ?thesis
      using None assms(1) new copy by (auto simp: kv_update_rule_def wf_store_def get)
  next
    case (Some j)
    then have j: "j < length store" "cstr (rc_key (store ! j)) = cstr k" "rules_of store (cstr k) \<noteq> None"
      using find_config_Some [OF Some] by auto
    let ?s = "store[j := (store ! j)\<lparr>rc_rule_head := rules\<rparr>]"
    have "map (cstr \<circ> rc_key) ?s = map (cstr \<circ> rc_key) store"
      using j(1) by (simp add: map_update list_update_same_conv)
    moreover have "\<forall>c \<in> set ?s. wf_cbuf 64 (rc_key c)"
      using assms(1) j(1) set_update_subset_insert [of store j] nth_mem [OF j(1)] by (fastforce simp: wf_store_def)
    moreover have "rules_of ?s = (rules_of store)(cstr k \<mapsto> rules)"
      using rules_of_update [OF _ j(1)] j(2) assms(1) by (simp add: wf_store_def)
    ultimately show ?thesis
      using Some j assms(1) by (simp add: kv_update_rule_def wf_store_def get)
  qed
  ultimately show ?thesis
    using get by blast
qed

definition key_a :: bytes where "key_a = [97, 0]"

theorem kv_refines_map_witness:
  "kv_get_rules key_a (snd (kv_update_rule True key_a (Some 7) kv_init)) = Some 7 \<and> wf_store (snd (kv_update_rule True key_a (Some 7) kv_init))"
proof -
  have "wf_store kv_init" "strlen key_a \<le> 63" "rules_of kv_init (cstr key_a) = None" "length kv_init \<noteq> MAX_KV_ENTRIES"
    by (simp_all add: kv_init_def wf_store_def key_a_def strlen_def cstr_def rules_of_def MAX_KV_ENTRIES_def)
  then show ?thesis
    using kv_refines_map [of kv_init key_a True "Some 7"] by (auto split: prod.splits)
qed

text \<open>A key of more than 63 characters is accepted but never found again: every update of it takes another slot, and lookups give
  NULL.\<close>

lemma long_key_lost:
  assumes "wf_store store" and "strlen k > 63" and "length store < MAX_KV_ENTRIES"
  shows "(case kv_update_rule True k rules store of (rc, store') \<Rightarrow>
    rc = 0 \<and> length store' = length store + 1 \<and> kv_get_rules k store' = None)"
proof -
  have short: "cstr (rc_key c) \<noteq> cstr k" if "wf_cbuf 64 (rc_key c)" for c
    using length_cstr_wf [OF that] assms(2) by (auto simp: strlen_def)
  have none: "find_config i s k = None" if "\<forall>c \<in> set s. wf_cbuf 64 (rc_key c)" for i s
    using that short by (induction i s k rule: find_config.induct) (auto simp: streq_def)
  have "wf_cbuf 64 (strncpy (zeros 64) k 63)"
    using strncpy_wf [of 63 "zeros 64" k] by simp
  then have "\<forall>c \<in> set (store @ [\<lparr>rc_key = strncpy (zeros 64) k 63, rc_rule_head = rules\<rparr>]). wf_cbuf 64 (rc_key c)"
    using assms(1) by (auto simp: wf_store_def)
  then show ?thesis
    using none assms by (simp add: kv_update_rule_def kv_get_rules_def wf_store_def)
qed

section \<open>Chains of rules\<close>

fun chain :: "(nat \<Rightarrow> Rule option) \<Rightarrow> nat option \<Rightarrow> Rule list \<Rightarrow> bool" where
  "chain heap None rs = (rs = [])"
| "chain heap (Some p) [] = False"
| "chain heap (Some p) (r # rs) = (heap p = Some r \<and> chain heap (rule_next r) rs)"

definition rejects :: "Rule \<Rightarrow> bool" where
  "rejects r \<longleftrightarrow> (\<exists>a b. cstr (rule_definition r) = a @ REJECT @ b)"

lemma starts_with_iff: "starts_with s p \<longleftrightarrow> (\<exists>b. s = p @ b)"
  by (induction s p rule: starts_with.induct) auto

lemma strstr_iff: "strstr s p \<longleftrightarrow> (\<exists>a b. s = a @ p @ b)"
proof (induction s)
  case Nil
  then show ?case by (simp add: starts_with_iff)
next
  case (Cons c s)
  show ?case
  proof
    assume "strstr (c # s) p"
    then consider b where "c # s = [] @ p @ b" | a b where "s = a @ p @ b"
      using Cons by (auto simp: starts_with_iff)
    then show "\<exists>a b. c # s = a @ p @ b"
    proof cases
      case 2
      then have "c # s = (c # a) @ p @ b" by simp
      then show ?thesis by blast
    qed blast
  next
    assume "\<exists>a b. c # s = a @ p @ b"
    then obtain a b where ab: "c # s = a @ p @ b" by blast
    have "starts_with (c # s) p \<or> strstr s p"
    proof (cases a)
      case Nil
      then show ?thesis
        using ab starts_with_iff [of "c # s" p] by auto
    next
      case (Cons x xs)
      then have "s = xs @ p @ b" using ab by simp
      then show ?thesis using \<open>strstr s p \<longleftrightarrow> (\<exists>a b. s = a @ p @ b)\<close> by blast
    qed
    then show "strstr (c # s) p" by simp
  qed
qed

lemma execute_step:
  "heap q = Some r \<Longrightarrow> execute_rules heap (Some q) = (if rejects r then Some (Inr (-1)) else execute_rules heap (rule_next r))"
  by (subst execute_rules.simps) (simp add: rejects_def strstr_iff)

lemma execute_chain:
  "chain heap q rs \<Longrightarrow> execute_rules heap q = Some (Inr (if \<exists>r \<in> set rs. rejects r then -1 else 0))"
  by (induction heap q rs rule: chain.induct) (simp_all add: execute_step execute_rules.simps [of _ None])

text \<open>A chain that bites its own tail.\<close>

lemma execute_cycle:
  assumes "\<And>q. q \<in> cycle \<Longrightarrow> \<exists>r. heap q = Some r \<and> \<not> rejects r \<and> (\<exists>q' \<in> cycle. rule_next r = Some q')"
    and "execute_rules heap current = Some y"
  shows "current \<notin> Some ` cycle"
proof -
  let ?Q = "\<lambda>h c y. h = heap \<longrightarrow> c \<notin> Some ` cycle"
  have "?Q heap current y"
  proof (rule execute_rules.raw_induct [where P = ?Q, OF _ assms(2)], intro impI)
    fix run h c y
    assume ih: "\<And>h c y. run h c = Some y \<Longrightarrow> ?Q h c y" and h: "h = heap"
      and body: "(case c of None \<Rightarrow> Some (Inr 0)
        | Some p \<Rightarrow> (case h p of None \<Rightarrow> Some (Inl UseAfterFree)
            | Some rule \<Rightarrow> if strstr (cstr (rule_definition rule)) REJECT then Some (Inr (-1)) else run h (rule_next rule))) = Some y"
    show "c \<notin> Some ` cycle"
    proof
      assume "c \<in> Some ` cycle"
      then obtain q r q' where q: "c = Some q" "heap q = Some r" "\<not> rejects r" "q' \<in> cycle" "rule_next r = Some q'"
        using assms(1) by blast
      then have "run heap (Some q') = Some y"
        using body h by (simp add: rejects_def strstr_iff)
      then show False
        using ih q(4) by blast
    qed
  qed
  then show ?thesis by simp
qed

text \<open>C38: A chain of rules that ends is accepted exactly when no rule's text contains REJECT, without fault; a chain that leads
  back into itself without a rejecting rule is followed for ever.\<close>

theorem rules_executed:
  "(chain heap q rs \<longrightarrow> execute_rules heap q = Some (Inr (if \<exists>r \<in> set rs. rejects r then -1 else 0))) \<and>
   ((\<forall>p \<in> cycle. \<exists>r. heap p = Some r \<and> \<not> rejects r \<and> (\<exists>p' \<in> cycle. rule_next r = Some p')) \<longrightarrow> p0 \<in> cycle \<longrightarrow>
      execute_rules heap (Some p0) = None)"
proof -
  have "execute_rules heap (Some p0) = None"
    if c: "\<forall>p \<in> cycle. \<exists>r. heap p = Some r \<and> \<not> rejects r \<and> (\<exists>p' \<in> cycle. rule_next r = Some p')" and p0: "p0 \<in> cycle"
  proof (rule ccontr)
    assume "execute_rules heap (Some p0) \<noteq> None"
    then obtain y where "execute_rules heap (Some p0) = Some y" by blast
    with execute_cycle [of cycle heap "Some p0" y] c p0 show False by blast
  qed
  then show ?thesis
    using execute_chain by blast
qed

theorem rules_executed_witness:
  "execute_rules [1 \<mapsto> \<lparr>rule_definition = [82, 69, 74, 69, 67, 84, 0], rule_next = None\<rparr>] (Some 1) = Some (Inr (-1)) \<and>
   execute_rules [2 \<mapsto> \<lparr>rule_definition = [65, 0], rule_next = Some 2\<rparr>] (Some 2) = None"
proof -
  let ?r = "\<lparr>rule_definition = [82, 69, 74, 69, 67, 84, 0], rule_next = None\<rparr>"
  let ?h = "[2 \<mapsto> \<lparr>rule_definition = [65, 0], rule_next = Some 2\<rparr>]"
  have "rejects ?r"
    unfolding rejects_def by (intro exI [of _ "[]"]) (simp add: cstr_def REJECT_def)
  then have 1: "execute_rules [1 \<mapsto> ?r] (Some 1) = Some (Inr (-1))"
    using rules_executed [THEN conjunct1, of "[1 \<mapsto> ?r]" "Some 1" "[?r]"] by simp
  have "\<not> rejects \<lparr>rule_definition = [65, 0], rule_next = Some 2\<rparr>"
    unfolding rejects_def REJECT_def by (auto simp: cstr_def dest!: arg_cong [where f = length])
  then show ?thesis
    using 1 rules_executed [THEN conjunct2, of "{2}" ?h 2] by simp
qed

end
